(* ===== verification/Prelude.thy ===== *)
theory Prelude
  imports Main "HOL-Library.Word" "HOL-Library.Monad_Syntax"
begin

text \<open>
  What every component of the model shares: the machine integer types of the C sources, byte
  buffers and the memory accesses on them, integers as the program's loads and stores see them
  (for either byte order of the host), the results of calls that can run into undefined
  behaviour, and general lemmas on words and lists.

  A buffer is the list of the bytes from a pointer up to the end of the object it points into.
  A load from it, or a \<^verbatim>\<open>memcpy\<close> out of it, that runs past the end is undefined behaviour in C.
  Functions that access memory return an \<^typ>\<open>'a option\<close> in which \<^term>\<open>None\<close> stands for undefined
  behaviour and for nothing else: every error that the program itself reports is a value of its
  own (\<open>-1\<close>, a null pointer).
\<close>

unbundle bit_operations_syntax

type_synonym u8 = "8 word"
type_synonym u16 = "16 word"
type_synonym u32 = "32 word"
type_synonym bytes = "u8 list"

named_theorems byte_simps \<open>loads and stores of integers in byte buffers\<close>
named_theorems frame_simps \<open>state components an operation leaves alone\<close>

section \<open>Integers in memory\<close>

text \<open>The byte order of the machine the program runs on.\<close>

datatype host = Little | Big

text \<open>The conversions to the unsigned types, as C makes them: modulo a power of two.\<close>

definition mk8 :: "nat \<Rightarrow> u8" where
  "mk8 n = of_nat n"

definition mk16 :: "nat \<Rightarrow> u16" where
  "mk16 n = of_nat n"

definition mk32 :: "nat \<Rightarrow> u32" where
  "mk32 n = of_nat n"

fun load16 :: "host \<Rightarrow> u8 \<Rightarrow> u8 \<Rightarrow> u16" where
  "load16 Little a b = mk16 (unat a + 256 * unat b)"
| "load16 Big a b = mk16 (unat b + 256 * unat a)"

fun load32 :: "host \<Rightarrow> u8 \<Rightarrow> u8 \<Rightarrow> u8 \<Rightarrow> u8 \<Rightarrow> u32" where
  "load32 Little a b c d = mk32 (unat a + 256 * (unat b + 256 * (unat c + 256 * unat d)))"
| "load32 Big a b c d = mk32 (unat d + 256 * (unat c + 256 * (unat b + 256 * unat a)))"

fun store16 :: "host \<Rightarrow> u16 \<Rightarrow> bytes" where
  "store16 Little w = [mk8 (unat w), mk8 (unat w div 256)]"
| "store16 Big w = [mk8 (unat w div 256), mk8 (unat w)]"

fun store32 :: "host \<Rightarrow> u32 \<Rightarrow> bytes" where
  "store32 Little w =
     [mk8 (unat w), mk8 (unat w div 256), mk8 (unat w div 256 div 256),
      mk8 (unat w div 256 div 256 div 256)]"
| "store32 Big w =
     [mk8 (unat w div 256 div 256 div 256), mk8 (unat w div 256 div 256),
      mk8 (unat w div 256), mk8 (unat w)]"

text \<open>Reads at an offset of a buffer, undefined past its end.\<close>

definition rd8 :: "bytes \<Rightarrow> nat \<Rightarrow> u8 option" where
  "rd8 bs i = (if i < length bs then Some (bs ! i) else None)"

definition rd16 :: "host \<Rightarrow> bytes \<Rightarrow> nat \<Rightarrow> u16 option" where
  "rd16 h bs i = (if i + 2 \<le> length bs then Some (load16 h (bs ! i) (bs ! (i + 1))) else None)"

definition rd32 :: "host \<Rightarrow> bytes \<Rightarrow> nat \<Rightarrow> u32 option" where
  "rd32 h bs i =
     (if i + 4 \<le> length bs
      then Some (load32 h (bs ! i) (bs ! (i + 1)) (bs ! (i + 2)) (bs ! (i + 3))) else None)"

text \<open>\<^verbatim>\<open>memcpy(dst, bs + off, n)\<close>: the bytes copied, undefined when the source is too short.\<close>

definition rd_bytes :: "bytes \<Rightarrow> nat \<Rightarrow> nat \<Rightarrow> bytes option" where
  "rd_bytes bs off n = (if off + n \<le> length bs then Some (take n (drop off bs)) else None)"

text \<open>A store of bytes at an offset of an array, undefined where it leaves the array.\<close>

definition wr_bytes :: "bytes \<Rightarrow> nat \<Rightarrow> bytes \<Rightarrow> bytes option" where
  "wr_bytes bs off new =
     (if off + length new \<le> length bs
      then Some (take off bs @ new @ drop (off + length new) bs) else None)"

section \<open>Searching lists and arrays\<close>

text \<open>The position at which a loop over a list or an array stops, if it stops early.\<close>

fun find_pos :: "('a \<Rightarrow> bool) \<Rightarrow> 'a list \<Rightarrow> nat option" where
  "find_pos P [] = None"
| "find_pos P (x # xs) = (if P x then Some 0 else map_option Suc (find_pos P xs))"

section \<open>Environment feeds\<close>

text \<open>
  Results of calls outside the program (the clock, the allocator, the random number generator,
  system calls) are drawn from sequences that are part of the state: each call takes the next
  value. A theorem that does not constrain a sequence holds for every behaviour of the call.
\<close>

type_synonym 'v feed = "nat \<Rightarrow> 'v"

definition advance :: "'v feed \<Rightarrow> 'v feed" where
  "advance f = (\<lambda>n. f (Suc n))"

section \<open>Lemmas on words and bytes\<close>

lemma unat_u8_less: "unat (x :: u8) < 256"
  using unsigned_less [of x] by simp

lemma unat_u16_less: "unat (x :: u16) < 65536"
  using unsigned_less [of x] by simp

lemma unat_u32_less: "unat (x :: u32) < 4294967296"
  using unsigned_less [of x] by simp

lemma unat_drop_bit_div: "unat (drop_bit k (v :: 'a::len word)) = unat v div 2 ^ k"
  unfolding unat_drop_bit_eq by (rule drop_bit_eq_div)

lemma unat_take_bit_mod: "unat (take_bit k (v :: 'a::len word)) = unat v mod 2 ^ k"
  unfolding unsigned_take_bit_eq by (rule take_bit_eq_mod)

lemma unat_push_bit_mod:
  "unat (push_bit k (v :: 'a::len word)) = unat v * 2 ^ k mod 2 ^ LENGTH('a)"
  unfolding unsigned_push_bit_eq by (simp add: push_bit_eq_mult take_bit_eq_mod)

lemma unat_mk [simp]:
  "unat (mk8 n) = n mod 256" "unat (mk16 n) = n mod 65536" "unat (mk32 n) = n mod 4294967296"
  by (simp_all add: mk8_def mk16_def mk32_def unat_of_nat)

lemma mk_unat [simp]: "mk8 (unat a) = a" "mk16 (unat b) = b" "mk32 (unat c) = c"
  by (simp_all add: mk8_def mk16_def mk32_def)

lemma mk_numeral [simp]:
  "mk8 0 = 0" "mk8 1 = 1" "mk8 (Suc 0) = 1" "mk8 (numeral k) = numeral k"
  "mk16 0 = 0" "mk16 1 = 1" "mk16 (Suc 0) = 1" "mk16 (numeral k) = numeral k"
  "mk32 0 = 0" "mk32 1 = 1" "mk32 (Suc 0) = 1" "mk32 (numeral k) = numeral k"
  by (simp_all add: mk8_def mk16_def mk32_def)

lemma mk16_eqI: "unat w = n mod 65536 \<Longrightarrow> w = mk16 n"
  by (simp add: word_unat_eq_iff)

lemma mk32_eqI: "unat w = n mod 4294967296 \<Longrightarrow> w = mk32 n"
  by (simp add: word_unat_eq_iff)

lemma mk_add: "mk16 a + mk16 b = mk16 (a + b)" "mk32 c + mk32 d = mk32 (c + d)"
  by (simp_all add: mk16_def mk32_def)

lemma length_store [simp]: "length (store16 h w) = 2" "length (store32 h v) = 4"
  by (cases h, simp_all)+

lemma byte_digit:
  fixes m :: nat
  shows "(unat (a :: u8) + 256 * m) mod 256 = unat a" "(unat (a :: u8) + 256 * m) div 256 = m"
  using unat_u8_less [of a] by simp_all

lemma mk8_digit: "mk8 (unat a + 256 * m) = a"
  by (simp only: word_unat_eq_iff unat_mk byte_digit)

lemma unat_load16 [byte_simps]:
  "unat (load16 Little a b) = unat a + 256 * unat b"
  "unat (load16 Big a b) = unat b + 256 * unat a"
  using unat_u8_less [of a] unat_u8_less [of b] by simp_all

lemma unat_load32 [byte_simps]:
  "unat (load32 Little a b c d) = unat a + 256 * (unat b + 256 * (unat c + 256 * unat d))"
  "unat (load32 Big a b c d) = unat d + 256 * (unat c + 256 * (unat b + 256 * unat a))"
  using unat_u8_less [of a] unat_u8_less [of b] unat_u8_less [of c] unat_u8_less [of d]
  by simp_all

lemma store16_load16 [byte_simps]: "store16 h (load16 h a b) = [a, b]"
  by (cases h) (simp_all add: unat_load16 byte_digit mk8_digit del: load16.simps)

lemma store32_load32 [byte_simps]: "store32 h (load32 h a b c d) = [a, b, c, d]"
  by (cases h) (simp_all only: store32.simps unat_load32 byte_digit mk8_digit mk_unat)

lemma horner256: "n mod 256 + 256 * (n div 256) = (n :: nat)"
  by simp

lemma load16_store16 [byte_simps]:
  "load16 h (store16 h w ! 0) (store16 h w ! Suc 0) = w"
  using unat_u16_less [of w] by (cases h) simp_all

lemma load32_store32 [byte_simps]:
  "load32 h (store32 h w ! 0) (store32 h w ! Suc 0) (store32 h w ! 2) (store32 h w ! 3) = w"
proof -
  have "unat w div 256 div 256 div 256 < 256"
    using unat_u32_less [of w] by (simp add: div_mult2_eq [symmetric])
  then have top: "unat w div 256 div 256 div 256 mod 256 = unat w div 256 div 256 div 256"
    by (rule mod_less)
  show ?thesis
    by (cases h) (simp_all only: store32.simps load32.simps nth_Cons_0 nth_Cons_Suc numeral_2_eq_2
        numeral_3_eq_3 unat_mk top horner256 mk_unat)
qed

section \<open>Lemmas on searches and buffers\<close>

lemma find_pos_None: "find_pos P xs = None \<longleftrightarrow> (\<forall>x \<in> set xs. \<not> P x)"
  by (induction xs) auto

lemma find_pos_Some_iff:
  "find_pos P xs = Some i \<longleftrightarrow> i < length xs \<and> P (xs ! i) \<and> (\<forall>j < i. \<not> P (xs ! j))"
proof (induction xs arbitrary: i)
  case (Cons x xs)
  show ?case
  proof (cases i)
    case 0
    then show ?thesis by auto
  next
    case (Suc k)
    then show ?thesis using Cons.IH [of k] by (auto simp: less_Suc_eq_0_disj nth_Cons')
  qed
qed simp

lemma find_pos_SomeD:
  assumes "find_pos P xs = Some i"
  shows "i < length xs" and "P (xs ! i)" and "xs ! i \<in> set xs"
  using assms by (auto simp: find_pos_Some_iff)

lemma find_pos_Some_ex: "x \<in> set xs \<Longrightarrow> P x \<Longrightarrow> \<exists>i. find_pos P xs = Some i"
  by (metis find_pos_None option.exhaust)

lemma set_list_update: "i < length xs \<Longrightarrow> set (xs[i := x]) \<subseteq> insert x (set xs)"
  by (rule set_update_subset_insert)

lemma rd_bytes_append [simp]: "n = length xs \<Longrightarrow> rd_bytes (xs @ ys) 0 n = Some xs"
  by (simp add: rd_bytes_def)

lemma rd_bytes_all [simp]: "rd_bytes xs 0 (length xs) = Some xs"
  by (simp add: rd_bytes_def)

lemma length_rd_bytes: "rd_bytes bs off n = Some xs \<Longrightarrow> length xs = n"
  by (auto simp: rd_bytes_def split: if_splits)

lemma length_wr_bytes: "wr_bytes bs off new = Some bs' \<Longrightarrow> length bs' = length bs"
  by (auto simp: wr_bytes_def split: if_splits)

lemma bind_Some_iff: "Option.bind m f = Some y \<longleftrightarrow> (\<exists>x. m = Some x \<and> f x = Some y)"
  by (cases m) auto

lemma wr_bytes_append [byte_simps]:
  "length xs = off \<Longrightarrow> length new \<le> length ys \<Longrightarrow>
   wr_bytes (xs @ ys) off new = Some (xs @ new @ drop (length new) ys)"
  by (simp add: wr_bytes_def)

lemma wr_bytes_0 [byte_simps]:
  "length new \<le> length ys \<Longrightarrow> wr_bytes ys 0 new = Some (new @ drop (length new) ys)"
  by (simp add: wr_bytes_def)

text \<open>Reads that start beyond a prefix of the buffer, and reads of what was stored there.\<close>

lemma rd_skip [byte_simps]:
  "length xs \<le> i \<Longrightarrow> rd8 (xs @ ys) i = rd8 ys (i - length xs)"
  "length xs \<le> i \<Longrightarrow> rd16 h (xs @ ys) i = rd16 h ys (i - length xs)"
  "length xs \<le> i \<Longrightarrow> rd32 h (xs @ ys) i = rd32 h ys (i - length xs)"
  "length xs \<le> i \<Longrightarrow> rd_bytes (xs @ ys) i n = rd_bytes ys (i - length xs) n"
  by (auto simp: rd8_def rd16_def rd32_def rd_bytes_def nth_append Suc_diff_le)

lemma rd_skip_Cons [byte_simps]:
  "rd8 (x # xs) (numeral k) = rd8 xs (pred_numeral k)"
  "rd16 h (x # xs) (numeral k) = rd16 h xs (pred_numeral k)"
  "rd32 h (x # xs) (numeral k) = rd32 h xs (pred_numeral k)"
  "rd_bytes (x # xs) (numeral k) n = rd_bytes xs (pred_numeral k) n"
  "rd8 (x # xs) (Suc i) = rd8 xs i"
  "rd16 h (x # xs) (Suc i) = rd16 h xs i"
  "rd32 h (x # xs) (Suc i) = rd32 h xs i"
  "rd_bytes (x # xs) (Suc i) n = rd_bytes xs i n"
  by (simp_all add: rd8_def rd16_def rd32_def rd_bytes_def numeral_eq_Suc)

lemma rd_here [byte_simps]:
  "rd8 (x # xs) 0 = Some x"
  "rd16 h (store16 h w @ xs) 0 = Some w"
  "rd16 h (store16 h w) 0 = Some w"
  "rd32 h (store32 h v @ xs) 0 = Some v"
  "rd32 h (store32 h v) 0 = Some v"
  using load16_store16 [of h w] load32_store32 [of h v]
  by (cases h; simp add: rd8_def rd16_def rd32_def)+

lemma rd_Some:
  "i < length bs \<Longrightarrow> rd8 bs i = Some (bs ! i)"
  "i + 2 \<le> length bs \<Longrightarrow> \<exists>w. rd16 h bs i = Some w"
  "i + 4 \<le> length bs \<Longrightarrow> \<exists>v. rd32 h bs i = Some v"
  by (simp_all add: rd8_def rd16_def rd32_def)

text \<open>From here on buffers are seen through the lemmas above, not byte by byte.\<close>

lemmas mem_eval = store16.simps store32.simps load16.simps load32.simps

declare mem_eval [simp del]

end
