(* ===== verification/Libc.thy ===== *)
theory Libc
  imports Prelude
begin

text \<open>
  What the sources use of the C library: \<^verbatim>\<open>strtol\<close> in bases 10 and 16, the \<^verbatim>\<open>%d\<close> and \<^verbatim>\<open>%02x\<close>
  conversions of \<^verbatim>\<open>snprintf\<close>, \<^verbatim>\<open>strrchr\<close>, and the \<^verbatim>\<open>timeval\<close> macros of \<^verbatim>\<open>sys/time.h\<close>, with the
  macros \<^verbatim>\<open>timeval_add_usec\<close> and \<^verbatim>\<open>timespec_add_nsec\<close> of \<^verbatim>\<open>util.h\<close>. A C string is the list of its
  characters without the terminating null.
\<close>

section \<open>Numbers in text\<close>

definition is_space :: "char \<Rightarrow> bool" where
  "is_space c \<longleftrightarrow> c = CHR '' '' \<or> (9 \<le> (of_char c :: nat) \<and> (of_char c :: nat) \<le> 13)"

text \<open>The value of a digit; letters beyond the hexadecimal ones are digits of no base in use.\<close>

definition digit_val :: "char \<Rightarrow> nat option" where
  "digit_val c =
     (let n = of_char c in
      if 48 \<le> n \<and> n \<le> 57 then Some (n - 48)
      else if 97 \<le> n \<and> n \<le> 102 then Some (n - 87)
      else if 65 \<le> n \<and> n \<le> 70 then Some (n - 55)
      else None)"

definition is_digit :: "nat \<Rightarrow> char \<Rightarrow> bool" where
  "is_digit base c = (case digit_val c of None \<Rightarrow> False | Some v \<Rightarrow> v < base)"

definition digits_val :: "nat \<Rightarrow> string \<Rightarrow> nat" where
  "digits_val base ds = foldl (\<lambda>acc c. acc * base + (case digit_val c of None \<Rightarrow> 0 | Some v \<Rightarrow> v)) 0 ds"

definition LONG_MAX :: int where
  "LONG_MAX = 9223372036854775807"

definition skip_0x :: "nat \<Rightarrow> string \<Rightarrow> string" where
  "skip_0x base s =
     (case s of
        z # x # d # _ \<Rightarrow>
          if base = 16 \<and> z = CHR ''0'' \<and> (x = CHR ''x'' \<or> x = CHR ''X'') \<and> is_digit 16 d
          then drop 2 s else s
      | _ \<Rightarrow> s)"

text \<open>
  \<^verbatim>\<open>strtol(s, &ep, base)\<close>: the value and the rest of the text from \<^verbatim>\<open>ep\<close> on. Without digits the rest
  is the whole text (\<^verbatim>\<open>ep == s\<close>); values out of range are clamped.
\<close>

definition strtol :: "nat \<Rightarrow> string \<Rightarrow> int \<times> string" where
  "strtol base s =
     (let s1 = dropWhile is_space s;
          neg = (case s1 of c # _ \<Rightarrow> c = CHR ''-'' | [] \<Rightarrow> False);
          s2 = (case s1 of c # cs \<Rightarrow> if c = CHR ''-'' \<or> c = CHR ''+'' then cs else s1 | [] \<Rightarrow> []);
          s3 = skip_0x base s2;
          ds = takeWhile (is_digit base) s3;
          v = (if neg then - int (digits_val base ds) else int (digits_val base ds))
      in if ds = [] then (0, s)
         else (max (- LONG_MAX - 1) (min LONG_MAX v), dropWhile (is_digit base) s3))"

definition digit_char :: "nat \<Rightarrow> char" where
  "digit_char n = ''0123456789abcdef'' ! n"

text \<open>\<^verbatim>\<open>%d\<close> of a value that is not negative and \<^verbatim>\<open>%02x\<close> of a byte.\<close>

fun fmt_d :: "nat \<Rightarrow> string" where
  "fmt_d n = (if n < 10 then [digit_char n] else fmt_d (n div 10) @ [digit_char (n mod 10)])"

declare fmt_d.simps [simp del]

definition fmt_02x :: "u8 \<Rightarrow> string" where
  "fmt_02x b = [digit_char (unat b div 16), digit_char (unat b mod 16)]"

text \<open>\<^verbatim>\<open>strrchr(s, c)\<close>: the text before and after the last occurrence of a character.\<close>

definition strrchr :: "string \<Rightarrow> char \<Rightarrow> (string \<times> string) option" where
  "strrchr s c =
     (if c \<in> set s
      then Some (rev (tl (dropWhile (\<lambda>x. x \<noteq> c) (rev s))), rev (takeWhile (\<lambda>x. x \<noteq> c) (rev s)))
      else None)"

text \<open>A signed value converted to \<^verbatim>\<open>size_t\<close>: negative ones wrap around.\<close>

definition size_of_int :: "int \<Rightarrow> nat" where
  "size_of_int i = nat (i mod 2 ^ 64)"

section \<open>Times\<close>

record timeval =
  tv_sec :: int
  tv_usec :: int

definition timersub :: "timeval \<Rightarrow> timeval \<Rightarrow> timeval" where
  "timersub a b =
     (let r = \<lparr>tv_sec = tv_sec a - tv_sec b, tv_usec = tv_usec a - tv_usec b\<rparr>
      in if tv_usec r < 0 then \<lparr>tv_sec = tv_sec r - 1, tv_usec = tv_usec r + 1000000\<rparr> else r)"

definition timercmp_less :: "timeval \<Rightarrow> timeval \<Rightarrow> bool" where
  "timercmp_less a b =
     (if tv_sec a = tv_sec b then tv_usec a < tv_usec b else tv_sec a < tv_sec b)"

definition timerclear :: timeval where
  "timerclear = \<lparr>tv_sec = 0, tv_usec = 0\<rparr>"

definition timeval_add_usec :: "timeval \<Rightarrow> nat \<Rightarrow> timeval" where
  "timeval_add_usec x y =
     (let sec = tv_sec x + int (y div 1000000); usec = tv_usec x + int (y mod 1000000)
      in if usec \<ge> 1000000 then \<lparr>tv_sec = sec + 1, tv_usec = usec - 1000000\<rparr>
         else \<lparr>tv_sec = sec, tv_usec = usec\<rparr>)"

record timespec =
  ts_sec :: int
  ts_nsec :: int

definition timespec_add_nsec :: "timespec \<Rightarrow> nat \<Rightarrow> timespec" where
  "timespec_add_nsec x y =
     (let sec = ts_sec x + int (y div 1000000000); nsec = ts_nsec x + int (y mod 1000000000)
      in if nsec \<ge> 1000000000 then \<lparr>ts_sec = sec + 1, ts_nsec = nsec - 1000000000\<rparr>
         else \<lparr>ts_sec = sec, ts_nsec = nsec\<rparr>)"

text \<open>A time in microseconds, and the times the system delivers.\<close>

definition usecs :: "timeval \<Rightarrow> int" where
  "usecs t = tv_sec t * 1000000 + tv_usec t"

definition tv_ok :: "timeval \<Rightarrow> bool" where
  "tv_ok t \<longleftrightarrow> 0 \<le> tv_usec t \<and> tv_usec t < 1000000"

section \<open>Lemmas on numbers in text\<close>

lemma less_16_cases:
  "n < (16 :: nat) \<Longrightarrow> n \<in> {0, 1, 2, 3, 4, 5, 6, 7, 8, 9, 10, 11, 12, 13, 14, 15}"
  by (simp only: insert_iff empty_iff) presburger

lemma digit_val_char: "n < 16 \<Longrightarrow> digit_val (digit_char n) = Some n"
  by (drule less_16_cases) (auto simp: digit_val_def digit_char_def Let_def)

lemma digit_char_no_space: "n < 16 \<Longrightarrow> \<not> is_space (digit_char n)"
  by (drule less_16_cases) (auto simp: is_space_def digit_char_def)

lemma digit_char_neq:
  "n < 16 \<Longrightarrow> digit_char n \<noteq> CHR ''-'' \<and> digit_char n \<noteq> CHR ''+'' \<and> digit_char n \<noteq> CHR ''x'' \<and>
     digit_char n \<noteq> CHR ''X'' \<and> digit_char n \<noteq> CHR ''.'' \<and> digit_char n \<noteq> CHR '':''"
  by (drule less_16_cases) (auto simp: digit_char_def)

lemma is_digit_char: "n < base \<Longrightarrow> base \<le> 16 \<Longrightarrow> is_digit base (digit_char n)"
  by (simp add: is_digit_def digit_val_char)

lemma not_digit_sep [simp]: "\<not> is_digit base CHR ''.''" "\<not> is_digit base CHR '':''"
  by (simp_all add: is_digit_def digit_val_def)

text \<open>The printed decimal digits, and their value.\<close>

definition decimal :: "string \<Rightarrow> bool" where
  "decimal s \<longleftrightarrow> s \<noteq> [] \<and> set s \<subseteq> digit_char ` {..<10}"

lemma decimal_fmt_d: "decimal (fmt_d n)"
proof (induction n rule: fmt_d.induct)
  case (1 n)
  show ?case
  proof (cases "n < 10")
    case True
    then show ?thesis by (subst fmt_d.simps) (auto simp: decimal_def)
  next
    case False
    then have "n mod 10 < 10" by simp
    with 1 [OF False] False show ?thesis
      by (subst fmt_d.simps) (auto simp: decimal_def)
  qed
qed

lemma digits_val_snoc:
  "n < 16 \<Longrightarrow> digits_val base (ds @ [digit_char n]) = digits_val base ds * base + n"
  by (simp add: digits_val_def digit_val_char)

lemma digits_val_fmt_d: "digits_val 10 (fmt_d n) = n"
proof (induction n rule: fmt_d.induct)
  case (1 n)
  show ?case
  proof (cases "n < 10")
    case True
    then show ?thesis
      using digits_val_snoc [of n 10 "[]"] by (subst fmt_d.simps) (simp add: digits_val_def)
  next
    case False
    with 1 show ?thesis
      by (subst fmt_d.simps) (simp add: digits_val_snoc)
  qed
qed

lemma skip_0x_10 [simp]: "skip_0x 10 s = s"
  by (auto simp: skip_0x_def split: list.splits)

text \<open>Text that starts with a digit has no space or sign to skip.\<close>

lemma strtol_digits:
  assumes "ds \<noteq> []" and "set ds \<subseteq> digit_char ` {..<base}" and "base \<le> 16"
    and "rest = [] \<or> \<not> is_digit base (hd rest)" and "int (digits_val base ds) \<le> LONG_MAX"
    and "skip_0x base (ds @ rest) = ds @ rest"
  shows "strtol base (ds @ rest) = (int (digits_val base ds), rest)"
proof -
  obtain n ds' where n: "ds = digit_char n # ds'" "n < base"
    using assms(1,2) by (cases ds) auto
  then have "n < 16" using assms(3) by simp
  have all: "\<forall>c \<in> set ds. is_digit base c"
    using assms(2,3) by (auto simp: is_digit_char)
  have tw: "takeWhile (is_digit base) (ds @ rest) = ds"
    using all assms(4) by (cases rest) (auto simp: takeWhile_append2)
  have dw: "dropWhile (is_digit base) (ds @ rest) = rest"
    using all assms(4) by (cases rest) (auto simp: dropWhile_append2)
  have "dropWhile is_space (ds @ rest) = ds @ rest"
    using n digit_char_no_space [OF \<open>n < 16\<close>] by simp
  then show ?thesis
    using n(1) digit_char_neq [OF \<open>n < 16\<close>] assms(1,5,6) tw dw
    by (simp add: strtol_def LONG_MAX_def Let_def)
qed

lemma strtol_fmt_d:
  assumes "rest = [] \<or> \<not> is_digit 10 (hd rest)" and "int n \<le> LONG_MAX"
  shows "strtol 10 (fmt_d n @ rest) = (int n, rest)"
  using strtol_digits [of "fmt_d n" 10 rest] decimal_fmt_d [of n] assms
  by (simp add: decimal_def digits_val_fmt_d)

lemma strtol_fmt_02x:
  assumes "rest = [] \<or> \<not> is_digit 16 (hd rest)"
  shows "strtol 16 (fmt_02x b @ rest) = (int (unat b), rest)"
proof -
  have d: "unat b div 16 < 16" "unat b mod 16 < 16"
    using unat_u8_less [of b] by auto
  then have v: "digits_val 16 (fmt_02x b) = unat b"
    by (simp add: fmt_02x_def digits_val_def digit_val_char)
  have "skip_0x 16 (fmt_02x b @ rest) = fmt_02x b @ rest"
    using digit_char_neq [OF d(2)] by (auto simp: skip_0x_def fmt_02x_def split: list.splits)
  moreover have "int (digits_val 16 (fmt_02x b)) \<le> LONG_MAX"
    unfolding v LONG_MAX_def using unat_u8_less [of b] by linarith
  ultimately have "strtol 16 (fmt_02x b @ rest) = (int (digits_val 16 (fmt_02x b)), rest)"
    using d assms by (intro strtol_digits) (auto simp: fmt_02x_def)
  then show ?thesis by (simp only: v)
qed

lemma length_fmt_d_step: "n < 10 * m \<Longrightarrow> \<forall>k < m. length (fmt_d k) \<le> l \<Longrightarrow> 1 \<le> l \<Longrightarrow> length (fmt_d n) \<le> Suc l"
  by (subst fmt_d.simps) (simp add: less_mult_imp_div_less mult.commute)

lemma length_fmt_d: "n < 10 ^ k \<Longrightarrow> 0 < k \<Longrightarrow> length (fmt_d n) \<le> k"
proof (induction k arbitrary: n)
  case (Suc k)
  show ?case
  proof (cases k)
    case 0
    with Suc.prems show ?thesis by (subst fmt_d.simps) simp
  next
    case (Suc j)
    with Suc.prems Suc.IH show ?thesis
      by (intro length_fmt_d_step [of n "10 ^ k"]) auto
  qed
qed simp

section \<open>Lemmas on times\<close>

lemma usecs_timersub: "usecs (timersub a b) = usecs a - usecs b"
  by (simp add: timersub_def usecs_def Let_def)

lemma tv_ok_timersub: "tv_ok a \<Longrightarrow> tv_ok b \<Longrightarrow> tv_ok (timersub a b)"
  by (auto simp: timersub_def tv_ok_def Let_def)

lemma timercmp_less_usecs: "tv_ok a \<Longrightarrow> tv_ok b \<Longrightarrow> timercmp_less a b \<longleftrightarrow> usecs a < usecs b"
  by (auto simp: timercmp_less_def tv_ok_def usecs_def)

lemma usecs_add: "usecs (timeval_add_usec x y) = usecs x + int y"
proof -
  have "int (y div 1000000) * 1000000 + int (y mod 1000000) = int y"
    by (metis div_mult_mod_eq of_nat_add of_nat_mult of_nat_numeral)
  then show ?thesis
    by (simp add: timeval_add_usec_def usecs_def Let_def algebra_simps)
qed

lemma tv_ok_add: "tv_ok x \<Longrightarrow> tv_ok (timeval_add_usec x y)"
proof -
  have "y mod 1000000 < 1000000" by simp
  then show "tv_ok x \<Longrightarrow> tv_ok (timeval_add_usec x y)"
    by (auto simp: timeval_add_usec_def tv_ok_def Let_def)
qed

end
