(* ===== verification/Queue.thy ===== *)
theory Queue
  imports Prelude
begin

text \<open>
  The queue of \<^verbatim>\<open>util.c\<close>, twice. First as the code has it: entries in a heap, linked through their
  \<^verbatim>\<open>next\<close> pointers, and a head with \<^verbatim>\<open>head\<close>, \<^verbatim>\<open>tail\<close> and \<^verbatim>\<open>num\<close>. Then as a list, the form in which the
  other components use it. The locale \<open>fifo\<close> is the contract of a queue; both forms satisfy it,
  and every sequence of operations gives the same results on both.
\<close>

section \<open>Queues on the heap\<close>

text \<open>
  A pointer is a number, 0 is the null pointer; a heap maps the allocated addresses to entries,
  and following a pointer to an address that is not allocated is undefined. The data pointers
  are values of a type \<^typ>\<open>'a\<close>: the program never queues a null pointer.
\<close>

type_synonym ptr = nat

record 'a queue_entry =
  qnext :: ptr
  qdata :: 'a

type_synonym 'a heap = "ptr \<Rightarrow> 'a queue_entry option"

record queue_head =
  head :: ptr
  tail :: ptr
  num :: u32

definition queue_init :: queue_head where
  "queue_init = \<lparr>head = 0, tail = 0, num = 0\<rparr>"

text \<open>
  \<^verbatim>\<open>queue_push\<close> with the pointer that \<^verbatim>\<open>memory_alloc\<close> returned (0 when it failed) as an argument.
  The queue argument is \<^term>\<open>None\<close> for a null pointer.
\<close>

definition queue_push ::
  "ptr \<Rightarrow> queue_head option \<Rightarrow> 'a \<Rightarrow> 'a heap \<Rightarrow> ('a option \<times> queue_head option \<times> 'a heap) option" where
  "queue_push entry queue data hp =
     (case queue of
        None \<Rightarrow> Some (None, queue, hp)
      | Some q \<Rightarrow>
          if entry = 0 then Some (None, queue, hp)
          else do {
            let hp = hp(entry \<mapsto> \<lparr>qnext = 0, qdata = data\<rparr>);
            hp \<leftarrow> (if tail q \<noteq> 0
                   then do { t \<leftarrow> hp (tail q); Some (hp(tail q \<mapsto> t\<lparr>qnext := entry\<rparr>)) }
                   else Some hp);
            let q = q\<lparr>tail := entry\<rparr>;
            let q = (if head q = 0 then q\<lparr>head := entry\<rparr> else q);
            let q = q\<lparr>num := num q + 1\<rparr>;
            Some (Some data, Some q, hp)
          })"

definition queue_pop ::
  "queue_head option \<Rightarrow> 'a heap \<Rightarrow> ('a option \<times> queue_head option \<times> 'a heap) option" where
  "queue_pop queue hp =
     (case queue of
        None \<Rightarrow> Some (None, queue, hp)
      | Some q \<Rightarrow>
          if head q = 0 then Some (None, queue, hp)
          else do {
            let entry = head q;
            e \<leftarrow> hp entry;
            let q = q\<lparr>head := qnext e\<rparr>;
            let q = (if head q = 0 then q\<lparr>tail := 0\<rparr> else q);
            let q = q\<lparr>num := num q - 1\<rparr>;
            Some (Some (qdata e), Some q, hp(entry := None))
          })"

definition queue_peek :: "queue_head option \<Rightarrow> 'a heap \<Rightarrow> 'a option option" where
  "queue_peek queue hp =
     (case queue of
        None \<Rightarrow> Some None
      | Some q \<Rightarrow> if head q = 0 then Some None else do { e \<leftarrow> hp (head q); Some (Some (qdata e)) })"

text \<open>
  \<^verbatim>\<open>queue_foreach\<close> calls a function on every entry. The function may change the entry's data and a
  state of its own; the loop follows the \<^verbatim>\<open>next\<close> pointers and need not end on a cyclic list.
\<close>

partial_function (option) foreach_loop ::
  "('a \<Rightarrow> 's \<Rightarrow> 'a \<times> 's) \<Rightarrow> ptr \<Rightarrow> 'a heap \<Rightarrow> 's \<Rightarrow> ('a heap \<times> 's) option" where
  "foreach_loop func entry hp s =
     (if entry = 0 then Some (hp, s)
      else (case hp entry of
              None \<Rightarrow> None
            | Some e \<Rightarrow>
                foreach_loop func (qnext e) (hp(entry \<mapsto> e\<lparr>qdata := fst (func (qdata e) s)\<rparr>))
                  (snd (func (qdata e) s))))"

definition queue_foreach ::
  "queue_head option \<Rightarrow> ('a \<Rightarrow> 's \<Rightarrow> 'a \<times> 's) option \<Rightarrow> 'a heap \<Rightarrow> 's \<Rightarrow> ('a heap \<times> 's) option" where
  "queue_foreach queue func hp s =
     (case (queue, func) of
        (Some q, Some f) \<Rightarrow> foreach_loop f (head q) hp s
      | _ \<Rightarrow> Some (hp, s))"

section \<open>Queues as lists\<close>

text \<open>The flag says whether the allocation of the entry succeeded.\<close>

definition qpush :: "bool \<Rightarrow> 'a list \<Rightarrow> 'a \<Rightarrow> 'a option \<times> 'a list" where
  "qpush alloc q data = (if alloc then (Some data, q @ [data]) else (None, q))"

fun qpop :: "'a list \<Rightarrow> 'a option \<times> 'a list" where
  "qpop [] = (None, [])"
| "qpop (x # q) = (Some x, q)"

fun qpeek :: "'a list \<Rightarrow> 'a option" where
  "qpeek [] = None"
| "qpeek (x # q) = Some x"

fun qforeach :: "('a \<Rightarrow> 's \<Rightarrow> 'a \<times> 's) \<Rightarrow> 'a list \<Rightarrow> 's \<Rightarrow> 'a list \<times> 's" where
  "qforeach f [] s = ([], s)"
| "qforeach f (x # q) s =
     (let (x', s') = f x s; (q', s'') = qforeach f q s' in (x' # q', s''))"

text \<open>\<^verbatim>\<open>queue.num\<close>, an \<^verbatim>\<open>unsigned int\<close>.\<close>

definition qnum :: "'a list \<Rightarrow> u32" where
  "qnum q = mk32 (length q)"

section \<open>The heap form represents a list\<close>

fun chain :: "'a heap \<Rightarrow> ptr \<Rightarrow> (ptr \<times> 'a) list \<Rightarrow> bool" where
  "chain hp p [] = (p = 0)"
| "chain hp p ((a, d) # xs) =
     (p = a \<and> a \<noteq> 0 \<and>
      (case hp a of None \<Rightarrow> False | Some e \<Rightarrow> qdata e = d \<and> chain hp (qnext e) xs))"

definition queue_rep :: "'a heap \<Rightarrow> queue_head \<Rightarrow> (ptr \<times> 'a) list \<Rightarrow> bool" where
  "queue_rep hp q xs \<longleftrightarrow>
     chain hp (head q) xs \<and> distinct (map fst xs) \<and>
     tail q = (if xs = [] then 0 else fst (last xs)) \<and> num q = mk32 (length xs)"

lemma chain_null [simp]: "chain hp 0 xs \<longleftrightarrow> xs = []"
  by (cases xs) auto

lemma chain_upd [simp]: "a \<notin> fst ` set xs \<Longrightarrow> chain (hp(a := v)) p xs = chain hp p xs"
  by (induction xs arbitrary: p) (auto split: option.splits)

lemma chain_allocated: "chain hp p xs \<Longrightarrow> a \<in> fst ` set xs \<Longrightarrow> hp a \<noteq> None \<and> a \<noteq> 0"
proof (induction xs arbitrary: p)
  case (Cons bd xs)
  then show ?case by (cases bd) (auto split: option.splits)
qed simp

text \<open>Linking a new last entry behind the old one.\<close>

lemma chain_snoc:
  assumes "chain hp p (xs @ [(b, d)])" and "distinct (map fst (xs @ [(b, d)]))"
    and "n \<noteq> 0" and "n \<notin> fst ` set (xs @ [(b, d)])"
    and "hp n = Some \<lparr>qnext = 0, qdata = x\<rparr>" and "hp b = Some e"
  shows "chain (hp(b \<mapsto> e\<lparr>qnext := n\<rparr>)) p (xs @ [(b, d), (n, x)])"
  using assms
proof (induction xs arbitrary: p)
  case Nil
  then show ?case by auto
next
  case (Cons ad xs)
  obtain a d' where [simp]: "ad = (a, d')" by (cases ad)
  from Cons.prems show ?case
    using Cons.IH by (auto split: option.splits)
qed

lemma queue_rep_init: "queue_rep hp queue_init []"
  by (simp add: queue_rep_def queue_init_def)

lemma queue_push_fail: "queue_push 0 queue d hp = Some (None, queue, hp)"
  by (cases queue) (simp_all add: queue_push_def)

lemma queue_push_rep:
  assumes "queue_rep hp q xs" and "p \<noteq> 0" and "hp p = None"
  shows "\<exists>q' hp'. queue_push p (Some q) d hp = Some (Some d, Some q', hp') \<and>
    queue_rep hp' q' (xs @ [(p, d)]) \<and> (\<forall>a. a \<noteq> p \<longrightarrow> a \<notin> fst ` set xs \<longrightarrow> hp' a = hp a)"
proof (cases xs rule: rev_cases)
  case Nil
  with assms show ?thesis
    by (auto simp: queue_push_def queue_rep_def mk32_def)
next
  case (snoc ys bd)
  obtain b d' where bd [simp]: "bd = (b, d')" by (cases bd)
  from assms(1) snoc have ch: "chain hp (head q) (ys @ [(b, d')])"
    and dist: "distinct (map fst (ys @ [(b, d')]))" and tl: "tail q = b"
    by (auto simp: queue_rep_def)
  have b: "hp b \<noteq> None" "b \<noteq> 0"
    using chain_allocated [OF ch, of b] by simp_all
  have p: "p \<notin> fst ` set (ys @ [(b, d')])"
    using chain_allocated [OF ch, of p] assms(3) by blast
  from b obtain e where e: "hp b = Some e" by auto
  from p have "p \<noteq> b" by auto
  let ?hp = "hp(p \<mapsto> \<lparr>qnext = 0, qdata = d\<rparr>)"
  have "chain ?hp (head q) (ys @ [(b, d')])"
    using ch p by simp
  from chain_snoc [OF this dist assms(2) p, of d e]
  have "chain (?hp(b \<mapsto> e\<lparr>qnext := p\<rparr>)) (head q) (ys @ [(b, d'), (p, d)])"
    using e \<open>p \<noteq> b\<close> by simp
  moreover have "head q \<noteq> 0"
    using ch by (cases ys) auto
  ultimately show ?thesis
    using assms(1,2) snoc b e \<open>p \<noteq> b\<close> dist p tl
    by (auto simp: queue_push_def queue_rep_def mk32_def)
qed

lemma queue_pop_empty: "queue_rep hp q [] \<Longrightarrow> queue_pop (Some q) hp = Some (None, Some q, hp)"
  by (simp add: queue_pop_def queue_rep_def)

lemma queue_pop_rep:
  assumes "queue_rep hp q ((a, d) # xs)"
  shows "\<exists>q'. queue_pop (Some q) hp = Some (Some d, Some q', hp(a := None)) \<and>
    queue_rep (hp(a := None)) q' xs"
proof -
  from assms have "head q = a" "a \<noteq> 0" "a \<notin> fst ` set xs" "num q = 1 + mk32 (length xs)"
    by (auto simp: queue_rep_def mk32_def)
  moreover from assms obtain e where "hp a = Some e" "qdata e = d" "chain hp (qnext e) xs"
    by (auto simp: queue_rep_def split: option.splits)
  moreover have "qnext e = 0 \<longleftrightarrow> xs = []"
    using \<open>chain hp (qnext e) xs\<close> by (cases xs) auto
  ultimately show ?thesis
    using assms by (auto simp: queue_pop_def queue_rep_def mk32_def split: if_splits)
qed

lemma queue_peek_rep:
  "queue_rep hp q xs \<Longrightarrow> queue_peek (Some q) hp = Some (qpeek (map snd xs))"
  by (cases xs) (auto simp: queue_peek_def queue_rep_def split: option.splits)

lemma foreach_loop_rep:
  assumes "chain hp p xs" and "distinct (map fst xs)"
  shows "\<exists>hp'. foreach_loop f p hp s = Some (hp', snd (qforeach f (map snd xs) s)) \<and>
    chain hp' p (zip (map fst xs) (fst (qforeach f (map snd xs) s))) \<and>
    (\<forall>a. a \<notin> fst ` set xs \<longrightarrow> hp' a = hp a)"
  using assms
proof (induction xs arbitrary: p hp s)
  case Nil
  then show ?case by (simp add: foreach_loop.simps)
next
  case (Cons ad xs)
  obtain a d where [simp]: "ad = (a, d)" by (cases ad)
  from Cons.prems obtain e where e: "p = a" "a \<noteq> 0" "hp a = Some e" "qdata e = d"
    "chain hp (qnext e) xs" "a \<notin> fst ` set xs" "distinct (map fst xs)"
    by (auto split: option.splits)
  obtain d' s' where f: "f d s = (d', s')" by (cases "f d s")
  let ?hp = "hp(a \<mapsto> e\<lparr>qdata := d'\<rparr>)"
  have "chain ?hp (qnext e) xs"
    using e by simp
  from Cons.IH [OF this e(7)] obtain hp' where
    hp': "foreach_loop f (qnext e) ?hp s' = Some (hp', snd (qforeach f (map snd xs) s'))"
      "chain hp' (qnext e) (zip (map fst xs) (fst (qforeach f (map snd xs) s')))"
      "\<forall>b. b \<notin> fst ` set xs \<longrightarrow> hp' b = ?hp b"
    by blast
  moreover have "hp' a = Some (e\<lparr>qdata := d'\<rparr>)"
    using hp'(3) e(6) by simp
  ultimately show ?case
    using e f by (auto simp: foreach_loop.simps [of f a] split: prod.splits)
qed

lemma qforeach_length: "length (fst (qforeach f xs s)) = length xs"
  by (induction xs arbitrary: s) (auto simp: split_def Let_def)

section \<open>The contract of a queue\<close>

datatype ('al, 'a) queue_op = Push 'al 'a | Pop | Peek

text \<open>A sequence of operations on a queue, with what each returns.\<close>

fun run_queue ::
  "('al \<Rightarrow> 'q \<Rightarrow> 'a \<Rightarrow> ('a option \<times> 'q) option) \<Rightarrow> ('q \<Rightarrow> ('a option \<times> 'q) option) \<Rightarrow>
   ('q \<Rightarrow> 'a option option) \<Rightarrow> ('al, 'a) queue_op list \<Rightarrow> 'q \<Rightarrow> ('a option list \<times> 'q) option" where
  "run_queue push pop peek [] q = Some ([], q)"
| "run_queue push pop peek (Push al d # ops) q = do {
     (r, q) \<leftarrow> push al q d; (rs, q) \<leftarrow> run_queue push pop peek ops q; Some (r # rs, q) }"
| "run_queue push pop peek (Pop # ops) q = do {
     (r, q) \<leftarrow> pop q; (rs, q) \<leftarrow> run_queue push pop peek ops q; Some (r # rs, q) }"
| "run_queue push pop peek (Peek # ops) q = do {
     r \<leftarrow> peek q; (rs, q) \<leftarrow> run_queue push pop peek ops q; Some (r # rs, q) }"

fun run_list :: "('al \<Rightarrow> bool) \<Rightarrow> ('al, 'a) queue_op list \<Rightarrow> 'a list \<Rightarrow> 'a option list \<times> 'a list" where
  "run_list ok [] q = ([], q)"
| "run_list ok (Push al d # ops) q =
     (let (r, q) = qpush (ok al) q d; (rs, q) = run_list ok ops q in (r # rs, q))"
| "run_list ok (Pop # ops) q = (let (r, q) = qpop q; (rs, q) = run_list ok ops q in (r # rs, q))"
| "run_list ok (Peek # ops) q = (let (rs, q') = run_list ok ops q in (qpeek q # rs, q'))"

text \<open>Every allocation of the sequence is a valid one at the time it is made.\<close>

fun valid_run ::
  "('al \<Rightarrow> 'q \<Rightarrow> bool) \<Rightarrow> ('al \<Rightarrow> 'q \<Rightarrow> 'a \<Rightarrow> ('a option \<times> 'q) option) \<Rightarrow>
   ('q \<Rightarrow> ('a option \<times> 'q) option) \<Rightarrow> ('al, 'a) queue_op list \<Rightarrow> 'q \<Rightarrow> bool" where
  "valid_run valid push pop [] q = True"
| "valid_run valid push pop (Push al d # ops) q =
     (valid al q \<and> (case push al q d of Some (r, q) \<Rightarrow> valid_run valid push pop ops q | None \<Rightarrow> True))"
| "valid_run valid push pop (Pop # ops) q =
     (case pop q of Some (r, q) \<Rightarrow> valid_run valid push pop ops q | None \<Rightarrow> True)"
| "valid_run valid push pop (Peek # ops) q = valid_run valid push pop ops q"

locale fifo =
  fixes rep :: "'q \<Rightarrow> 'a list \<Rightarrow> bool"
    and valid :: "'al \<Rightarrow> 'q \<Rightarrow> bool"
    and ok :: "'al \<Rightarrow> bool"
    and init :: 'q
    and push :: "'al \<Rightarrow> 'q \<Rightarrow> 'a \<Rightarrow> ('a option \<times> 'q) option"
    and pop :: "'q \<Rightarrow> ('a option \<times> 'q) option"
    and peek :: "'q \<Rightarrow> 'a option option"
  assumes rep_init: "rep init []"
    and push_contract: "rep q xs \<Longrightarrow> valid al q \<Longrightarrow>
      \<exists>q'. push al q d = Some (fst (qpush (ok al) xs d), q') \<and> rep q' (snd (qpush (ok al) xs d))"
    and pop_contract: "rep q xs \<Longrightarrow> \<exists>q'. pop q = Some (fst (qpop xs), q') \<and> rep q' (snd (qpop xs))"
    and peek_contract: "rep q xs \<Longrightarrow> peek q = Some (qpeek xs)"
begin

lemma run_refines:
  "rep q xs \<Longrightarrow> valid_run valid push pop ops q \<Longrightarrow>
   \<exists>q'. run_queue push pop peek ops q = Some (fst (run_list ok ops xs), q') \<and>
     rep q' (snd (run_list ok ops xs))"
proof (induction ops arbitrary: q xs)
  case Nil
  then show ?case by simp
next
  case (Cons x ops)
  show ?case
  proof (cases x)
    case (Push al d)
    with Cons.prems obtain q' where q': "push al q d = Some (fst (qpush (ok al) xs d), q')"
      "rep q' (snd (qpush (ok al) xs d))"
      using push_contract [of q xs al d] by auto
    with Cons.IH [of q' "snd (qpush (ok al) xs d)"] Cons.prems Push show ?thesis
      by (auto simp: split_def Let_def)
  next
    case Pop
    from Cons.prems obtain q' where "pop q = Some (fst (qpop xs), q')" "rep q' (snd (qpop xs))"
      using pop_contract [of q xs] by auto
    with Cons.IH [of q' "snd (qpop xs)"] Cons.prems Pop show ?thesis
      by (auto simp: split_def Let_def)
  next
    case Peek
    with Cons.IH [of q xs] Cons.prems show ?thesis
      by (auto simp: split_def Let_def peek_contract)
  qed
qed

text \<open>From a queue that was just initialised.\<close>

lemma run_refines_init:
  "valid_run valid push pop ops init \<Longrightarrow>
   \<exists>q'. run_queue push pop peek ops init = Some (fst (run_list ok ops []), q') \<and>
     rep q' (snd (run_list ok ops []))"
  using run_refines [OF rep_init] .

end

interpretation listq: fifo "(=)" "\<lambda>al q. True" "\<lambda>al. al" "[]" "\<lambda>al q d. Some (qpush al q d)"
  "\<lambda>q. Some (qpop q)" "\<lambda>q. Some (qpeek q)"
  by unfold_locales auto

text \<open>
  The heap form: a state is the queue pointer and the heap; an allocation is valid when the
  allocator returned the null pointer or an address that is not in use.
\<close>

definition heap_rep :: "queue_head option \<times> 'a heap \<Rightarrow> 'a list \<Rightarrow> bool" where
  "heap_rep st xs \<longleftrightarrow>
     (\<exists>q as. fst st = Some q \<and> queue_rep (snd st) q as \<and> map snd as = xs)"

definition fresh_ptr :: "ptr \<Rightarrow> queue_head option \<times> 'a heap \<Rightarrow> bool" where
  "fresh_ptr p st \<longleftrightarrow> p = 0 \<or> snd st p = None"

lemma heap_rep_push:
  assumes "heap_rep st xs" and "fresh_ptr p st"
  shows "\<exists>st'. queue_push p (fst st) d (snd st) = Some (fst (qpush (p \<noteq> 0) xs d), st') \<and>
    heap_rep st' (snd (qpush (p \<noteq> 0) xs d))"
proof (cases "p = 0")
  case True
  with assms show ?thesis by (auto simp: queue_push_fail qpush_def heap_rep_def)
next
  case False
  obtain q as where q: "fst st = Some q" "queue_rep (snd st) q as" "map snd as = xs"
    using assms(1) by (auto simp: heap_rep_def)
  from False assms(2) have "snd st p = None" by (simp add: fresh_ptr_def)
  from queue_push_rep [OF q(2) False this, of d] q False show ?thesis
    by (fastforce simp: qpush_def heap_rep_def)
qed

lemma heap_rep_pop:
  assumes "heap_rep st xs"
  shows "\<exists>st'. queue_pop (fst st) (snd st) = Some (fst (qpop xs), st') \<and> heap_rep st' (snd (qpop xs))"
proof -
  obtain q as where q: "fst st = Some q" "queue_rep (snd st) q as" "map snd as = xs"
    using assms by (auto simp: heap_rep_def)
  show ?thesis
  proof (cases as)
    case Nil
    with q queue_pop_empty [of "snd st" q] show ?thesis by (fastforce simp: heap_rep_def)
  next
    case (Cons ad as')
    obtain a d where "ad = (a, d)" by (cases ad)
    with q Cons queue_pop_rep [of "snd st" q a d as'] show ?thesis by (fastforce simp: heap_rep_def)
  qed
qed

interpretation heapq: fifo heap_rep fresh_ptr "\<lambda>p. p \<noteq> 0" "(Some queue_init, Map.empty)"
  "\<lambda>p st d. queue_push p (fst st) d (snd st)" "\<lambda>st. queue_pop (fst st) (snd st)"
  "\<lambda>st. queue_peek (fst st) (snd st)"
proof
  show "heap_rep (Some queue_init, Map.empty) []"
    by (simp add: heap_rep_def queue_rep_init)
  show "queue_peek (fst q) (snd q) = Some (qpeek xs)" if "heap_rep q xs" for q :: "queue_head option \<times> 'a heap" and xs
    using that by (auto simp: heap_rep_def queue_peek_rep)
qed (erule (1) heap_rep_push, erule heap_rep_pop)

section \<open>Properties\<close>

text \<open>
  C24. The linked queue is a FIFO queue: whatever sequence of pushes, pops and peeks is run on a
  queue that \<^verbatim>\<open>queue_init\<close> set up, with the allocator free to fail at any push, no operation
  follows a dangling pointer, every operation returns what it returns on the list of the queued
  items, and at the end the heap still represents that list, with \<^verbatim>\<open>num\<close> its length.
\<close>

theorem queue_is_fifo:
  assumes "valid_run fresh_ptr (\<lambda>p st d. queue_push p (fst st) d (snd st))
     (\<lambda>st. queue_pop (fst st) (snd st)) ops (Some queue_init, Map.empty)"
  shows "\<exists>q hp as.
     run_queue (\<lambda>p st d. queue_push p (fst st) d (snd st)) (\<lambda>st. queue_pop (fst st) (snd st))
       (\<lambda>st. queue_peek (fst st) (snd st)) ops (Some queue_init, Map.empty) =
       Some (fst (run_list (\<lambda>p. p \<noteq> 0) ops []), Some q, hp) \<and>
     chain hp (head q) as \<and> map snd as = snd (run_list (\<lambda>p. p \<noteq> 0) ops []) \<and>
     num q = mk32 (length as)"
  using heapq.run_refines_init [OF assms] by (auto simp: heap_rep_def queue_rep_def)

theorem queue_is_fifo_witness:
  "\<exists>q hp as.
     run_queue (\<lambda>p st d. queue_push p (fst st) d (snd st)) (\<lambda>st. queue_pop (fst st) (snd st))
       (\<lambda>st. queue_peek (fst st) (snd st)) [Push 8 CHR ''a'', Push 0 CHR ''x'', Push 4 CHR ''b'', Pop, Peek]
       (Some queue_init, Map.empty) =
       Some ([Some CHR ''a'', None, Some CHR ''b'', Some CHR ''a'', Some CHR ''b''], Some q, hp) \<and>
     chain hp (head q) as \<and> map snd as = ''b'' \<and> num q = mk32 (length as)"
  using queue_is_fifo [of "[Push 8 CHR ''a'', Push 0 CHR ''x'', Push 4 CHR ''b'', Pop, Peek]"]
  by (simp add: queue_push_def queue_pop_def queue_init_def fresh_ptr_def qpush_def)

text \<open>
  \<^verbatim>\<open>queue_foreach\<close> returns on every queue that represents a list, calls the function on its
  items once each and in order, and leaves a queue of the items as the function left them.
\<close>

theorem queue_foreach_visits:
  assumes "queue_rep hp q as"
  shows "\<exists>hp' as'. queue_foreach (Some q) (Some f) hp s =
       Some (hp', snd (qforeach f (map snd as) s)) \<and>
     queue_rep hp' q as' \<and> map snd as' = fst (qforeach f (map snd as) s)"
proof -
  let ?as' = "zip (map fst as) (fst (qforeach f (map snd as) s))"
  have len: "length (fst (qforeach f (map snd as) s)) = length as"
    by (simp add: qforeach_length)
  obtain hp' where "foreach_loop f (head q) hp s = Some (hp', snd (qforeach f (map snd as) s))"
    "chain hp' (head q) ?as'"
    using assms foreach_loop_rep [of hp "head q" as f s] by (auto simp: queue_rep_def)
  moreover have "map fst ?as' = map fst as" "map snd ?as' = fst (qforeach f (map snd as) s)"
    using len by simp_all
  moreover have "fst (last ?as') = fst (last as)" if "as \<noteq> []"
    using that len calculation(3) by (metis last_map list.map_disc_iff)
  ultimately show ?thesis
    using assms by (intro exI [of _ hp'] exI [of _ ?as'])
      (auto simp: queue_foreach_def queue_rep_def dest: arg_cong [of _ _ length])
qed

theorem queue_foreach_visits_witness:
  "\<exists>hp' as'. queue_foreach (Some \<lparr>head = 8, tail = 8, num = 1\<rparr>) (Some (\<lambda>d s. (d + 1, s + d)))
       [8 \<mapsto> \<lparr>qnext = 0, qdata = 5 :: nat\<rparr>] 100 = Some (hp', 105) \<and>
     queue_rep hp' \<lparr>head = 8, tail = 8, num = 1\<rparr> as' \<and> map snd as' = [6]"
  using queue_foreach_visits [of "[8 \<mapsto> \<lparr>qnext = 0, qdata = 5 :: nat\<rparr>]" "\<lparr>head = 8, tail = 8, num = 1\<rparr>"
      "[(8, 5)]" "\<lambda>d s. (d + 1, s + d)" 100]
  by (simp add: queue_rep_def)

end
