(* ===== verification/Platform.thy ===== *)
theory Platform
  imports Libc Queue
begin

text \<open>
  The platform layer \<^verbatim>\<open>platform/linux\<close>: the allocator, the clock and the random numbers as feeds of
  the state, the scheduler contexts of \<^verbatim>\<open>sched.c\<close> on which user calls sleep, and the interrupt
  requests of \<^verbatim>\<open>intr.c\<close>. Mutexes are not part of the state: every section that the sources run
  under a lock is one step of the model. A blocking call is split where it sleeps, into the part
  before it waits on the condition variable and the part after it was woken.
\<close>

section \<open>The environment\<close>

text \<open>The interrupt handlers that a driver can request, as function pointers.\<close>

datatype isr = Dummy_isr | Loopback_isr | Ether_tap_isr

record irq_entry =
  irq :: nat
  irq_handler :: isr
  irq_flags :: int
  irq_name :: string
  irq_dev :: nat

text \<open>
  The part of the state that belongs to the platform: the byte order of the host, the feeds of
  clock readings, of the outcomes of \<^verbatim>\<open>calloc\<close>, of random numbers, of the results of
  \<^verbatim>\<open>pthread_cond_destroy\<close> and of the results of system calls, the signals sent to the interrupt
  thread so far, the interrupt entries, the signal mask and whether the interrupt thread was started
  (whether \<^verbatim>\<open>tid\<close> names another thread than the one that initialised the stack).
\<close>

record platform =
  host_order :: host
  clock :: "timeval feed"
  allocs :: "bool feed"
  randoms :: "u32 feed"
  cond_results :: "int feed"
  syscalls :: "int feed"
  raised :: "nat list"
  irqs :: "irq_entry list"
  sigmask :: "nat set"
  started :: bool

definition memory_alloc :: "'z platform_scheme \<Rightarrow> bool \<times> 'z platform_scheme" where
  "memory_alloc s = (allocs s 0, s\<lparr>allocs := advance (allocs s)\<rparr>)"

definition gettimeofday :: "'z platform_scheme \<Rightarrow> timeval \<times> 'z platform_scheme" where
  "gettimeofday s = (clock s 0, s\<lparr>clock := advance (clock s)\<rparr>)"

definition random_u32 :: "'z platform_scheme \<Rightarrow> u32 \<times> 'z platform_scheme" where
  "random_u32 s = (randoms s 0, s\<lparr>randoms := advance (randoms s)\<rparr>)"

definition syscall :: "'z platform_scheme \<Rightarrow> int \<times> 'z platform_scheme" where
  "syscall s = (syscalls s 0, s\<lparr>syscalls := advance (syscalls s)\<rparr>)"

section \<open>Scheduler contexts\<close>

text \<open>The condition variable is represented by the number of broadcasts on it.\<close>

record sched_ctx =
  broadcasts :: nat
  interrupted :: bool
  wc :: int

definition sched_ctx_init :: sched_ctx where
  "sched_ctx_init = \<lparr>broadcasts = 0, interrupted = False, wc = 0\<rparr>"

definition sched_ctx_destroy :: "'z platform_scheme \<Rightarrow> int \<times> 'z platform_scheme" where
  "sched_ctx_destroy s = (cond_results s 0, s\<lparr>cond_results := advance (cond_results s)\<rparr>)"

text \<open>
  \<^verbatim>\<open>sched_sleep\<close> up to the wait: \<^term>\<open>Some\<close> of the value when it returns without waiting, \<^term>\<open>None\<close>
  when the caller now waits on the condition variable.
\<close>

definition sched_sleep_enter :: "sched_ctx \<Rightarrow> int option \<times> sched_ctx" where
  "sched_sleep_enter ctx =
     (if interrupted ctx then (Some (-1), ctx) else (None, ctx\<lparr>wc := wc ctx + 1\<rparr>))"

text \<open>\<^verbatim>\<open>sched_sleep\<close> from the return \<open>ret\<close> of the wait on.\<close>

definition sched_sleep_resume :: "int \<Rightarrow> sched_ctx \<Rightarrow> int \<times> sched_ctx" where
  "sched_sleep_resume ret ctx =
     (let ctx = ctx\<lparr>wc := wc ctx - 1\<rparr>
      in if interrupted ctx
         then (-1, if wc ctx = 0 then ctx\<lparr>interrupted := False\<rparr> else ctx)
         else (ret, ctx))"

definition sched_wakeup :: "sched_ctx \<Rightarrow> sched_ctx" where
  "sched_wakeup ctx = ctx\<lparr>broadcasts := broadcasts ctx + 1\<rparr>"

definition sched_interrupt :: "sched_ctx \<Rightarrow> sched_ctx" where
  "sched_interrupt ctx = ctx\<lparr>interrupted := True, broadcasts := broadcasts ctx + 1\<rparr>"

section \<open>Interrupt requests\<close>

definition SIGHUP :: nat where "SIGHUP = 1"
definition SIGUSR1 :: nat where "SIGUSR1 = 10"
definition SIGUSR2 :: nat where "SIGUSR2 = 12"
definition SIGALRM :: nat where "SIGALRM = 14"
definition SIGRTMIN :: nat where "SIGRTMIN = 34"

definition INTR_IRQ_BASE :: nat where "INTR_IRQ_BASE = SIGRTMIN + 1"
definition INTR_IRQ_SOFTIRQ :: nat where "INTR_IRQ_SOFTIRQ = SIGUSR1"
definition INTR_IRQ_EVENT :: nat where "INTR_IRQ_EVENT = SIGUSR2"
definition INTR_IRQ_SHARED :: int where "INTR_IRQ_SHARED = 1"

lemmas signal_defs = SIGHUP_def SIGUSR1_def SIGUSR2_def SIGALRM_def SIGRTMIN_def INTR_IRQ_BASE_def
  INTR_IRQ_SOFTIRQ_def INTR_IRQ_EVENT_def INTR_IRQ_SHARED_def

text \<open>The loop of \<^verbatim>\<open>intr_request_irq\<close>: whether the request conflicts with an entry.\<close>

fun irq_conflict :: "nat \<Rightarrow> int \<Rightarrow> irq_entry list \<Rightarrow> bool" where
  "irq_conflict i fl [] = False"
| "irq_conflict i fl (entry # rest) =
     (if irq entry = i \<and> (irq_flags entry \<noteq> INTR_IRQ_SHARED \<or> fl \<noteq> INTR_IRQ_SHARED)
      then True else irq_conflict i fl rest)"

definition intr_request_irq ::
  "nat \<Rightarrow> isr \<Rightarrow> int \<Rightarrow> string \<Rightarrow> nat \<Rightarrow> 'z platform_scheme \<Rightarrow> int \<times> 'z platform_scheme" where
  "intr_request_irq i handler fl name dev s =
     (if irq_conflict i fl (irqs s) then (-1, s)
      else let (ok, s) = memory_alloc s
           in if \<not> ok then (-1, s)
              else (0, s\<lparr>irqs := \<lparr>irq = i, irq_handler = handler, irq_flags = fl,
                                   irq_name = take 15 name, irq_dev = dev\<rparr> # irqs s,
                         sigmask := insert i (sigmask s)\<rparr>))"

definition intr_raise_irq :: "nat \<Rightarrow> 'z platform_scheme \<Rightarrow> 'z platform_scheme" where
  "intr_raise_irq i s = s\<lparr>raised := raised s @ [i]\<rparr>"

definition intr_init :: "'z platform_scheme \<Rightarrow> int \<times> 'z platform_scheme" where
  "intr_init s = (0, s\<lparr>sigmask := {SIGHUP, SIGUSR1, SIGUSR2, SIGALRM}, started := False\<rparr>)"

text \<open>The results of \<^verbatim>\<open>pthread_sigmask\<close> and \<^verbatim>\<open>pthread_create\<close> are system call results.\<close>

definition intr_run :: "'z platform_scheme \<Rightarrow> int \<times> 'z platform_scheme" where
  "intr_run s =
     (let (err, s) = syscall s
      in if err \<noteq> 0 then (-1, s)
         else let (err, s) = syscall s
              in if err \<noteq> 0 then (-1, s) else (0, s\<lparr>started := True\<rparr>))"

definition intr_shutdown :: "'z platform_scheme \<Rightarrow> 'z platform_scheme" where
  "intr_shutdown s = (if \<not> started s then s else intr_raise_irq SIGHUP s)"

lemmas platform_defs = memory_alloc_def gettimeofday_def random_u32_def syscall_def
  sched_ctx_destroy_def intr_raise_irq_def

section \<open>Threads that sleep on a context\<close>

text \<open>
  The users of one context: any number of threads, those in the set asleep inside \<^verbatim>\<open>sched_sleep\<close>.
  The last value returned to a thread is recorded. A thread may wake at any time, since a wait on
  a condition variable may return spuriously; it returns \<open>ret\<close> (0, or an error number when a
  timed wait expires).
\<close>

record sleepers =
  ctx :: sched_ctx
  asleep :: "nat set"
  returned :: "nat \<Rightarrow> int option"

inductive sched_step :: "sleepers \<Rightarrow> sleepers \<Rightarrow> bool" where
  sleep_refused: "t \<notin> asleep s \<Longrightarrow> sched_sleep_enter (ctx s) = (Some r, c) \<Longrightarrow>
     sched_step s (s\<lparr>ctx := c, returned := (returned s)(t := Some r)\<rparr>)"
| sleep_enter: "t \<notin> asleep s \<Longrightarrow> sched_sleep_enter (ctx s) = (None, c) \<Longrightarrow>
     sched_step s (s\<lparr>ctx := c, asleep := insert t (asleep s), returned := (returned s)(t := None)\<rparr>)"
| sleep_resume: "t \<in> asleep s \<Longrightarrow> sched_sleep_resume ret (ctx s) = (r, c) \<Longrightarrow> 0 \<le> ret \<Longrightarrow>
     sched_step s (s\<lparr>ctx := c, asleep := asleep s - {t}, returned := (returned s)(t := Some r)\<rparr>)"
| wakeup: "sched_step s (s\<lparr>ctx := sched_wakeup (ctx s)\<rparr>)"
| interrupt: "sched_step s (s\<lparr>ctx := sched_interrupt (ctx s)\<rparr>)"

inductive sched_reach :: "sleepers \<Rightarrow> bool" where
  start: "sched_reach \<lparr>ctx = sched_ctx_init, asleep = {}, returned = \<lambda>_. None\<rparr>"
| step: "sched_reach s \<Longrightarrow> sched_step s s' \<Longrightarrow> sched_reach s'"

inductive_cases sched_stepE: "sched_step s s'"

lemma sched_wait_count:
  assumes "sched_reach s"
  shows "finite (asleep s) \<and> wc (ctx s) = int (card (asleep s))"
  using assms
proof (induction rule: sched_reach.induct)
  case start
  then show ?case by (simp add: sched_ctx_init_def)
next
  case (step s s')
  from step.hyps(2) step.IH show ?case
  proof (cases rule: sched_step.cases)
    case (sleep_resume t ret r c)
    then have "wc c = wc (ctx s) - 1"
      by (auto simp: sched_sleep_resume_def Let_def split: if_splits)
    moreover have "0 < card (asleep s)"
      using sleep_resume step.IH by (auto simp: card_gt_0_iff)
    ultimately show ?thesis
      using sleep_resume step.IH by simp
  qed (auto simp: sched_sleep_enter_def sched_wakeup_def sched_interrupt_def split: if_splits)
qed

text \<open>
  Interrupting sleepers: in every reachable state the wait count is the number of threads
  asleep on the context. After an interrupt, each thread that wakes returns \<open>-1\<close>; the flag stays
  set while others are still asleep, so they return \<open>-1\<close> as well, and the last one to leave
  clears it.
\<close>

lemma interrupt_reaches_all_sleepers:
  assumes "sched_reach s" and "t \<in> asleep s" and "interrupted (ctx s)"
    and "sched_sleep_resume ret (ctx s) = (r, c)"
  shows "wc (ctx s) = int (card (asleep s)) \<and> r = -1 \<and>
    (interrupted c \<longleftrightarrow> asleep s - {t} \<noteq> {})"
proof -
  have fin: "finite (asleep s)" and count: "wc (ctx s) = int (card (asleep s))"
    using sched_wait_count [OF assms(1)] by auto
  have "asleep s - {t} = {} \<longleftrightarrow> card (asleep s) - 1 = 0"
    using fin assms(2) by (metis card_0_eq card_Diff_singleton finite_Diff)
  moreover have "0 < card (asleep s)"
    using assms(2) fin by (auto simp: card_gt_0_iff)
  ultimately show ?thesis
    using assms(3,4) count by (auto simp: sched_sleep_resume_def Let_def split: if_splits)
qed

end
