(* ===== verification/Byteorder.thy ===== *)
theory Byteorder
  imports Prelude
begin

text \<open>
  The byte order conversions of \<^verbatim>\<open>util.c\<close>: the detection of the host's order, the byte swaps and
  \<^verbatim>\<open>hton16\<close>, \<^verbatim>\<open>ntoh16\<close>, \<^verbatim>\<open>hton32\<close>, \<^verbatim>\<open>ntoh32\<close> with the static variable in which they keep the result
  of the detection. The lemmas show that the four conversions are mutually inverse and that a
  value stored after \<open>hton\<close> lies in memory most significant byte first, whatever the host.
\<close>

section \<open>Model\<close>

definition LITTLE_ENDIAN :: int where
  "LITTLE_ENDIAN = 1234"

definition BIG_ENDIAN :: int where
  "BIG_ENDIAN = 4321"

definition byteorder :: "host \<Rightarrow> int" where
  "byteorder h = (if store32 h 1 ! 0 \<noteq> 0 then LITTLE_ENDIAN else BIG_ENDIAN)"

definition byteswap16 :: "u16 \<Rightarrow> u16" where
  "byteswap16 v = push_bit 8 (v AND 0x00ff) OR drop_bit 8 (v AND 0xff00)"

definition byteswap32 :: "u32 \<Rightarrow> u32" where
  "byteswap32 v =
     push_bit 24 (v AND 0x000000ff) OR push_bit 8 (v AND 0x0000ff00) OR
     drop_bit 8 (v AND 0x00ff0000) OR drop_bit 24 (v AND 0xff000000)"

text \<open>The static variable \<^verbatim>\<open>endian\<close> is an argument and part of the result.\<close>

definition hton16_static :: "host \<Rightarrow> int \<Rightarrow> u16 \<Rightarrow> u16 \<times> int" where
  "hton16_static h endian v =
     (let endian = (if endian = 0 then byteorder h else endian)
      in (if endian = LITTLE_ENDIAN then byteswap16 v else v, endian))"

definition ntoh16_static :: "host \<Rightarrow> int \<Rightarrow> u16 \<Rightarrow> u16 \<times> int" where
  "ntoh16_static h endian v =
     (let endian = (if endian = 0 then byteorder h else endian)
      in (if endian = LITTLE_ENDIAN then byteswap16 v else v, endian))"

definition hton32_static :: "host \<Rightarrow> int \<Rightarrow> u32 \<Rightarrow> u32 \<times> int" where
  "hton32_static h endian v =
     (let endian = (if endian = 0 then byteorder h else endian)
      in (if endian = LITTLE_ENDIAN then byteswap32 v else v, endian))"

definition ntoh32_static :: "host \<Rightarrow> int \<Rightarrow> u32 \<Rightarrow> u32 \<times> int" where
  "ntoh32_static h endian v =
     (let endian = (if endian = 0 then byteorder h else endian)
      in (if endian = LITTLE_ENDIAN then byteswap32 v else v, endian))"

text \<open>
  The value of a first call. \<open>static_independent\<close> below shows that it is the value of every call,
  so the rest of the model uses these functions and does not carry the static variable.
\<close>

definition hton16 :: "host \<Rightarrow> u16 \<Rightarrow> u16" where
  "hton16 h v = fst (hton16_static h 0 v)"

definition ntoh16 :: "host \<Rightarrow> u16 \<Rightarrow> u16" where
  "ntoh16 h v = fst (ntoh16_static h 0 v)"

definition hton32 :: "host \<Rightarrow> u32 \<Rightarrow> u32" where
  "hton32 h v = fst (hton32_static h 0 v)"

definition ntoh32 :: "host \<Rightarrow> u32 \<Rightarrow> u32" where
  "ntoh32 h v = fst (ntoh32_static h 0 v)"

section \<open>The byte swaps as arithmetic\<close>

lemma byte_masks16:
  "(0x00ff :: u16) = mask 8" "(0xff00 :: u16) = push_bit 8 (mask 8)"
  by (simp_all add: mask_eq_exp_minus_1 push_bit_eq_mult)

lemma byte_masks32:
  "(0x000000ff :: u32) = mask 8" "(0x0000ff00 :: u32) = push_bit 8 (mask 8)"
  "(0x00ff0000 :: u32) = push_bit 16 (mask 8)" "(0xff000000 :: u32) = push_bit 24 (mask 8)"
  by (simp_all add: mask_eq_exp_minus_1 push_bit_eq_mult)

lemma byteswap16_sum: "byteswap16 v = push_bit 8 v + drop_bit 8 v"
proof -
  have "push_bit 8 v + drop_bit 8 v = push_bit 8 v OR drop_bit 8 v"
    by (rule disjunctive_add) (auto simp: bit_simps dest: bit_imp_le_length)
  also have "\<dots> = byteswap16 v"
    unfolding byteswap16_def byte_masks16
    by (rule bit_word_eqI) (auto simp: bit_simps dest: bit_imp_le_length)
  finally show ?thesis by simp
qed

lemma unat_byteswap16: "unat (byteswap16 v) = unat v div 256 + 256 * (unat v mod 256)"
proof -
  let ?n = "unat v"
  have "push_bit 8 v = mk16 (256 * (?n mod 256))"
    using unat_push_bit_mod [of 8 v] mult_mod_right [of 256 ?n 256]
    by (intro mk16_eqI) (simp add: mult.commute)
  moreover have "drop_bit 8 v = mk16 (?n div 256)"
    using unat_drop_bit_div [of 8 v] unat_u16_less [of v] by (intro mk16_eqI) simp
  moreover have "256 * (?n mod 256) + ?n div 256 < 65536"
    using unat_u16_less [of v] by linarith
  ultimately show ?thesis
    by (simp only: byteswap16_sum mk_add unat_mk) simp
qed

lemma byteswap32_sum:
  "byteswap32 v = push_bit 24 v + (push_bit 16 (take_bit 8 (drop_bit 8 v)) +
     (push_bit 8 (take_bit 8 (drop_bit 16 v)) + drop_bit 24 v))"
proof -
  have "push_bit 8 (take_bit 8 (drop_bit 16 v)) + drop_bit 24 v =
      push_bit 8 (take_bit 8 (drop_bit 16 v)) OR drop_bit 24 v"
    by (rule disjunctive_add) (auto simp: bit_simps dest: bit_imp_le_length)
  moreover have "push_bit 16 (take_bit 8 (drop_bit 8 v)) +
      (push_bit 8 (take_bit 8 (drop_bit 16 v)) OR drop_bit 24 v) =
      push_bit 16 (take_bit 8 (drop_bit 8 v)) OR
      (push_bit 8 (take_bit 8 (drop_bit 16 v)) OR drop_bit 24 v)"
    by (rule disjunctive_add) (auto simp: bit_simps dest: bit_imp_le_length)
  moreover have "push_bit 24 v + (push_bit 16 (take_bit 8 (drop_bit 8 v)) OR
      (push_bit 8 (take_bit 8 (drop_bit 16 v)) OR drop_bit 24 v)) =
      push_bit 24 v OR (push_bit 16 (take_bit 8 (drop_bit 8 v)) OR
      (push_bit 8 (take_bit 8 (drop_bit 16 v)) OR drop_bit 24 v))"
    by (rule disjunctive_add) (auto simp: bit_simps dest: bit_imp_le_length)
  moreover have "n < 8" if "bit v (24 + n)" for n
    using bit_imp_le_length [OF that] by simp
  then have "push_bit 24 (v AND mask 8) = push_bit 24 v"
    "push_bit 8 (v AND push_bit 8 (mask 8)) = push_bit 16 (take_bit 8 (drop_bit 8 v))"
    "drop_bit 8 (v AND push_bit 16 (mask 8)) = push_bit 8 (take_bit 8 (drop_bit 16 v))"
    "drop_bit 24 (v AND push_bit 24 (mask 8)) = drop_bit 24 v"
    by (auto intro!: bit_word_eqI simp: bit_simps)
  ultimately show ?thesis
    by (simp only: byteswap32_def byte_masks32 or.assoc)
qed

lemma unat_byteswap32:
  "unat (byteswap32 v) = unat v div 256 div 256 div 256 + 256 * (unat v div 256 div 256 mod 256 +
     256 * (unat v div 256 mod 256 + 256 * (unat v mod 256)))"
  (is "_ = ?rhs")
proof -
  let ?n = "unat v"
  have "push_bit 24 v = mk32 (16777216 * (?n mod 256))"
    using unat_push_bit_mod [of 24 v] mult_mod_right [of 16777216 ?n 256]
    by (intro mk32_eqI) (simp add: mult.commute)
  moreover have "push_bit 16 (take_bit 8 (drop_bit 8 v)) = mk32 (65536 * (?n div 256 mod 256))"
    using unat_push_bit_mod [of 16 "take_bit 8 (drop_bit 8 v)"]
    by (intro mk32_eqI) (simp add: unat_take_bit_mod unat_drop_bit_div)
  moreover have "push_bit 8 (take_bit 8 (drop_bit 16 v)) = mk32 (256 * (?n div 256 div 256 mod 256))"
    using unat_push_bit_mod [of 8 "take_bit 8 (drop_bit 16 v)"]
    by (intro mk32_eqI) (simp add: unat_take_bit_mod unat_drop_bit_div div_mult2_eq [symmetric])
  moreover have "drop_bit 24 v = mk32 (?n div 256 div 256 div 256)"
    using unat_u32_less [of v]
    by (intro mk32_eqI) (simp add: unat_drop_bit_div div_mult2_eq [symmetric])
  moreover have "?n div 256 div 256 div 256 < 256"
    using unat_u32_less [of v] by (simp add: div_mult2_eq [symmetric])
  then have "16777216 * (?n mod 256) + (65536 * (?n div 256 mod 256) +
      (256 * (?n div 256 div 256 mod 256) + ?n div 256 div 256 div 256)) < 4294967296"
    using mod_less_divisor [of 256 ?n] mod_less_divisor [of 256 "?n div 256"]
      mod_less_divisor [of 256 "?n div 256 div 256"] by linarith
  ultimately show ?thesis
    by (simp only: byteswap32_sum mk_add unat_mk mod_less) simp
qed

lemma byteswap_load:
  "byteswap16 (load16 Little a b) = load16 Big a b"
  "byteswap16 (load16 Big a b) = load16 Little a b"
  "byteswap32 (load32 Little a b c d) = load32 Big a b c d"
  "byteswap32 (load32 Big a b c d) = load32 Little a b c d"
  by (simp_all only: word_unat_eq_iff unat_byteswap16 unat_byteswap32 unat_load16 unat_load32 byte_digit)

lemma load_exhaust:
  obtains a b where "v = load16 h a b"
  using load16_store16 [of h v] by metis

lemma load32_exhaust:
  obtains a b c d where "v = load32 h a b c d"
  using load32_store32 [of h v] by metis

lemma byteswap16_byteswap16 [simp]: "byteswap16 (byteswap16 v) = v"
  by (rule load_exhaust [of v Little]) (simp only: byteswap_load)

lemma byteswap32_byteswap32 [simp]: "byteswap32 (byteswap32 v) = v"
  by (rule load32_exhaust [of v Little]) (simp only: byteswap_load)

section \<open>The conversions\<close>

lemma byteorder_host: "byteorder h = (case h of Little \<Rightarrow> LITTLE_ENDIAN | Big \<Rightarrow> BIG_ENDIAN)"
  by (cases h) (simp_all add: byteorder_def mem_eval)

lemmas conversion_defs = hton16_def ntoh16_def hton32_def ntoh32_def hton16_static_def
  ntoh16_static_def hton32_static_def ntoh32_static_def byteorder_host LITTLE_ENDIAN_def BIG_ENDIAN_def

lemma conversion_cases:
  "hton16 h v = (case h of Little \<Rightarrow> byteswap16 v | Big \<Rightarrow> v)"
  "ntoh16 h v = (case h of Little \<Rightarrow> byteswap16 v | Big \<Rightarrow> v)"
  "hton32 h w = (case h of Little \<Rightarrow> byteswap32 w | Big \<Rightarrow> w)"
  "ntoh32 h w = (case h of Little \<Rightarrow> byteswap32 w | Big \<Rightarrow> w)"
  by (simp_all add: conversion_defs split: host.split)

lemma conversion_inverse [simp]:
  "ntoh16 h (hton16 h v) = v" "hton16 h (ntoh16 h v) = v"
  "ntoh32 h (hton32 h w) = w" "hton32 h (ntoh32 h w) = w"
  by (simp_all add: conversion_cases split: host.split)

text \<open>Network order: what is loaded and converted is read most significant byte first.\<close>

lemma ntoh_load [byte_simps]:
  "ntoh16 h (load16 h a b) = load16 Big a b"
  "ntoh32 h (load32 h a b c d) = load32 Big a b c d"
  by (cases h; simp only: conversion_cases host.case byteswap_load)+

lemma store_hton [byte_simps]:
  "store16 h (hton16 h v) = store16 Big v"
  "store32 h (hton32 h w) = store32 Big w"
proof -
  obtain a b where "v = load16 Big a b" by (rule load_exhaust)
  then show "store16 h (hton16 h v) = store16 Big v"
    by (cases h) (simp_all only: conversion_cases host.case byteswap_load store16_load16)
  obtain a b c d where "w = load32 Big a b c d" by (rule load32_exhaust)
  then show "store32 h (hton32 h w) = store32 Big w"
    by (cases h) (simp_all only: conversion_cases host.case byteswap_load store32_load32)
qed

lemma rd_here_net [byte_simps]:
  "rd16 h (store16 Big v @ xs) 0 = Some (hton16 h v)"
  "rd16 h (store16 Big v) 0 = Some (hton16 h v)"
  "rd32 h (store32 Big w @ xs) 0 = Some (hton32 h w)"
  "rd32 h (store32 Big w) 0 = Some (hton32 h w)"
  unfolding store_hton [of h, symmetric] by (simp_all only: rd_here)

lemma hton16_eq_iff [simp]: "hton16 h v = hton16 h w \<longleftrightarrow> v = w"
  by (metis conversion_inverse(1))

lemma hton16_zero [simp]: "hton16 h 0 = 0" "hton16 h v = 0 \<longleftrightarrow> v = 0"
proof -
  show z: "hton16 h 0 = 0"
    by (simp add: conversion_cases byteswap16_def split: host.split)
  show "hton16 h v = 0 \<longleftrightarrow> v = 0"
    using hton16_eq_iff [of h v 0] by (simp only: z)
qed

lemma static_independent:
  assumes "endian = 0 \<or> endian = byteorder h"
  shows "hton16_static h endian v = (hton16 h v, byteorder h)"
    and "ntoh16_static h endian v = (ntoh16 h v, byteorder h)"
    and "hton32_static h endian w = (hton32 h w, byteorder h)"
    and "ntoh32_static h endian w = (ntoh32 h w, byteorder h)"
  using assms by (auto simp: conversion_defs split: host.splits)

text \<open>
  The byte order conversions. On either kind of host, in every state of the static variable
  that the functions can leave behind (still zero, or the detected order): the conversions
  return the same value and record the detected order, \<^verbatim>\<open>ntoh\<close> undoes \<^verbatim>\<open>hton\<close>, and a 16 or 32 bit
  value stored after \<^verbatim>\<open>hton\<close> lies in memory most significant byte first.
\<close>

theorem network_byte_order:
  assumes "endian = 0 \<or> endian = byteorder h"
  shows "hton16_static h endian v = (hton16 h v, byteorder h) \<and>
    ntoh16_static h endian v = (ntoh16 h v, byteorder h) \<and>
    hton32_static h endian w = (hton32 h w, byteorder h) \<and>
    ntoh32_static h endian w = (ntoh32 h w, byteorder h) \<and>
    ntoh16 h (hton16 h v) = v \<and> ntoh32 h (hton32 h w) = w \<and>
    store16 h (hton16 h v) = [mk8 (unat v div 256), mk8 (unat v)] \<and>
    store32 h (hton32 h w) =
      [mk8 (unat w div 256 div 256 div 256), mk8 (unat w div 256 div 256), mk8 (unat w div 256),
       mk8 (unat w)]"
  using static_independent [OF assms] by (simp add: store_hton mem_eval)

theorem network_byte_order_witness:
  "store32 Little (hton32 Little 0xC0A84602) = [192, 168, 70, 2] \<and>
   hton16_static Little LITTLE_ENDIAN 80 = (0x5000, LITTLE_ENDIAN)"
  using network_byte_order [of LITTLE_ENDIAN Little 80 "0xC0A84602"]
  by (simp add: byteorder_host hton16_def hton16_static_def byteswap16_def LITTLE_ENDIAN_def)

end
