(* ===== verification/Net.thy ===== *)
theory Net
  imports Platform Byteorder
begin

text \<open>
  The device and protocol layer of \<^verbatim>\<open>net.c\<close> and \<^verbatim>\<open>net.h\<close>: network devices and their interfaces,
  the protocol table with its input queues, timers and event subscriptions. The operations that
  call through function pointers are in the theories \<open>Device\<close> (the drivers' operations) and
  \<open>Stack\<close> (the protocol, timer and event handlers); a function pointer is a value of an
  enumeration of the functions it can point to.

  Devices live in a table under their index, which stands for their address. Interfaces do not
  change once they are registered and are copied.
\<close>

section \<open>Model\<close>

definition NET_DEVICE_TYPE_DUMMY :: u16 where [simp]: "NET_DEVICE_TYPE_DUMMY = 0x0000"
definition NET_DEVICE_TYPE_LOOPBACK :: u16 where [simp]: "NET_DEVICE_TYPE_LOOPBACK = 0x0001"
definition NET_DEVICE_TYPE_ETHERNET :: u16 where [simp]: "NET_DEVICE_TYPE_ETHERNET = 0x0002"
definition NET_DEVICE_FLAG_UP :: u16 where [simp]: "NET_DEVICE_FLAG_UP = 0x0001"
definition NET_DEVICE_FLAG_LOOPBACK :: u16 where [simp]: "NET_DEVICE_FLAG_LOOPBACK = 0x0010"
definition NET_DEVICE_FLAG_BROADCAST :: u16 where [simp]: "NET_DEVICE_FLAG_BROADCAST = 0x0020"
definition NET_DEVICE_FLAG_NEED_ARP :: u16 where [simp]: "NET_DEVICE_FLAG_NEED_ARP = 0x0100"
definition NET_DEVICE_ADDR_LEN :: nat where [simp]: "NET_DEVICE_ADDR_LEN = 16"
definition NET_PROTOCOL_TYPE_IP :: u16 where [simp]: "NET_PROTOCOL_TYPE_IP = 0x0800"
definition NET_PROTOCOL_TYPE_ARP :: u16 where [simp]: "NET_PROTOCOL_TYPE_ARP = 0x0806"
definition NET_IFACE_FAMILY_IP :: int where [simp]: "NET_IFACE_FAMILY_IP = 1"

type_synonym dev_id = nat

text \<open>\<^verbatim>\<open>struct net_iface\<close> together with \<^verbatim>\<open>struct ip_iface\<close>, the only kind of interface there is.\<close>

record ip_iface =
  family :: int
  iface_dev :: dev_id
  unicast :: u32
  netmask :: u32
  broadcast :: u32

text \<open>The drivers' tables of operations and their private data.\<close>

datatype dev_ops = Dummy_ops | Loopback_ops | Ether_tap_ops

record loopback_queue_entry =
  lo_type :: u16
  lo_len :: nat
  lo_data :: bytes

record loopback =
  lo_irq :: nat
  lo_queue :: "loopback_queue_entry list"

record ether_tap =
  tap_name :: string
  tap_fd :: int
  tap_irq :: nat

datatype dev_priv = No_priv | Loopback loopback | Ether_tap ether_tap

record net_device =
  ifaces :: "ip_iface list"
  dev_index :: nat
  dev_name :: string
  dev_type :: u16
  mtu :: u16
  dev_flags :: u16
  dev_hlen :: u16
  dev_alen :: u16
  dev_addr :: bytes
  dev_broadcast :: bytes
  ops :: dev_ops
  priv :: dev_priv

definition NET_DEVICE_IS_UP :: "net_device \<Rightarrow> bool" where
  "NET_DEVICE_IS_UP d \<longleftrightarrow> dev_flags d AND NET_DEVICE_FLAG_UP \<noteq> 0"

datatype net_handler = Ip_input | Arp_input
datatype timer_handler = Arp_timer_handler | Tcp_timer
datatype event_handler = Udp_event_handler | Tcp_event_handler

record net_protocol_queue_entry =
  qe_dev :: dev_id
  qe_len :: nat
  qe_data :: bytes

record net_protocol =
  ptype :: u16
  pqueue :: "net_protocol_queue_entry list"
  phandler :: net_handler

record net_timer =
  interval :: timeval
  last_run :: timeval
  thandler :: timer_handler

text \<open>
  The state of the layer: the devices, the list of their indices as \<^verbatim>\<open>devices\<close> links them (newest
  first), the next index, the protocols, the timers, the events. The frames given to \<^verbatim>\<open>write\<close> on
  a tap device, with the results, and the frames waiting to be read are the wire.
\<close>

datatype rx_event = Poll_eintr | Poll_error | Read_error | Rx_frame bytes

record net = platform +
  dev_tab :: "dev_id \<Rightarrow> net_device option"
  devices :: "dev_id list"
  next_index :: nat
  protocols :: "net_protocol list"
  timers :: "net_timer list"
  events :: "event_handler list"
  writes :: "(dev_id \<times> bytes \<times> int) list"
  rx :: "dev_id \<Rightarrow> rx_event list"
  hwaddrs :: "bytes feed"

text \<open>\<^verbatim>\<open>net_device_alloc\<close>: a device of zeros, none when the allocation fails.\<close>

definition zero_device :: net_device where
  "zero_device =
     \<lparr>ifaces = [], dev_index = 0, dev_name = '''', dev_type = 0, mtu = 0, dev_flags = 0, dev_hlen = 0, dev_alen = 0,
      dev_addr = replicate 16 0, dev_broadcast = replicate 16 0, ops = Dummy_ops, priv = No_priv\<rparr>"

definition net_device_alloc :: "'z net_scheme \<Rightarrow> net_device option \<times> 'z net_scheme" where
  "net_device_alloc s =
     (let (ok, s) = memory_alloc s in (if ok then Some zero_device else None, s))"

definition net_device_register :: "net_device \<Rightarrow> 'z net_scheme \<Rightarrow> dev_id \<times> 'z net_scheme" where
  "net_device_register d s =
     (let i = next_index s;
          d = d\<lparr>dev_index := i, dev_name := take 15 (''net'' @ fmt_d i)\<rparr>
      in (i, s\<lparr>next_index := i + 1, dev_tab := (dev_tab s)(i \<mapsto> d), devices := i # devices s\<rparr>))"

definition net_device_add_iface ::
  "dev_id \<Rightarrow> ip_iface \<Rightarrow> 'z net_scheme \<Rightarrow> (int \<times> ip_iface \<times> 'z net_scheme) option" where
  "net_device_add_iface dev iface s = do {
     d \<leftarrow> dev_tab s dev;
     if \<exists>entry \<in> set (ifaces d). family entry = family iface then Some (-1, iface, s)
     else do {
       let iface = iface\<lparr>iface_dev := dev\<rparr>;
       Some (0, iface, s\<lparr>dev_tab := (dev_tab s)(dev \<mapsto> d\<lparr>ifaces := iface # ifaces d\<rparr>)\<rparr>)
     }
   }"

definition net_device_get_iface :: "net_device \<Rightarrow> int \<Rightarrow> ip_iface option" where
  "net_device_get_iface d fam = find (\<lambda>entry. family entry = fam) (ifaces d)"

definition net_protocol_register :: "u16 \<Rightarrow> net_handler \<Rightarrow> 'z net_scheme \<Rightarrow> int \<times> 'z net_scheme" where
  "net_protocol_register type handler s =
     (if \<exists>proto \<in> set (protocols s). type = ptype proto then (-1, s)
      else let (ok, s) = memory_alloc s
           in if \<not> ok then (-1, s)
              else (0, s\<lparr>protocols := \<lparr>ptype = type, pqueue = [], phandler = handler\<rparr> # protocols s\<rparr>))"

definition net_timer_register :: "timeval \<Rightarrow> timer_handler \<Rightarrow> 'z net_scheme \<Rightarrow> int \<times> 'z net_scheme" where
  "net_timer_register iv handler s =
     (let (ok, s) = memory_alloc s
      in if \<not> ok then (-1, s)
         else let (now, s) = gettimeofday s
              in (0, s\<lparr>timers := \<lparr>interval = iv, last_run = now, thandler = handler\<rparr> # timers s\<rparr>))"

definition net_event_subscribe :: "event_handler \<Rightarrow> 'z net_scheme \<Rightarrow> int \<times> 'z net_scheme" where
  "net_event_subscribe handler s =
     (let (ok, s) = memory_alloc s
      in if \<not> ok then (-1, s) else (0, s\<lparr>events := handler # events s\<rparr>))"

text \<open>
  \<^verbatim>\<open>net_input_handler\<close>: the data is copied into the queue of the first protocol of that type, and
  the software interrupt is raised; other types are dropped.
\<close>

definition net_input_handler ::
  "u16 \<Rightarrow> bytes \<Rightarrow> nat \<Rightarrow> dev_id \<Rightarrow> 'z net_scheme \<Rightarrow> (int \<times> 'z net_scheme) option" where
  "net_input_handler type data len dev s =
     (case find_pos (\<lambda>proto. ptype proto = type) (protocols s) of
        None \<Rightarrow> Some (0, s)
      | Some i \<Rightarrow>
          let (ok, s) = memory_alloc s
          in if \<not> ok then Some (-1, s)
             else do {
               copy \<leftarrow> rd_bytes data 0 len;
               let entry = \<lparr>qe_dev = dev, qe_len = len, qe_data = copy\<rparr>;
               let (ok, s) = memory_alloc s;
               let (r, q) = qpush ok (pqueue (protocols s ! i)) entry;
               if r = None then Some (-1, s)
               else do {
                 let s = s\<lparr>protocols := (protocols s)[i := (protocols s ! i)\<lparr>pqueue := q\<rparr>]\<rparr>;
                 Some (0, intr_raise_irq INTR_IRQ_SOFTIRQ s)
               }
             })"

definition net_raise_event :: "'z net_scheme \<Rightarrow> 'z net_scheme" where
  "net_raise_event s = intr_raise_irq INTR_IRQ_EVENT s"

section \<open>Invariants of the tables\<close>

text \<open>
  The indices in \<^verbatim>\<open>devices\<close> are exactly those of the devices in the table, each once; every
  device carries its index and is the parent of its interfaces, at most one per family; protocol
  types are registered once.
\<close>

definition dev_ok :: "dev_id \<Rightarrow> net_device \<Rightarrow> bool" where
  "dev_ok i d \<longleftrightarrow> dev_index d = i \<and> (\<forall>f \<in> set (ifaces d). iface_dev f = i) \<and> distinct (map family (ifaces d)) \<and>
     length (dev_addr d) = 16 \<and> length (dev_broadcast d) = 16"

definition net_ok :: "'z net_scheme \<Rightarrow> bool" where
  "net_ok s \<longleftrightarrow>
     distinct (devices s) \<and> set (devices s) = {i. dev_tab s i \<noteq> None} \<and>
     (\<forall>i d. dev_tab s i = Some d \<longrightarrow> i < next_index s \<and> dev_ok i d) \<and>
     distinct (map ptype (protocols s))"

lemma net_okD:
  assumes "net_ok s"
  shows "dev_tab s i = Some d \<Longrightarrow> dev_ok i d" and "dev_tab s i = Some d \<Longrightarrow> i < next_index s"
    and "i \<in> set (devices s) \<longleftrightarrow> dev_tab s i \<noteq> None" and "distinct (map ptype (protocols s))"
  using assms by (auto simp: net_ok_def)

lemma net_ok_update:
  assumes "net_ok s" "dev_tab s i \<noteq> None" "dev_ok i d"
  shows "net_ok (s\<lparr>dev_tab := (dev_tab s)(i \<mapsto> d)\<rparr>)"
  using assms by (auto simp: net_ok_def)

lemma net_ok_cong:
  assumes "dev_tab s' = dev_tab s" "devices s' = devices s" "next_index s' = next_index s"
    and "map ptype (protocols s') = map ptype (protocols s)"
  shows "net_ok s' = net_ok s"
  using assms by (simp add: net_ok_def)

lemma net_ok_register:
  assumes ok: "net_ok s" and d: "length (dev_addr d) = 16" "length (dev_broadcast d) = 16" "ifaces d = []"
    and res: "net_device_register d s = (i, s')"
  shows "net_ok s'"
proof -
  have fresh: "dev_tab s (next_index s) = None"
    using net_okD(2) [OF ok, of "next_index s"] by (cases "dev_tab s (next_index s)") auto
  then have "next_index s \<notin> set (devices s)"
    using net_okD(3) [OF ok, of "next_index s"] by blast
  moreover have "j < Suc (next_index s)" if "dev_tab s j = Some e" for j e
    using net_okD(2) [OF ok that] by simp
  ultimately show ?thesis
    using ok d res fresh
    by (auto simp: net_ok_def dev_ok_def net_device_register_def Let_def split: if_splits)
qed

lemma net_ok_add_iface:
  assumes ok: "net_ok s" and res: "net_device_add_iface dev iface s = Some (r, iface', s')"
  shows "net_ok s'"
proof -
  from res obtain d where d: "dev_tab s dev = Some d"
    by (auto simp: net_device_add_iface_def bind_Some_iff)
  show ?thesis
  proof (cases "\<exists>entry \<in> set (ifaces d). family entry = family iface")
    case True
    then show ?thesis using res ok d by (simp add: net_device_add_iface_def)
  next
    case False
    moreover have "dev_ok dev d" using ok d by (rule net_okD(1))
    ultimately have "dev_ok dev (d\<lparr>ifaces := iface\<lparr>iface_dev := dev\<rparr> # ifaces d\<rparr>)"
      by (auto simp: dev_ok_def)
    then show ?thesis using res ok d False
      by (auto simp: net_device_add_iface_def Let_def intro!: net_ok_update)
  qed
qed

lemma net_ok_protocol_register:
  "net_ok s \<Longrightarrow> net_ok (snd (net_protocol_register type handler s))"
  by (auto simp: net_protocol_register_def net_ok_def platform_defs Let_def)

text \<open>
  A device has at most one interface per family, so the interface found is the one added, and
  it names its device.
\<close>

lemma get_iface_dev:
  "dev_ok i d \<Longrightarrow> net_device_get_iface d fam = Some f \<Longrightarrow> iface_dev f = i \<and> family f = fam"
  by (auto simp: dev_ok_def net_device_get_iface_def find_Some_iff)

lemma get_iface_after_add:
  assumes "net_device_add_iface dev iface s = Some (0, iface', s')"
  shows "\<exists>d. dev_tab s' dev = Some d \<and> net_device_get_iface d (family iface) = Some iface'"
  using assms
  by (auto simp: net_device_add_iface_def net_device_get_iface_def bind_Some_iff Let_def split: if_splits)

section \<open>Input queues\<close>

text \<open>The input queue of a protocol type.\<close>

definition proto_queue :: "'z net_scheme \<Rightarrow> u16 \<Rightarrow> net_protocol_queue_entry list option" where
  "proto_queue s t = map_option pqueue (find (\<lambda>p. ptype p = t) (protocols s))"

lemma find_list_update:
  assumes "find_pos P xs = Some i" "\<And>x. Q x \<Longrightarrow> P x" "Q y = Q (xs ! i)"
  shows "find Q (xs[i := y]) = (if Q (xs ! i) then Some y else find Q xs)"
  using assms
proof (induction xs arbitrary: i)
  case (Cons x xs)
  then show ?case by (cases i) (auto split: if_splits)
qed simp

lemma find_update_other:
  assumes "\<not> Q y" "\<not> Q (xs ! i)"
  shows "find Q (xs[i := y]) = find Q xs"
  using assms
proof (induction xs arbitrary: i)
  case (Cons x xs)
  then show ?case by (cases i) auto
qed simp

lemma find_find_pos: "find P xs = map_option ((!) xs) (find_pos P xs)"
  by (induction xs) (auto simp: option.map_comp comp_def)

lemma net_input_queues:
  assumes "len \<le> length data"
  shows "\<exists>r s'. net_input_handler type data len dev s = Some (r, s') \<and>
    (if proto_queue s type = None then r = 0 \<and> s' = s
     else if \<not> allocs s 0 \<or> \<not> allocs s 1 then r = -1 \<and> proto_queue s' = proto_queue s \<and> raised s' = raised s
     else r = 0 \<and> raised s' = raised s @ [INTR_IRQ_SOFTIRQ] \<and>
          proto_queue s' = (proto_queue s)(type \<mapsto> the (proto_queue s type) @
            [\<lparr>qe_dev = dev, qe_len = len, qe_data = take len data\<rparr>]))"
proof (cases "find_pos (\<lambda>p. ptype p = type) (protocols s)")
  case None
  then show ?thesis by (simp add: net_input_handler_def proto_queue_def find_find_pos)
next
  case (Some i)
  let ?p = "protocols s ! i"
  from Some have i: "i < length (protocols s)" "ptype ?p = type"
    by (auto dest: find_pos_SomeD)
  have "proto_queue s type = Some (pqueue ?p)"
    using Some by (simp add: proto_queue_def find_find_pos)
  moreover have "map_option pqueue (find (\<lambda>p. ptype p = t) ((protocols s)[i := ?p\<lparr>pqueue := q\<rparr>])) =
     ((proto_queue s)(type \<mapsto> q)) t" for t q
  proof (cases "t = type")
    case True
    then show ?thesis using Some i by (simp add: find_list_update)
  next
    case False
    then show ?thesis using i by (simp add: find_update_other proto_queue_def)
  qed
  ultimately show ?thesis
    using Some assms
    by (auto simp: net_input_handler_def platform_defs Let_def rd_bytes_def qpush_def advance_def
        proto_queue_def fun_eq_iff split: option.splits)
qed

text \<open>
  An input of \<open>len\<close> readable bytes never reads out of bounds. It either is dropped, with no queue changed,
  because the protocol type is not registered (result 0) or because an allocation fails (-1), or it
  is appended, with its device and a copy of the bytes, to the queue of the protocol type, all other
  queues are unchanged, and exactly the software interrupt is raised.
\<close>

theorem net_input_handler_queues:
  assumes "len \<le> length data"
  shows "\<exists>r s'. net_input_handler type data len dev s = Some (r, s') \<and>
    (if proto_queue s type = None then r = 0 \<and> s' = s
     else if \<not> allocs s 0 \<or> \<not> allocs s 1 then r = -1 \<and> proto_queue s' = proto_queue s \<and> raised s' = raised s
     else r = 0 \<and> raised s' = raised s @ [INTR_IRQ_SOFTIRQ] \<and>
          proto_queue s' = (proto_queue s)(type \<mapsto> the (proto_queue s type) @
            [\<lparr>qe_dev = dev, qe_len = len, qe_data = take len data\<rparr>]))"
  using assms by (rule net_input_queues)

text \<open>A state with one protocol registered and memory available, for evaluation.\<close>

definition net_example :: net where
  "net_example =
     \<lparr>host_order = Little, clock = (\<lambda>_. timerclear), allocs = (\<lambda>_. True), randoms = (\<lambda>_. 0),
      cond_results = (\<lambda>_. 0), syscalls = (\<lambda>_. 3), raised = [], irqs = [], sigmask = {}, started = False,
      dev_tab = (\<lambda>_. None), devices = [], next_index = 0,
      protocols = [\<lparr>ptype = NET_PROTOCOL_TYPE_ARP, pqueue = [], phandler = Arp_input\<rparr>],
      timers = [], events = [], writes = [], rx = (\<lambda>_. []), hwaddrs = (\<lambda>_. [])\<rparr>"

lemma net_example_simps:
  "proto_queue net_example t = (if t = NET_PROTOCOL_TYPE_ARP then Some [] else None)"
  "allocs net_example n" "raised net_example = []"
  by (simp_all add: net_example_def proto_queue_def)

theorem net_input_handler_queues_witness:
  "2 \<le> length [7, 8, 9 :: u8] \<and>
   (\<exists>s'. net_input_handler NET_PROTOCOL_TYPE_ARP [7, 8, 9] 2 0 net_example = Some (0, s') \<and>
     raised s' = [SIGUSR1] \<and>
     proto_queue s' NET_PROTOCOL_TYPE_ARP = Some [\<lparr>qe_dev = 0, qe_len = 2, qe_data = [7, 8]\<rparr>])"
  using net_input_handler_queues [of 2 "[7, 8, 9]" NET_PROTOCOL_TYPE_ARP 0 net_example]
  by (auto simp: net_example_simps INTR_IRQ_SOFTIRQ_def)

end
