(* ===== verification/Ether.thy ===== *)
theory Ether
  imports Net
begin

text \<open>
  The Ethernet layer of \<^verbatim>\<open>ether.c\<close>: text form of hardware addresses, building and taking apart
  frames around the callbacks that the drivers provide. Logging is not modelled.
\<close>

section \<open>Model\<close>

definition ETHER_ADDR_LEN :: nat where [simp]: "ETHER_ADDR_LEN = 6"
definition ETHER_ADDR_STR_LEN :: nat where [simp]: "ETHER_ADDR_STR_LEN = 18"
definition ETHER_HDR_SIZE :: nat where [simp]: "ETHER_HDR_SIZE = 14"
definition ETHER_FRAME_SIZE_MIN :: nat where [simp]: "ETHER_FRAME_SIZE_MIN = 60"
definition ETHER_FRAME_SIZE_MAX :: nat where [simp]: "ETHER_FRAME_SIZE_MAX = 1514"
definition ETHER_PAYLOAD_SIZE_MIN :: nat where
  [simp]: "ETHER_PAYLOAD_SIZE_MIN = ETHER_FRAME_SIZE_MIN - ETHER_HDR_SIZE"
definition ETHER_PAYLOAD_SIZE_MAX :: nat where
  [simp]: "ETHER_PAYLOAD_SIZE_MAX = ETHER_FRAME_SIZE_MAX - ETHER_HDR_SIZE"

definition ETHER_ADDR_ANY :: bytes where "ETHER_ADDR_ANY = replicate 6 0x00"
definition ETHER_ADDR_BROADCAST :: bytes where "ETHER_ADDR_BROADCAST = replicate 6 0xff"

text \<open>
  \<^verbatim>\<open>ether_addr_pton\<close>: the loop with its index, the rest \<open>ep\<close> of the string after the last number and
  the bytes stored so far; then the result with the bytes stored.
\<close>

function ether_pton_loop :: "nat \<Rightarrow> string \<Rightarrow> string \<Rightarrow> bytes \<Rightarrow> nat \<times> string \<times> bytes" where
  "ether_pton_loop index p ep n =
     (if index < ETHER_ADDR_LEN
      then let (val, ep) = strtol 16 p
           in if ep = p \<or> val < 0 \<or> val > 0xff \<or> (index < ETHER_ADDR_LEN - 1 \<and> take 1 ep \<noteq> '':'')
              then (index, ep, n)
              else ether_pton_loop (index + 1) (drop 1 ep) ep (n @ [mk8 (nat val)])
      else (index, ep, n))"
  by auto
termination
  by (relation "measure (\<lambda>(index, _). ETHER_ADDR_LEN - index)") auto

declare ether_pton_loop.simps [simp del]

definition ether_addr_pton :: "string \<Rightarrow> int \<times> bytes" where
  "ether_addr_pton p =
     (let (index, ep, n) = ether_pton_loop 0 p p []
      in (if index \<noteq> ETHER_ADDR_LEN \<or> ep \<noteq> [] then -1 else 0, n))"

text \<open>\<^verbatim>\<open>ether_addr_ntop\<close>: \<^verbatim>\<open>snprintf\<close> keeps all but the last of \<open>sz\<close> characters.\<close>

definition ether_addr_ntop :: "bytes \<Rightarrow> nat \<Rightarrow> string option" where
  "ether_addr_ntop n sz = do {
     b \<leftarrow> rd_bytes n 0 ETHER_ADDR_LEN;
     Some (take (sz - 1)
       (fmt_02x (b ! 0) @ '':'' @ fmt_02x (b ! 1) @ '':'' @ fmt_02x (b ! 2) @ '':'' @
        fmt_02x (b ! 3) @ '':'' @ fmt_02x (b ! 4) @ '':'' @ fmt_02x (b ! 5)))
   }"

text \<open>The callback gets the frame buffer and the length of the frame and returns a count of bytes.\<close>

definition ether_transmit_helper ::
  "dev_id \<Rightarrow> u16 \<Rightarrow> bytes \<Rightarrow> nat \<Rightarrow> bytes \<Rightarrow>
   (dev_id \<Rightarrow> bytes \<Rightarrow> nat \<Rightarrow> 'z net_scheme \<Rightarrow> (int \<times> 'z net_scheme) option) \<Rightarrow>
   'z net_scheme \<Rightarrow> (int \<times> 'z net_scheme) option" where
  "ether_transmit_helper dev type data len dst callback s = do {
     d \<leftarrow> dev_tab s dev;
     let frame = replicate ETHER_FRAME_SIZE_MAX 0;
     hdr_dst \<leftarrow> rd_bytes dst 0 ETHER_ADDR_LEN;
     frame \<leftarrow> wr_bytes frame 0 hdr_dst;
     hdr_src \<leftarrow> rd_bytes (dev_addr d) 0 ETHER_ADDR_LEN;
     frame \<leftarrow> wr_bytes frame 6 hdr_src;
     frame \<leftarrow> wr_bytes frame 12 (store16 (host_order s) (hton16 (host_order s) type));
     payload \<leftarrow> rd_bytes data 0 len;
     frame \<leftarrow> wr_bytes frame ETHER_HDR_SIZE payload;
     let pad = (if len < ETHER_PAYLOAD_SIZE_MIN then ETHER_PAYLOAD_SIZE_MIN - len else 0);
     let flen = ETHER_HDR_SIZE + len + pad;
     (r, s) \<leftarrow> callback dev frame flen s;
     Some (if r = int flen then 0 else -1, s)
   }"

text \<open>
  The callback returns its result and what it stored at the start of the frame buffer; the rest
  of the buffer is not initialised.
\<close>

definition ether_input_helper ::
  "dev_id \<Rightarrow> (dev_id \<Rightarrow> nat \<Rightarrow> 'z net_scheme \<Rightarrow> (int \<times> bytes \<times> 'z net_scheme) option) \<Rightarrow>
   'z net_scheme \<Rightarrow> (int \<times> 'z net_scheme) option" where
  "ether_input_helper dev callback s = do {
     (flen, frame, s) \<leftarrow> callback dev ETHER_FRAME_SIZE_MAX s;
     if flen < int ETHER_HDR_SIZE then Some (-1, s)
     else do {
       d \<leftarrow> dev_tab s dev;
       hdr_dst \<leftarrow> rd_bytes frame 0 ETHER_ADDR_LEN;
       hdr_type \<leftarrow> rd16 (host_order s) frame 12;
       if take ETHER_ADDR_LEN (dev_addr d) \<noteq> hdr_dst \<and> ETHER_ADDR_BROADCAST \<noteq> hdr_dst
       then Some (-1, s)
       else net_input_handler (ntoh16 (host_order s) hdr_type) (drop ETHER_HDR_SIZE frame)
              (nat flen - ETHER_HDR_SIZE) dev s
     }
   }"

definition ether_setup_helper :: "net_device \<Rightarrow> net_device" where
  "ether_setup_helper d =
     d\<lparr>dev_type := NET_DEVICE_TYPE_ETHERNET, mtu := mk16 ETHER_PAYLOAD_SIZE_MAX,
       dev_flags := NET_DEVICE_FLAG_BROADCAST OR NET_DEVICE_FLAG_NEED_ARP,
       dev_hlen := mk16 ETHER_HDR_SIZE, dev_alen := mk16 ETHER_ADDR_LEN,
       dev_broadcast := ETHER_ADDR_BROADCAST @ drop ETHER_ADDR_LEN (dev_broadcast d)\<rparr>"

section \<open>Addresses in text form\<close>

lemma fmt_02x_not_Nil [simp]: "fmt_02x b \<noteq> []"
  by (simp add: fmt_02x_def)

lemma uint_u8_le [simp]: "\<not> 255 < uint (b :: u8)"
  using uint_lt2p [of b] by simp

lemma ether_pton_step:
  assumes "i < 5"
  shows "ether_pton_loop i (fmt_02x b @ CHR '':'' # rest) ep n =
     ether_pton_loop (Suc i) rest (CHR '':'' # rest) (n @ [b])"
  using assms by (simp add: ether_pton_loop.simps [of i] strtol_fmt_02x)

lemma ether_pton_last: "ether_pton_loop 5 (fmt_02x b) ep n = (6, [], n @ [b])"
  using strtol_fmt_02x [of "[]" b] fmt_02x_not_Nil [of b, symmetric] by (simp add: ether_pton_loop.simps)

lemma length_fmt_02x [simp]: "length (fmt_02x b) = 2"
  by (simp add: fmt_02x_def)

lemma six_bytes:
  assumes "length (n :: 'a list) = 6"
  shows "n = [n ! 0, n ! 1, n ! 2, n ! 3, n ! 4, n ! 5]"
  using assms by (auto simp: numeral_eq_Suc length_Suc_conv)

text \<open>
  Printing a hardware address into a buffer of \<^verbatim>\<open>ETHER_ADDR_STR_LEN\<close> bytes or more gives 17
  characters, from which parsing stores the same six bytes.
\<close>

lemma ether_addr_roundtrip:
  assumes "6 \<le> length n" "ETHER_ADDR_STR_LEN \<le> sz"
  shows "\<exists>p. ether_addr_ntop n sz = Some p \<and> length p = 17 \<and> ether_addr_pton p = (0, take 6 n)"
proof -
  define b where "b = take 6 n"
  let ?p = "fmt_02x (b ! 0) @ CHR '':'' # fmt_02x (b ! 1) @ CHR '':'' # fmt_02x (b ! 2) @ CHR '':'' #
            fmt_02x (b ! 3) @ CHR '':'' # fmt_02x (b ! 4) @ CHR '':'' # fmt_02x (b ! 5)"
  have "ether_addr_ntop n sz = Some ?p"
    using assms by (simp add: ether_addr_ntop_def rd_bytes_def b_def)
  moreover have "ether_addr_pton ?p = (0, [b ! 0, b ! 1, b ! 2, b ! 3, b ! 4, b ! 5])"
    using ether_pton_last [of "b ! 5"]
    by (simp add: ether_addr_pton_def ether_pton_step eval_nat_numeral)
  ultimately show ?thesis
    using six_bytes [of b] assms by (auto simp: b_def)
qed

section \<open>Frames\<close>

text \<open>An Ethernet frame, its payload padded to the minimal size.\<close>

definition ether_frame :: "bytes \<Rightarrow> bytes \<Rightarrow> u16 \<Rightarrow> bytes \<Rightarrow> bytes" where
  "ether_frame dst src type payload =
     dst @ src @ store16 Big type @ payload @ replicate (46 - length payload) 0"

lemma length_ether_frame [simp]:
  "length dst = 6 \<Longrightarrow> length src = 6 \<Longrightarrow> length (ether_frame dst src type payload) = 14 + max (length payload) 46"
  by (simp add: ether_frame_def)

lemma ether_transmit_frame:
  assumes "dev_tab s dev = Some d" "6 \<le> length dst" "6 \<le> length (dev_addr d)"
    and "len \<le> length data" "len \<le> 1500"
  shows "ether_transmit_helper dev type data len dst callback s = do {
     let f = ether_frame (take 6 dst) (take 6 (dev_addr d)) type (take len data);
     (r, s) \<leftarrow> callback dev (f @ replicate (1514 - length f) 0) (length f) s;
     Some (if r = int (length f) then 0 else -1, s)
   }"
proof -
  let ?dst = "take 6 dst" and ?src = "take 6 (dev_addr d)" and ?ty = "store16 Big type"
  have fill: "wr_bytes (replicate 1514 0) 0 ?dst = Some (?dst @ replicate 1508 0)"
    "wr_bytes (?dst @ replicate 1508 0) 6 ?src = Some (?dst @ ?src @ replicate 1502 0)"
    "wr_bytes (?dst @ ?src @ replicate 1502 0) 12 ?ty = Some (?dst @ ?src @ ?ty @ replicate 1500 0)"
    "wr_bytes (?dst @ ?src @ ?ty @ replicate 1500 0) 14 (take len data) =
     Some (?dst @ ?src @ ?ty @ take len data @ replicate (1500 - len) 0)"
    using assms by (simp_all add: wr_bytes_def min_absorb2)
  have pad: "replicate (1500 - len) (0::u8) = replicate (46 - len) 0 @ replicate (1500 - max len 46) 0"
    using assms by (simp add: replicate_add [symmetric] max_def)
  have rd: "rd_bytes dst 0 6 = Some ?dst" "rd_bytes (dev_addr d) 0 6 = Some ?src"
    "rd_bytes data 0 len = Some (take len data)"
    using assms by (simp_all add: rd_bytes_def)
  have f: "length (ether_frame ?dst ?src type (take len data)) = 14 + max len 46"
    using assms by simp
  have flen: "14 + len + (if len < 60 - 14 then 60 - 14 - len else 0) = 14 + max len 46"
    by simp
  show ?thesis
    unfolding ether_transmit_helper_def Let_def f assms(1) bind.bind_lunit ETHER_ADDR_LEN_def
      ETHER_FRAME_SIZE_MAX_def ETHER_HDR_SIZE_def ETHER_PAYLOAD_SIZE_MIN_def ETHER_FRAME_SIZE_MIN_def
      rd fill store_hton flen
    by (simp add: ether_frame_def pad assms min_absorb2 del: replicate.simps)
qed

lemma ether_input_frame:
  assumes "dev_tab s' dev = Some d" "length dst = 6" "length src = 6"
    and "callback dev 1514 s = Some (int (length f), f, s')"
    and "f = ether_frame dst src type payload"
  shows "ether_input_helper dev callback s =
    (if dst = take 6 (dev_addr d) \<or> dst = ETHER_ADDR_BROADCAST
     then net_input_handler type (payload @ replicate (46 - length payload) 0) (max (length payload) 46) dev s'
     else Some (-1, s'))"
proof -
  let ?pad = "replicate (46 - length payload) 0 :: bytes"
  have f: "rd_bytes f 0 6 = Some dst" "rd16 h f 12 = Some (hton16 h type)" "drop 14 f = payload @ ?pad" for h
    using assms(2,3,5) by (simp_all add: ether_frame_def byte_simps)
  moreover have "\<not> int (length f) < int 14" "nat (int (length f)) - 14 = max (length payload) 46"
    using assms(2,3,5) by simp_all
  ultimately show ?thesis
    using assms(1,4) by (auto simp: ether_input_helper_def)
qed

end
