(* ===== verification/Drivers.thy ===== *)
theory Drivers
  imports Ether
begin

text \<open>
  The three drivers: \<^verbatim>\<open>driver/dummy.c\<close>, \<^verbatim>\<open>driver/loopback.c\<close> and
  \<^verbatim>\<open>platform/linux/driver/ether_tap.c\<close>. A driver's private data is reached through the device; a
  private pointer of another kind (or a null pointer) is undefined behaviour. The tap device's
  system calls take their results from the environment: what \<^verbatim>\<open>poll\<close> and \<^verbatim>\<open>read\<close> find is the
  device's list of events, what is given to \<^verbatim>\<open>write\<close> is recorded with its result.
\<close>

section \<open>Model\<close>

subsection \<open>The dummy device\<close>

definition DUMMY_MTU :: u16 where "DUMMY_MTU = 0xffff"
definition DUMMY_IRQ :: nat where "DUMMY_IRQ = INTR_IRQ_BASE"

definition dummy_transmit ::
  "dev_id \<Rightarrow> u16 \<Rightarrow> bytes \<Rightarrow> nat \<Rightarrow> bytes \<Rightarrow> 'z net_scheme \<Rightarrow> (int \<times> 'z net_scheme) option" where
  "dummy_transmit dev type data len dst s = Some (0, intr_raise_irq DUMMY_IRQ s)"

definition dummy_isr :: "nat \<Rightarrow> dev_id \<Rightarrow> 'z net_scheme \<Rightarrow> (int \<times> 'z net_scheme) option" where
  "dummy_isr i dev s = Some (0, s)"

definition dummy_init :: "'z net_scheme \<Rightarrow> dev_id option \<times> 'z net_scheme" where
  "dummy_init s =
     (case net_device_alloc s of
        (None, s) \<Rightarrow> (None, s)
      | (Some d, s) \<Rightarrow>
          let d = d\<lparr>dev_type := NET_DEVICE_TYPE_DUMMY, mtu := DUMMY_MTU, dev_hlen := 0, dev_alen := 0,
                    ops := Dummy_ops\<rparr>;
              (dev, s) = net_device_register d s;
              (_, s) = intr_request_irq DUMMY_IRQ Dummy_isr INTR_IRQ_SHARED
                         (dev_name (the (dev_tab s dev))) dev s
          in (Some dev, s))"

subsection \<open>The loopback device\<close>

definition LOOPBACK_MTU :: u16 where "LOOPBACK_MTU = 0xffff"
definition LOOPBACK_QUEUE_LIMIT :: u32 where "LOOPBACK_QUEUE_LIMIT = 16"
definition LOOPBACK_IRQ :: nat where "LOOPBACK_IRQ = INTR_IRQ_BASE + 1"

definition loopback_priv :: "dev_id \<Rightarrow> 'z net_scheme \<Rightarrow> (net_device \<times> loopback) option" where
  "loopback_priv dev s =
     (case dev_tab s dev of
        None \<Rightarrow> None
      | Some d \<Rightarrow> (case priv d of Loopback lo \<Rightarrow> Some (d, lo) | _ \<Rightarrow> None))"

definition loopback_set_queue ::
  "dev_id \<Rightarrow> net_device \<Rightarrow> loopback \<Rightarrow> loopback_queue_entry list \<Rightarrow> 'z net_scheme \<Rightarrow> 'z net_scheme" where
  "loopback_set_queue dev d lo q s =
     s\<lparr>dev_tab := (dev_tab s)(dev \<mapsto> d\<lparr>priv := Loopback (lo\<lparr>lo_queue := q\<rparr>)\<rparr>)\<rparr>"

definition loopback_transmit ::
  "dev_id \<Rightarrow> u16 \<Rightarrow> bytes \<Rightarrow> nat \<Rightarrow> bytes \<Rightarrow> 'z net_scheme \<Rightarrow> (int \<times> 'z net_scheme) option" where
  "loopback_transmit dev type data len dst s = do {
     (d, lo) \<leftarrow> loopback_priv dev s;
     if qnum (lo_queue lo) \<ge> LOOPBACK_QUEUE_LIMIT then Some (-1, s)
     else do {
       let (ok, s) = memory_alloc s;
       if \<not> ok then Some (-1, s)
       else do {
         copy \<leftarrow> rd_bytes data 0 len;
         let (ok, s) = memory_alloc s;
         let (_, q) = qpush ok (lo_queue lo) \<lparr>lo_type = type, lo_len = len, lo_data = copy\<rparr>;
         let s = loopback_set_queue dev d lo q s;
         Some (0, intr_raise_irq (lo_irq lo) s)
       }
     }
   }"

lemma net_input_handler_frame:
  assumes "net_input_handler type data len dev s = Some (r, s')"
  shows "dev_tab s' = dev_tab s \<and> rx s' = rx s \<and> writes s' = writes s \<and> devices s' = devices s \<and>
    next_index s' = next_index s \<and> host_order s' = host_order s \<and>
    map ptype (protocols s') = map ptype (protocols s) \<and> syscalls s' = syscalls s \<and>
    timers s' = timers s \<and> events s' = events s \<and> irqs s' = irqs s \<and> clock s' = clock s \<and>
    net.more s' = net.more s"
proof (cases "find_pos (\<lambda>p. ptype p = type) (protocols s)")
  case None
  then show ?thesis using assms by (simp add: net_input_handler_def)
next
  case (Some i)
  then have "map ptype ((protocols s)[i := (protocols s ! i)\<lparr>pqueue := q\<rparr>]) = map ptype (protocols s)" for q
    by (simp add: map_update list_update_same_conv find_pos_SomeD(1))
  then show ?thesis using assms Some
    by (auto simp: net_input_handler_def platform_defs Let_def bind_Some_iff qpush_def split: if_splits)
qed

lemma net_input_allocs:
  assumes "net_input_handler type data len dev s = Some (r, s')" "\<forall>n. allocs s n"
  shows "\<forall>n. allocs s' n"
proof -
  have "allocs s' \<in> {allocs s, advance (allocs s), advance (advance (allocs s))}"
  proof (cases "find_pos (\<lambda>p. ptype p = type) (protocols s)")
    case None
    then show ?thesis using assms(1) by (simp add: net_input_handler_def)
  next
    case (Some i)
    then show ?thesis using assms
      by (auto simp: net_input_handler_def platform_defs Let_def bind_Some_iff qpush_def advance_def)
  qed
  then show ?thesis using assms(2) by (auto simp: advance_def)
qed

text \<open>The loop of \<^verbatim>\<open>loopback_isr\<close>; the queue shrinks with every turn.\<close>

definition loopback_pending :: "dev_id \<Rightarrow> 'z net_scheme \<Rightarrow> loopback_queue_entry list" where
  "loopback_pending dev s = (case loopback_priv dev s of None \<Rightarrow> [] | Some (_, lo) \<Rightarrow> lo_queue lo)"

lemma loopback_pending_step:
  assumes "loopback_priv dev s = Some (d, lo)" "qpop (lo_queue lo) = (Some entry, q)"
    and "net_input_handler t data n dev (loopback_set_queue dev d lo q s) = Some (r, s')"
  shows "loopback_pending dev s = entry # loopback_pending dev s'"
proof -
  have "dev_tab s' = dev_tab (loopback_set_queue dev d lo q s)"
    using net_input_handler_frame [OF assms(3)] by simp
  then have "loopback_pending dev s' = q"
    by (simp add: loopback_pending_def loopback_priv_def loopback_set_queue_def)
  moreover have "lo_queue lo = entry # q"
    using assms(2) by (cases "lo_queue lo") auto
  ultimately show ?thesis using assms(1) by (simp add: loopback_pending_def)
qed

function loopback_isr_loop :: "dev_id \<Rightarrow> 'z net_scheme \<Rightarrow> 'z net_scheme option" where
  "loopback_isr_loop dev s =
     (case loopback_priv dev s of
        None \<Rightarrow> None
      | Some (d, lo) \<Rightarrow>
          (case qpop (lo_queue lo) of
             (None, _) \<Rightarrow> Some s
           | (Some entry, q) \<Rightarrow>
               (case net_input_handler (lo_type entry) (lo_data entry) (lo_len entry) dev
                       (loopback_set_queue dev d lo q s) of
                  None \<Rightarrow> None
                | Some (_, s) \<Rightarrow> loopback_isr_loop dev s)))"
  by pat_completeness auto
termination
  by (relation "measure (\<lambda>(dev, s). length (loopback_pending dev s))") (auto dest: loopback_pending_step [OF _ sym])

declare loopback_isr_loop.simps [simp del]

definition loopback_isr :: "nat \<Rightarrow> dev_id \<Rightarrow> 'z net_scheme \<Rightarrow> (int \<times> 'z net_scheme) option" where
  "loopback_isr i dev s = map_option (Pair 0) (loopback_isr_loop dev s)"

definition loopback_init :: "'z net_scheme \<Rightarrow> dev_id option \<times> 'z net_scheme" where
  "loopback_init s =
     (case net_device_alloc s of
        (None, s) \<Rightarrow> (None, s)
      | (Some d, s) \<Rightarrow>
          let d = d\<lparr>dev_type := NET_DEVICE_TYPE_LOOPBACK, mtu := LOOPBACK_MTU,
                    dev_flags := NET_DEVICE_FLAG_LOOPBACK, dev_hlen := 0, dev_alen := 0, ops := Loopback_ops\<rparr>;
              (dev, s) = net_device_register d s;
              (ok, s) = memory_alloc s
          in if \<not> ok then (None, s)
             else let d = the (dev_tab s dev);
                      lo = \<lparr>lo_irq = LOOPBACK_IRQ, lo_queue = []\<rparr>;
                      s = s\<lparr>dev_tab := (dev_tab s)(dev \<mapsto> d\<lparr>priv := Loopback lo\<rparr>)\<rparr>;
                      (_, s) = intr_request_irq LOOPBACK_IRQ Loopback_isr INTR_IRQ_SHARED (dev_name d) dev s
                  in (Some dev, s))"

subsection \<open>The tap device\<close>

definition ETHER_TAP_IRQ :: nat where "ETHER_TAP_IRQ = INTR_IRQ_BASE + 2"

definition ether_tap_priv :: "dev_id \<Rightarrow> 'z net_scheme \<Rightarrow> (net_device \<times> ether_tap) option" where
  "ether_tap_priv dev s =
     (case dev_tab s dev of
        None \<Rightarrow> None
      | Some d \<Rightarrow> (case priv d of Ether_tap tap \<Rightarrow> Some (d, tap) | _ \<Rightarrow> None))"

text \<open>
  \<^verbatim>\<open>ether_tap_addr\<close>: the hardware address that \<^verbatim>\<open>ioctl\<close> stores is the next of the environment's, in
  a structure of zeros.
\<close>

definition ether_tap_addr :: "dev_id \<Rightarrow> 'z net_scheme \<Rightarrow> (int \<times> 'z net_scheme) option" where
  "ether_tap_addr dev s = do {
     (d, tap) \<leftarrow> ether_tap_priv dev s;
     let (soc, s) = syscall s;
     if soc = -1 then Some (-1, s)
     else do {
       let (r, s) = syscall s;
       if r = -1 then Some (-1, s)
       else do {
         let sa_data = take 14 (hwaddrs s 0 @ replicate 14 0);
         hw \<leftarrow> rd_bytes sa_data 0 ETHER_ADDR_LEN;
         a \<leftarrow> wr_bytes (dev_addr d) 0 hw;
         Some (0, s\<lparr>hwaddrs := advance (hwaddrs s), dev_tab := (dev_tab s)(dev \<mapsto> d\<lparr>dev_addr := a\<rparr>)\<rparr>)
       }
     }
   }"

text \<open>The results of the four configuration calls after \<^verbatim>\<open>open\<close>; any failure ends it.\<close>

fun tap_configure :: "nat \<Rightarrow> 'z net_scheme \<Rightarrow> int \<times> 'z net_scheme" where
  "tap_configure 0 s = (0, s)"
| "tap_configure (Suc n) s =
     (let (r, s) = syscall s in if r = -1 then (-1, s) else tap_configure n s)"

definition ether_tap_open :: "dev_id \<Rightarrow> 'z net_scheme \<Rightarrow> (int \<times> 'z net_scheme) option" where
  "ether_tap_open dev s = do {
     (d, tap) \<leftarrow> ether_tap_priv dev s;
     let (fd, s) = syscall s;
     let s = s\<lparr>dev_tab := (dev_tab s)(dev \<mapsto> d\<lparr>priv := Ether_tap (tap\<lparr>tap_fd := fd\<rparr>)\<rparr>)\<rparr>;
     if fd = -1 then Some (-1, s)
     else do {
       let (r, s) = tap_configure 4 s;
       if r = -1 then Some (-1, s)
       else if take ETHER_ADDR_LEN (dev_addr d) = ETHER_ADDR_ANY then do {
         (r, s) \<leftarrow> ether_tap_addr dev s;
         if r = -1 then Some (-1, s) else Some (0, s)
       }
       else Some (0, s)
     }
   }"

definition ether_tap_close :: "dev_id \<Rightarrow> 'z net_scheme \<Rightarrow> (int \<times> 'z net_scheme) option" where
  "ether_tap_close dev s = do { (d, tap) \<leftarrow> ether_tap_priv dev s; Some (0, s) }"

definition ether_tap_write :: "dev_id \<Rightarrow> bytes \<Rightarrow> nat \<Rightarrow> 'z net_scheme \<Rightarrow> (int \<times> 'z net_scheme) option" where
  "ether_tap_write dev frame flen s = do {
     (d, tap) \<leftarrow> ether_tap_priv dev s;
     b \<leftarrow> rd_bytes frame 0 flen;
     let (r, s) = syscall s;
     Some (r, s\<lparr>writes := writes s @ [(dev, b, r)]\<rparr>)
   }"

definition ether_tap_transmit ::
  "dev_id \<Rightarrow> u16 \<Rightarrow> bytes \<Rightarrow> nat \<Rightarrow> bytes \<Rightarrow> 'z net_scheme \<Rightarrow> (int \<times> 'z net_scheme) option" where
  "ether_tap_transmit dev type buf len dst s = ether_transmit_helper dev type buf len dst ether_tap_write s"

text \<open>
  \<^verbatim>\<open>ether_tap_read\<close>: one read takes one frame, cut to the size of the buffer. It is called only
  when \<^verbatim>\<open>poll\<close> has found something to read.
\<close>

definition ether_tap_read ::
  "dev_id \<Rightarrow> nat \<Rightarrow> 'z net_scheme \<Rightarrow> (int \<times> bytes \<times> 'z net_scheme) option" where
  "ether_tap_read dev sz s = do {
     (d, tap) \<leftarrow> ether_tap_priv dev s;
     case rx s dev of
       Rx_frame f # rest \<Rightarrow>
         (let b = take sz f; s = s\<lparr>rx := (rx s)(dev := rest)\<rparr>
          in if length b = 0 then Some (-1, b, s) else Some (int (length b), b, s))
     | _ # rest \<Rightarrow> Some (-1, [], s\<lparr>rx := (rx s)(dev := rest)\<rparr>)
     | [] \<Rightarrow> Some (-1, [], s)
   }"

lemma ether_input_consumes:
  assumes "rx s dev = e # rest" "ether_input_helper dev ether_tap_read s = Some (r, s')"
  shows "rx s' dev = rest" and "dev_tab s' = dev_tab s" and "writes s' = writes s"
  using assms
  by (auto simp: ether_input_helper_def ether_tap_read_def bind_Some_iff Let_def
      dest!: net_input_handler_frame split: rx_event.splits if_splits)

function ether_tap_isr :: "nat \<Rightarrow> dev_id \<Rightarrow> 'z net_scheme \<Rightarrow> (int \<times> 'z net_scheme) option" where
  "ether_tap_isr i dev s =
     (case ether_tap_priv dev s of
        None \<Rightarrow> None
      | Some _ \<Rightarrow>
          (case rx s dev of
             [] \<Rightarrow> Some (0, s)
           | Poll_eintr # rest \<Rightarrow> ether_tap_isr i dev (s\<lparr>rx := (rx s)(dev := rest)\<rparr>)
           | Poll_error # rest \<Rightarrow> Some (-1, s\<lparr>rx := (rx s)(dev := rest)\<rparr>)
           | _ # rest \<Rightarrow>
               (case ether_input_helper dev ether_tap_read s of
                  None \<Rightarrow> None
                | Some (_, s) \<Rightarrow> ether_tap_isr i dev s)))"
  by pat_completeness auto
termination
  by (relation "measure (\<lambda>(i, dev, s). length (rx s dev))") (auto dest: ether_input_consumes(1))

declare ether_tap_isr.simps [simp del]

definition ether_tap_init :: "string \<Rightarrow> string option \<Rightarrow> 'z net_scheme \<Rightarrow> dev_id option \<times> 'z net_scheme" where
  "ether_tap_init name a s =
     (case net_device_alloc s of
        (None, s) \<Rightarrow> (None, s)
      | (Some d, s) \<Rightarrow>
          let d = ether_setup_helper d;
              (r, n) = (case a of None \<Rightarrow> (0, []) | Some p \<Rightarrow> ether_addr_pton p);
              d = d\<lparr>dev_addr := n @ drop (length n) (dev_addr d)\<rparr>
          in if r = -1 then (None, s)
             else let d = d\<lparr>ops := Ether_tap_ops\<rparr>;
                      (ok, s) = memory_alloc s
                  in if \<not> ok then (None, s)
                     else let tap = \<lparr>tap_name = take 15 name, tap_fd = -1, tap_irq = ETHER_TAP_IRQ\<rparr>;
                              (dev, s) = net_device_register (d\<lparr>priv := Ether_tap tap\<rparr>) s;
                              (_, s) = intr_request_irq (tap_irq tap) Ether_tap_isr INTR_IRQ_SHARED
                                         (dev_name (the (dev_tab s dev))) dev s
                          in (Some dev, s))"

end
