(* ===== verification/Device.thy ===== *)
theory Device
  imports Drivers
begin

text \<open>
  The operations of \<^verbatim>\<open>net.c\<close> that call a driver through \<^verbatim>\<open>dev->ops\<close>, and what the drivers and this
  layer guarantee together: transmission never leaves a buffer, the loopback device hands its
  packets to the protocols in order, and what a tap device writes is what another one takes in.
\<close>

section \<open>Model\<close>

text \<open>\<^verbatim>\<open>dev->ops->open\<close> and \<^verbatim>\<open>dev->ops->close\<close> are null but for the tap device.\<close>

definition ops_open :: "dev_ops \<Rightarrow> (dev_id \<Rightarrow> 'z net_scheme \<Rightarrow> (int \<times> 'z net_scheme) option) option" where
  "ops_open oo = (case oo of Ether_tap_ops \<Rightarrow> Some ether_tap_open | _ \<Rightarrow> None)"

definition ops_close :: "dev_ops \<Rightarrow> (dev_id \<Rightarrow> 'z net_scheme \<Rightarrow> (int \<times> 'z net_scheme) option) option" where
  "ops_close oo = (case oo of Ether_tap_ops \<Rightarrow> Some ether_tap_close | _ \<Rightarrow> None)"

definition ops_transmit ::
  "dev_ops \<Rightarrow> dev_id \<Rightarrow> u16 \<Rightarrow> bytes \<Rightarrow> nat \<Rightarrow> bytes \<Rightarrow> 'z net_scheme \<Rightarrow> (int \<times> 'z net_scheme) option" where
  "ops_transmit oo =
     (case oo of Dummy_ops \<Rightarrow> dummy_transmit | Loopback_ops \<Rightarrow> loopback_transmit
      | Ether_tap_ops \<Rightarrow> ether_tap_transmit)"

definition set_flags :: "dev_id \<Rightarrow> (u16 \<Rightarrow> u16) \<Rightarrow> 'z net_scheme \<Rightarrow> 'z net_scheme option" where
  "set_flags dev f s = do {
     d \<leftarrow> dev_tab s dev;
     Some (s\<lparr>dev_tab := (dev_tab s)(dev \<mapsto> d\<lparr>dev_flags := f (dev_flags d)\<rparr>)\<rparr>)
   }"

definition net_device_open :: "dev_id \<Rightarrow> 'z net_scheme \<Rightarrow> (int \<times> 'z net_scheme) option" where
  "net_device_open dev s = do {
     d \<leftarrow> dev_tab s dev;
     if NET_DEVICE_IS_UP d then Some (-1, s)
     else do {
       (r, s) \<leftarrow> (case ops_open (ops d) of None \<Rightarrow> Some (0, s) | Some op \<Rightarrow> op dev s);
       if r = -1 then Some (-1, s)
       else do {
         s \<leftarrow> set_flags dev (\<lambda>fl. fl OR NET_DEVICE_FLAG_UP) s;
         Some (0, s)
       }
     }
   }"

definition net_device_close :: "dev_id \<Rightarrow> 'z net_scheme \<Rightarrow> (int \<times> 'z net_scheme) option" where
  "net_device_close dev s = do {
     d \<leftarrow> dev_tab s dev;
     if \<not> NET_DEVICE_IS_UP d then Some (-1, s)
     else do {
       (r, s) \<leftarrow> (case ops_close (ops d) of None \<Rightarrow> Some (0, s) | Some op \<Rightarrow> op dev s);
       if r = -1 then Some (-1, s)
       else do {
         s \<leftarrow> set_flags dev (\<lambda>fl. fl AND NOT NET_DEVICE_FLAG_UP) s;
         Some (0, s)
       }
     }
   }"

definition net_device_output ::
  "dev_id \<Rightarrow> u16 \<Rightarrow> bytes \<Rightarrow> nat \<Rightarrow> bytes \<Rightarrow> 'z net_scheme \<Rightarrow> (int \<times> 'z net_scheme) option" where
  "net_device_output dev type data len dst s = do {
     d \<leftarrow> dev_tab s dev;
     if \<not> NET_DEVICE_IS_UP d then Some (-1, s)
     else if len > unat (mtu d) then Some (-1, s)
     else do {
       (r, s) \<leftarrow> ops_transmit (ops d) dev type data len dst s;
       if r = -1 then Some (-1, s) else Some (0, s)
     }
   }"

fun open_all :: "dev_id list \<Rightarrow> 'z net_scheme \<Rightarrow> 'z net_scheme option" where
  "open_all [] s = Some s"
| "open_all (dev # rest) s = do { (_, s) \<leftarrow> net_device_open dev s; open_all rest s }"

fun close_all :: "dev_id list \<Rightarrow> 'z net_scheme \<Rightarrow> 'z net_scheme option" where
  "close_all [] s = Some s"
| "close_all (dev # rest) s = do { (_, s) \<leftarrow> net_device_close dev s; close_all rest s }"

definition net_run :: "'z net_scheme \<Rightarrow> (int \<times> 'z net_scheme) option" where
  "net_run s =
     (let (r, s) = intr_run s
      in if r = -1 then Some (-1, s) else do { s \<leftarrow> open_all (devices s) s; Some (0, s) })"

definition net_shutdown :: "'z net_scheme \<Rightarrow> 'z net_scheme option" where
  "net_shutdown s = do { s \<leftarrow> close_all (devices s) s; Some (intr_shutdown s) }"

section \<open>Devices fit their drivers\<close>

text \<open>
  A device carries the private data its driver expects. The loopback queue stays within its limit
  and its entries hold as many bytes as they say; a tap device has a small enough MTU and an
  address of the right size.
\<close>

definition lo_entry_ok :: "loopback_queue_entry \<Rightarrow> bool" where
  "lo_entry_ok e \<longleftrightarrow> lo_len e = length (lo_data e)"

definition drv_ok :: "net_device \<Rightarrow> bool" where
  "drv_ok d \<longleftrightarrow> length (dev_addr d) = 16 \<and>
     (case ops d of
        Dummy_ops \<Rightarrow> True
      | Loopback_ops \<Rightarrow> (\<exists>lo. priv d = Loopback lo \<and> length (lo_queue lo) \<le> 16 \<and>
                           (\<forall>e \<in> set (lo_queue lo). lo_entry_ok e))
      | Ether_tap_ops \<Rightarrow> (\<exists>tap. priv d = Ether_tap tap) \<and> unat (mtu d) \<le> 1500)"

definition drvs_ok :: "'z net_scheme \<Rightarrow> bool" where
  "drvs_ok s \<longleftrightarrow> (\<forall>dev d. dev_tab s dev = Some d \<longrightarrow> drv_ok d)"

lemma drvs_okD: "drvs_ok s \<Longrightarrow> dev_tab s dev = Some d \<Longrightarrow> drv_ok d"
  by (simp add: drvs_ok_def)

lemma drvs_ok_update [intro]:
  "drvs_ok s \<Longrightarrow> drv_ok d \<Longrightarrow> dev_tab s' = (dev_tab s)(dev \<mapsto> d) \<Longrightarrow> drvs_ok s'"
  by (auto simp: drvs_ok_def)

lemma drvs_ok_cong: "dev_tab s' = dev_tab s \<Longrightarrow> drvs_ok s' = drvs_ok s"
  by (simp add: drvs_ok_def)

subsection \<open>Initialisation\<close>

lemma zero_device_simps [simp]:
  "ifaces zero_device = []" "length (dev_addr zero_device) = 16" "length (dev_broadcast zero_device) = 16"
  by (simp_all add: zero_device_def)

lemma request_irq_frame:
  assumes "intr_request_irq i h fl name dev s = (r, s')"
  shows "dev_tab s' = dev_tab s" "devices s' = devices s" "next_index s' = next_index s"
    "protocols s' = protocols s"
  using assms by (auto simp: intr_request_irq_def platform_defs Let_def split: if_splits)

lemma alloc_frame:
  assumes "net_device_alloc s = (r, s')"
  shows "dev_tab s' = dev_tab s" "devices s' = devices s" "next_index s' = next_index s"
    "protocols s' = protocols s" "\<And>d. r = Some d \<Longrightarrow> d = zero_device"
  using assms by (auto simp: net_device_alloc_def platform_defs split: if_splits)

lemma memory_alloc_frame:
  assumes "memory_alloc s = (ok, s')"
  shows "dev_tab s' = dev_tab s" "devices s' = devices s" "next_index s' = next_index s"
    "protocols s' = protocols s"
  using assms by (auto simp: platform_defs)

lemma register_dev_tab:
  assumes "net_device_register d s = (dev, s')"
  shows "dev_tab s' = (dev_tab s)(dev \<mapsto> d\<lparr>dev_index := dev, dev_name := take 15 (''net'' @ fmt_d dev)\<rparr>)"
  using assms by (auto simp: net_device_register_def Let_def)

lemma drv_ok_register:
  "drv_ok (d\<lparr>dev_index := i, dev_name := nm\<rparr>) = drv_ok d"
  by (simp add: drv_ok_def split: dev_ops.split)

text \<open>Registering a device that fits its driver keeps the tables well formed.\<close>

lemma register_ok:
  assumes "net_device_register d s = (dev, s')" "net_ok s" "drvs_ok s" "drv_ok d"
    and "length (dev_broadcast d) = 16" "ifaces d = []"
  shows "net_ok s'" and "drvs_ok s'"
proof -
  show "net_ok s'" using assms by (auto intro: net_ok_register simp: drv_ok_def)
  have "drv_ok (d\<lparr>dev_index := dev, dev_name := take 15 (''net'' @ fmt_d dev)\<rparr>)"
    using assms by (simp only: drv_ok_register)
  with assms(3) show "drvs_ok s'"
    using register_dev_tab [OF assms(1)] by (rule drvs_ok_update)
qed

lemma register_irq_ok:
  assumes "net_device_register d s = (dev, s1)" "intr_request_irq i h fl name dev s1 = (r, s2)"
    and "net_ok s" "drvs_ok s" "drv_ok d" "length (dev_broadcast d) = 16" "ifaces d = []"
  shows "net_ok s2 \<and> drvs_ok s2"
  using register_ok [OF assms(1) assms(3-)] request_irq_frame [OF assms(2)]
  by (simp add: net_ok_cong [of s2 s1] drvs_ok_cong [of s2 s1])

lemma memory_alloc_ok:
  assumes "memory_alloc s = (ok, s')"
  shows "net_ok s' = net_ok s" "drvs_ok s' = drvs_ok s"
  using memory_alloc_frame [OF assms] by (simp_all add: net_ok_cong [of s' s] drvs_ok_cong [of s' s])

lemma device_alloc_ok:
  assumes "net_device_alloc s = (r, s')"
  shows "net_ok s' = net_ok s" "drvs_ok s' = drvs_ok s"
  using alloc_frame [OF assms] by (simp_all add: net_ok_cong [of s' s] drvs_ok_cong [of s' s])

lemma dummy_init_ok:
  assumes "dummy_init s = (r, s')" "net_ok s" "drvs_ok s"
  shows "net_ok s' \<and> drvs_ok s'"
proof -
  obtain d s1 where alloc: "net_device_alloc s = (d, s1)" by (cases "net_device_alloc s")
  note ok = device_alloc_ok [OF alloc] alloc_frame(5) [OF alloc]
  show ?thesis
  proof (cases d)
    case None
    then show ?thesis using assms alloc ok by (simp add: dummy_init_def)
  next
    case (Some d0)
    then show ?thesis using assms alloc ok
      by (auto simp: dummy_init_def Let_def drv_ok_def split: prod.splits dest!: register_irq_ok)
  qed
qed

lemma length_pton_loop:
  "length n = i \<Longrightarrow> i \<le> 6 \<Longrightarrow> ether_pton_loop i p ep n = (j, e, m) \<Longrightarrow> length m \<le> 6"
proof (induction i p ep n arbitrary: j e m rule: ether_pton_loop.induct)
  case (1 i p ep n)
  obtain v ep' where st: "strtol 16 p = (v, ep')" by fastforce
  show ?case
    using 1(1) [OF _ st [symmetric] refl] 1(2-) st
    by (simp add: ether_pton_loop.simps [of i] split: if_splits)
qed

lemma length_ether_addr_pton: "ether_addr_pton p = (r, n) \<Longrightarrow> length n \<le> 6"
  using length_pton_loop [of "[]" 0 p p] by (auto simp: ether_addr_pton_def split: prod.splits)

lemma ether_tap_init_ok:
  assumes "ether_tap_init name a s = (r, s')" "net_ok s" "drvs_ok s"
  shows "net_ok s' \<and> drvs_ok s'"
proof -
  obtain d s1 where alloc: "net_device_alloc s = (d, s1)" by (cases "net_device_alloc s")
  note ok = device_alloc_ok [OF alloc] alloc_frame(5) [OF alloc]
  obtain q n where pton: "(case a of None \<Rightarrow> (0, []) | Some p \<Rightarrow> ether_addr_pton p) = (q, n)" by fastforce
  then have "length n \<le> 6" by (cases a) (auto dest: length_ether_addr_pton)
  moreover obtain al s2 where al: "memory_alloc s1 = (al, s2)" by fastforce
  moreover note memory_alloc_ok [OF al]
  ultimately show ?thesis using assms alloc ok pton
    by (cases d)
      (auto simp: ether_tap_init_def Let_def drv_ok_def ether_setup_helper_def ETHER_ADDR_BROADCAST_def
        split: prod.splits if_splits dest!: register_irq_ok)
qed

text \<open>
  A loopback device is well formed unless the allocation of its private data fails: then it stays
  registered without the data.
\<close>

lemma loopback_init_ok:
  assumes "loopback_init s = (r, s')" "net_ok s" "drvs_ok s" "r \<noteq> None"
  shows "net_ok s' \<and> drvs_ok s'"
proof -
  obtain d s1 where alloc: "net_device_alloc s = (d, s1)" by (cases "net_device_alloc s")
  note ok = device_alloc_ok [OF alloc] alloc_frame(5) [OF alloc]
  define d1 where "d1 = zero_device\<lparr>dev_type := NET_DEVICE_TYPE_LOOPBACK, mtu := LOOPBACK_MTU,
    dev_flags := NET_DEVICE_FLAG_LOOPBACK, dev_hlen := 0, dev_alen := 0, ops := Loopback_ops\<rparr>"
  have d: "d = Some zero_device"
    using assms alloc ok(3) by (cases d) (auto simp: loopback_init_def)
  obtain dev s2 where reg: "net_device_register d1 s1 = (dev, s2)" by (cases "net_device_register d1 s1")
  obtain al s3 where al: "memory_alloc s2 = (al, s3)" by fastforce
  define d2 where "d2 = d1\<lparr>dev_index := dev, dev_name := take 15 (''net'' @ fmt_d dev),
    priv := Loopback \<lparr>lo_irq = LOOPBACK_IRQ, lo_queue = []\<rparr>\<rparr>"
  define s4 where "s4 = s3\<lparr>dev_tab := (dev_tab s3)(dev \<mapsto> d2)\<rparr>"
  obtain q s5 where irq: "intr_request_irq LOOPBACK_IRQ Loopback_isr INTR_IRQ_SHARED
      (take 15 (''net'' @ fmt_d dev)) dev s4 = (q, s5)" by fastforce
  have tab: "dev_tab s3 = (dev_tab s1)(dev \<mapsto> d1\<lparr>dev_index := dev, dev_name := take 15 (''net'' @ fmt_d dev)\<rparr>)"
    using register_dev_tab [OF reg] memory_alloc_frame(1) [OF al] by simp
  have "net_ok s3"
    using net_ok_register [OF _ _ _ _ reg] memory_alloc_ok(1) [OF al] ok assms by (simp add: d1_def)
  then have "dev_ok dev d2"
    using net_okD(1) [of s3 dev] tab by (simp add: d2_def dev_ok_def)
  moreover have "dev_tab s3 dev \<noteq> None" using tab by simp
  ultimately have "net_ok s4"
    unfolding s4_def using \<open>net_ok s3\<close> by (intro net_ok_update)
  moreover have "drvs_ok s4"
    using drvs_ok_update [of s1 d2 s4 dev] assms ok tab by (simp add: s4_def d1_def d2_def drv_ok_def)
  moreover have "s' = s5"
    using assms(1,4) alloc d reg al irq tab
    by (auto simp: loopback_init_def Let_def d1_def d2_def s4_def split: if_splits)
  ultimately show ?thesis
    using request_irq_frame [OF irq] by (simp add: net_ok_cong [of s5 s4] drvs_ok_cong [of s5 s4])
qed

section \<open>Transmission\<close>

text \<open>
  What an output leaves alone: everything but the drivers' private data, the record of writes, the
  signals raised and the feeds of the allocator and the system calls.
\<close>

definition dev_static :: "net_device \<Rightarrow> net_device" where
  "dev_static d = d\<lparr>priv := No_priv\<rparr>"

definition output_frame :: "'z net_scheme \<Rightarrow> 'z net_scheme \<Rightarrow> bool" where
  "output_frame s s' \<longleftrightarrow>
     (\<forall>i. map_option dev_static (dev_tab s' i) = map_option dev_static (dev_tab s i)) \<and>
     devices s' = devices s \<and> next_index s' = next_index s \<and> protocols s' = protocols s \<and>
     timers s' = timers s \<and> events s' = events s \<and> rx s' = rx s \<and> hwaddrs s' = hwaddrs s \<and>
     host_order s' = host_order s \<and> clock s' = clock s \<and> randoms s' = randoms s \<and>
     cond_results s' = cond_results s \<and> irqs s' = irqs s \<and> sigmask s' = sigmask s \<and>
     started s' = started s \<and> net.more s' = net.more s"

lemma output_frame_refl [simp, intro]: "output_frame s s"
  by (simp add: output_frame_def)

lemma output_frame_trans [trans]: "output_frame s s' \<Longrightarrow> output_frame s' s'' \<Longrightarrow> output_frame s s''"
  by (simp add: output_frame_def)

lemma output_frame_dev:
  assumes "output_frame s s'" "dev_tab s dev = Some d"
  obtains d' where "dev_tab s' dev = Some d'" "ifaces d' = ifaces d" "dev_flags d' = dev_flags d"
    "mtu d' = mtu d" "dev_alen d' = dev_alen d" "dev_addr d' = dev_addr d" "dev_broadcast d' = dev_broadcast d"
    "dev_type d' = dev_type d" "ops d' = ops d" "dev_index d' = dev_index d"
proof -
  from assms obtain d' where d': "dev_tab s' dev = Some d'" "dev_static d' = dev_static d"
    unfolding output_frame_def by (metis map_option_eq_Some option.simps(9))
  have "ifaces d' = ifaces d" "dev_flags d' = dev_flags d" "mtu d' = mtu d" "dev_alen d' = dev_alen d"
    "dev_addr d' = dev_addr d" "dev_broadcast d' = dev_broadcast d" "dev_type d' = dev_type d" "ops d' = ops d"
    "dev_index d' = dev_index d"
    using d'(2) by (cases d; cases d'; simp add: dev_static_def)+
  with d'(1) show ?thesis by (rule that)
qed

lemma dev_ok_static: "dev_ok i (dev_static d) = dev_ok i d"
  by (simp add: dev_ok_def dev_static_def)

lemma output_frame_net_ok:
  assumes "output_frame s s'" "net_ok s"
  shows "net_ok s'"
proof -
  have tab: "map_option dev_static (dev_tab s' i) = map_option dev_static (dev_tab s i)" for i
    using assms(1) by (simp add: output_frame_def)
  then have none: "dev_tab s' i = None \<longleftrightarrow> dev_tab s i = None" for i
    by (metis option.map_disc_iff)
  have "i < next_index s' \<and> dev_ok i d" if "dev_tab s' i = Some d" for i d
  proof -
    from that tab [of i] obtain d0 where d0: "dev_tab s i = Some d0" "dev_static d0 = dev_static d"
      by (auto simp: map_option_case split: option.splits)
    then show ?thesis
      using net_okD(1,2) [OF assms(2) d0(1)] dev_ok_static [of i d] dev_ok_static [of i d0] assms(1)
      by (simp add: output_frame_def)
  qed
  then show ?thesis
    using assms none by (simp add: net_ok_def output_frame_def)
qed

lemma qnum_limit: "length q \<le> 16 \<Longrightarrow> LOOPBACK_QUEUE_LIMIT \<le> qnum q \<longleftrightarrow> length q = 16"
  by (auto simp: LOOPBACK_QUEUE_LIMIT_def qnum_def word_le_nat_alt)

lemma loopback_transmit_ok:
  assumes "drvs_ok s" "dev_tab s dev = Some d" "ops d = Loopback_ops" "len \<le> length data"
  shows "\<exists>r s'. loopback_transmit dev type data len dst s = Some (r, s') \<and> drvs_ok s' \<and> output_frame s s'"
proof -
  from assms obtain lo where lo: "priv d = Loopback lo" "length (lo_queue lo) \<le> 16"
      "\<forall>e \<in> set (lo_queue lo). lo_entry_ok e" and a: "length (dev_addr d) = 16"
    using drvs_okD [OF assms(1,2)] by (auto simp: drv_ok_def)
  let ?q = "lo_queue lo @ [\<lparr>lo_type = type, lo_len = len, lo_data = take len data\<rparr>]"
  have "drv_ok (d\<lparr>priv := Loopback (lo\<lparr>lo_queue := ?q\<rparr>)\<rparr>)" if "length (lo_queue lo) \<noteq> 16"
    using that lo a assms by (auto simp: drv_ok_def lo_entry_ok_def)
  moreover have "drv_ok (d\<lparr>priv := Loopback (lo\<lparr>lo_queue := lo_queue lo\<rparr>)\<rparr>)"
    using lo a assms by (auto simp: drv_ok_def)
  ultimately show ?thesis
    using assms lo
    by (auto simp: loopback_transmit_def loopback_priv_def loopback_set_queue_def platform_defs Let_def
        rd_bytes_def qpush_def qnum_limit output_frame_def dev_static_def drvs_ok_def)
qed

lemma ether_tap_transmit_ok:
  assumes "drvs_ok s" "dev_tab s dev = Some d" "ops d = Ether_tap_ops" "len \<le> length data" "len \<le> 1500"
    and "6 \<le> length dst"
  shows "\<exists>r s'. ether_tap_transmit dev type data len dst s = Some (r, s') \<and> drvs_ok s' \<and> output_frame s s' \<and>
    dev_tab s' = dev_tab s \<and>
    writes s' = writes s @ [(dev, ether_frame (take 6 dst) (take 6 (dev_addr d)) type (take len data), syscalls s 0)] \<and>
    r = (if syscalls s 0 = 14 + max (int len) 46 then 0 else -1)"
proof -
  let ?f = "ether_frame (take 6 dst) (take 6 (dev_addr d)) type (take len data)"
  from assms obtain tap where tap: "priv d = Ether_tap tap" and a: "length (dev_addr d) = 16"
    using drvs_okD [OF assms(1,2)] by (auto simp: drv_ok_def)
  have l: "length ?f = 14 + max len 46" using assms a by simp
  then have "rd_bytes (?f @ replicate (1514 - length ?f) 0) 0 (length ?f) = Some ?f"
    by (simp add: rd_bytes_def)
  then have "ether_tap_write dev (?f @ replicate (1514 - length ?f) 0) (length ?f) s =
      Some (syscalls s 0, s\<lparr>syscalls := advance (syscalls s), writes := writes s @ [(dev, ?f, syscalls s 0)]\<rparr>)"
    using assms tap by (simp add: ether_tap_write_def ether_tap_priv_def platform_defs)
  then show ?thesis
    using assms a l
    by (simp add: ether_tap_transmit_def ether_transmit_frame drvs_ok_def output_frame_def of_nat_max
        del: length_ether_frame)
qed

lemma net_device_output_ok:
  assumes "drvs_ok s" "dev_tab s dev = Some d" "len \<le> length data" "6 \<le> length dst"
  shows "\<exists>r s'. net_device_output dev type data len dst s = Some (r, s') \<and> r \<in> {0, -1} \<and> drvs_ok s' \<and>
    output_frame s s' \<and> (\<not> NET_DEVICE_IS_UP d \<or> unat (mtu d) < len \<longrightarrow> r = -1 \<and> s' = s)"
proof (cases "NET_DEVICE_IS_UP d \<and> len \<le> unat (mtu d)")
  case False
  then show ?thesis using assms by (auto simp: net_device_output_def)
next
  case True
  have "\<exists>r s'. ops_transmit (ops d) dev type data len dst s = Some (r, s') \<and> drvs_ok s' \<and> output_frame s s'"
  proof (cases "ops d")
    case Dummy_ops
    then show ?thesis using assms(1)
      by (simp add: ops_transmit_def dummy_transmit_def platform_defs drvs_ok_def output_frame_def)
  next
    case Loopback_ops
    then show ?thesis using loopback_transmit_ok [OF assms(1,2) _ assms(3)] by (simp add: ops_transmit_def)
  next
    case Ether_tap_ops
    moreover have "len \<le> 1500"
      using True drvs_okD [OF assms(1,2)] Ether_tap_ops by (simp add: drv_ok_def)
    ultimately show ?thesis
      using ether_tap_transmit_ok [OF assms(1,2) _ assms(3) _ assms(4)] by (fastforce simp: ops_transmit_def)
  qed
  then show ?thesis using True assms by (auto simp: net_device_output_def)
qed

text \<open>
  On devices that fit their drivers, an output whose data and destination address are readable
  never leaves a buffer: it returns 0 or -1, refuses what is longer than the MTU and what is given
  to a device that is down, keeps every device fitting its driver (the loopback queue within its
  limit) and touches nothing else of the state.
\<close>

theorem net_device_output_safe:
  assumes "drvs_ok s" "dev_tab s dev = Some d" "len \<le> length data" "6 \<le> length dst"
  shows "\<exists>r s'. net_device_output dev type data len dst s = Some (r, s') \<and> r \<in> {0, -1} \<and> drvs_ok s' \<and>
    output_frame s s' \<and> (\<not> NET_DEVICE_IS_UP d \<or> unat (mtu d) < len \<longrightarrow> r = -1 \<and> s' = s)"
  using assms by (rule net_device_output_ok)

text \<open>A loopback device and a tap device, both up, for evaluation.\<close>

definition lo_dev :: net_device where
  "lo_dev = zero_device\<lparr>mtu := LOOPBACK_MTU, dev_flags := NET_DEVICE_FLAG_LOOPBACK OR NET_DEVICE_FLAG_UP,
     ops := Loopback_ops, priv := Loopback \<lparr>lo_irq = LOOPBACK_IRQ, lo_queue = []\<rparr>\<rparr>"

definition tap_dev :: net_device where
  "tap_dev = (ether_setup_helper zero_device)\<lparr>dev_flags := NET_DEVICE_FLAG_NEED_ARP OR NET_DEVICE_FLAG_UP,
     dev_index := 1, ops := Ether_tap_ops, dev_addr := [2, 0, 0, 0, 0, 1] @ replicate 10 0,
     priv := Ether_tap \<lparr>tap_name = ''tap0'', tap_fd = 3, tap_irq = ETHER_TAP_IRQ\<rparr>\<rparr>"

definition dev_example :: net where
  "dev_example = net_example\<lparr>dev_tab := [0 \<mapsto> lo_dev, 1 \<mapsto> tap_dev], devices := [1, 0], next_index := 2\<rparr>"

lemma dev_example_simps:
  "dev_tab dev_example = [0 \<mapsto> lo_dev, 1 \<mapsto> tap_dev]" "allocs dev_example n" "syscalls dev_example n = 3"
  "drv_ok lo_dev" "drv_ok tap_dev" "NET_DEVICE_IS_UP lo_dev" "NET_DEVICE_IS_UP tap_dev"
  "mtu lo_dev = 0xffff" "mtu tap_dev = 1500" "drvs_ok dev_example"
  by (simp_all add: dev_example_def net_example_def lo_dev_def tap_dev_def drv_ok_def drvs_ok_def
      NET_DEVICE_IS_UP_def LOOPBACK_MTU_def ether_setup_helper_def)

theorem net_device_output_safe_witness:
  "drvs_ok dev_example \<and> dev_tab dev_example 1 = Some tap_dev \<and> 1501 \<le> length (replicate 1501 (0::u8)) \<and>
   net_device_output 1 0x0800 (replicate 1501 0) 1501 ETHER_ADDR_BROADCAST dev_example = Some (-1, dev_example)"
  using net_device_output_safe [where s = dev_example and dev = 1 and d = tap_dev and len = 1501 and
      data = "replicate 1501 0" and dst = ETHER_ADDR_BROADCAST and type = "0x0800"]
  by (simp add: dev_example_simps ETHER_ADDR_BROADCAST_def)

section \<open>Loopback delivery\<close>

definition lo_to_input :: "dev_id \<Rightarrow> loopback_queue_entry \<Rightarrow> net_protocol_queue_entry" where
  "lo_to_input dev e = \<lparr>qe_dev = dev, qe_len = lo_len e, qe_data = lo_data e\<rparr>"

lemma loopback_isr_loop_delivers:
  assumes "loopback_priv dev s \<noteq> None" "\<forall>n. allocs s n" "\<forall>e \<in> set (loopback_pending dev s). lo_entry_ok e"
  shows "\<exists>s'. loopback_isr_loop dev s = Some s' \<and> loopback_pending dev s' = [] \<and>
    (\<forall>t. proto_queue s' t = map_option (\<lambda>q. q @ map (lo_to_input dev)
       (filter (\<lambda>e. lo_type e = t) (loopback_pending dev s))) (proto_queue s t))"
  using assms
proof (induction dev s rule: loopback_isr_loop.induct)
  case (1 dev s)
  then obtain d lo where lo: "loopback_priv dev s = Some (d, lo)" by auto
  show ?case
  proof (cases "lo_queue lo")
    case Nil
    then show ?thesis using lo
      by (simp add: loopback_isr_loop.simps [of dev s] loopback_pending_def option.map_id0 flip: id_def)
  next
    case (Cons e q)
    let ?s1 = "loopback_set_queue dev d lo q s"
    have e: "lo_entry_ok e" and q: "\<forall>e \<in> set q. lo_entry_ok e"
      using 1(4) lo Cons by (simp_all add: loopback_pending_def)
    have al: "\<forall>n. allocs ?s1 n" and pq: "proto_queue ?s1 = proto_queue s"
      using 1(3) by (auto simp: loopback_set_queue_def proto_queue_def)
    obtain r s2 where s2: "net_input_handler (lo_type e) (lo_data e) (lo_len e) dev ?s1 = Some (r, s2)"
      and pq2: "proto_queue s2 = (if proto_queue s (lo_type e) = None then proto_queue s
        else (proto_queue s)(lo_type e \<mapsto> the (proto_queue s (lo_type e)) @ [lo_to_input dev e]))"
      using net_input_queues [of "lo_len e" "lo_data e" "lo_type e" dev ?s1] e al pq
      by (auto simp: lo_entry_ok_def lo_to_input_def split: if_splits)
    note fr = net_input_handler_frame [OF s2]
    have pend: "loopback_pending dev s = e # loopback_pending dev s2"
      using loopback_pending_step [OF lo _ s2] Cons by simp
    moreover have "loopback_priv dev s2 \<noteq> None"
      using fr by (simp add: loopback_priv_def loopback_set_queue_def)
    moreover have "\<forall>n. allocs s2 n" using s2 al by (rule net_input_allocs)
    ultimately obtain s' where s': "loopback_isr_loop dev s2 = Some s'" "loopback_pending dev s' = []"
      "\<forall>t. proto_queue s' t = map_option (\<lambda>q. q @ map (lo_to_input dev)
       (filter (\<lambda>e. lo_type e = t) (loopback_pending dev s2))) (proto_queue s2 t)"
      using 1(1) [OF lo refl _ refl s2 refl] Cons 1(4) by auto
    then have "loopback_isr_loop dev s = Some s'"
      using lo Cons s2 by (simp add: loopback_isr_loop.simps [of dev s])
    moreover have "proto_queue s' t = map_option (\<lambda>q. q @ map (lo_to_input dev)
       (filter (\<lambda>e. lo_type e = t) (loopback_pending dev s))) (proto_queue s t)" for t
      using s'(3) pend pq2 by (cases "proto_queue s t") (auto split: if_splits)
    ultimately show ?thesis using s'(2) by blast
  qed
qed

text \<open>
  The loopback interrupt handler terminates and, while memory lasts, empties the device's queue
  and appends its packets to the input queues of their protocols, in the order in which they were
  transmitted, each with the loopback device as its source.
\<close>

lemma loopback_isr_delivers:
  assumes "drvs_ok s" "dev_tab s dev = Some d" "ops d = Loopback_ops" "\<forall>n. allocs s n"
  shows "\<exists>s'. loopback_isr i dev s = Some (0, s') \<and> loopback_pending dev s' = [] \<and>
    (\<forall>t. proto_queue s' t = map_option (\<lambda>q. q @ map (lo_to_input dev)
       (filter (\<lambda>e. lo_type e = t) (loopback_pending dev s))) (proto_queue s t))"
proof -
  from assms obtain lo where "priv d = Loopback lo" "\<forall>e \<in> set (lo_queue lo). lo_entry_ok e"
    using drvs_okD [OF assms(1,2)] by (auto simp: drv_ok_def)
  then show ?thesis
    using loopback_isr_loop_delivers [of dev s] assms
    by (auto simp: loopback_isr_def loopback_priv_def loopback_pending_def)
qed

section \<open>Frames on the wire\<close>

lemma ether_input_total:
  assumes "drvs_ok s" "dev_tab s dev = Some d" "ops d = Ether_tap_ops"
  shows "\<exists>r s'. ether_input_helper dev ether_tap_read s = Some (r, s')"
proof -
  from assms obtain tap where tap: "ether_tap_priv dev s = Some (d, tap)"
    using drvs_okD [OF assms(1,2)] by (auto simp: drv_ok_def ether_tap_priv_def)
  then have "\<exists>n b s1. ether_tap_read dev 1514 s = Some (n, b, s1) \<and> dev_tab s1 = dev_tab s \<and>
      (n = -1 \<or> n = int (length b))"
    by (cases "rx s dev"; cases "hd (rx s dev)") (simp_all add: ether_tap_read_def Let_def)
  then obtain n b s1 where rd: "ether_tap_read dev 1514 s = Some (n, b, s1)" and tab: "dev_tab s1 = dev_tab s"
    and n: "n = -1 \<or> n = int (length b)" by blast
  show ?thesis
  proof (cases "n < 14")
    case True
    then show ?thesis using rd by (simp add: ether_input_helper_def)
  next
    case False
    then have "14 \<le> length b" "n = int (length b)" using n by auto
    moreover from this have "\<exists>r s'. net_input_handler t (drop 14 b) (length b - 14) dev s1 = Some (r, s')" for t
      using net_input_queues [of "length b - 14" "drop 14 b" t dev s1] by fastforce
    ultimately show ?thesis
      using rd tab assms(2) by (simp add: ether_input_helper_def rd_bytes_def rd16_def)
  qed
qed

lemma ether_tap_isr_total:
  assumes "drvs_ok s" "dev_tab s dev = Some d" "ops d = Ether_tap_ops"
  shows "\<exists>r s'. ether_tap_isr i dev s = Some (r, s') \<and> dev_tab s' = dev_tab s \<and> r \<in> {0, -1} \<and>
    (r = 0 \<longrightarrow> rx s' dev = []) \<and> (Poll_error \<notin> set (rx s dev) \<longrightarrow> r = 0)"
  using assms
proof (induction i dev s rule: ether_tap_isr.induct)
  case (1 i dev s)
  then obtain tap where tap: "ether_tap_priv dev s = Some (d, tap)"
    using drvs_okD [OF 1(4,5)] by (auto simp: drv_ok_def ether_tap_priv_def)
  obtain r1 s1 where in1: "ether_input_helper dev ether_tap_read s = Some (r1, s1)"
    using ether_input_total [OF 1(4-)] by blast
  note step = ether_tap_isr.simps [of i dev s]
  show ?case
  proof (cases "rx s dev")
    case Nil
    then show ?thesis using tap by (simp add: step)
  next
    case (Cons e rest)
    note fr = ether_input_consumes [OF Cons in1]
    have s1: "drvs_ok s1" "dev_tab s1 dev = Some d"
      using fr 1(4,5) by (simp_all add: drvs_ok_cong [of s1 s])
    show ?thesis
    proof (cases e)
      case Poll_eintr
      let ?s2 = "s\<lparr>rx := (rx s)(dev := rest)\<rparr>"
      have "drvs_ok ?s2" using 1(4) by (simp add: drvs_ok_def)
      then show ?thesis using 1(1) [OF tap Cons Poll_eintr] 1(5,6) tap Cons Poll_eintr by (simp add: step)
    next
      case Poll_error
      then show ?thesis using tap Cons by (simp add: step)
    next
      case Read_error
      then show ?thesis using 1(2) [OF tap Cons Read_error in1 refl s1 1(6)] tap Cons in1 fr by (simp add: step)
    next
      case (Rx_frame f)
      then show ?thesis using 1(3) [OF tap Cons Rx_frame in1 refl s1 1(6)] tap Cons in1 fr by (simp add: step)
    qed
  qed
qed

lemma tap_dev_simps: "ops tap_dev = Ether_tap_ops" "take 6 (dev_addr tap_dev) = [2, 0, 0, 0, 0, 1]"
  "dev_addr tap_dev = [2, 0, 0, 0, 0, 1] @ replicate 10 0"
  by (simp_all add: tap_dev_def)

text \<open>
  C26. A packet that one tap device writes completely is a frame that another tap device, whose
  address is the destination or which takes it as a broadcast, hands to its protocol input with
  the same type and the same bytes, padded with zeros to 46 bytes.
\<close>

theorem ethernet_delivers:
  assumes "drvs_ok s" "dev_tab s dev = Some d" "ops d = Ether_tap_ops" "NET_DEVICE_IS_UP d"
    and "len \<le> length data" "len \<le> unat (mtu d)" "6 \<le> length dst"
    and "syscalls s 0 = 14 + max (int len) 46"
    and "drvs_ok s2" "dev_tab s2 dev2 = Some d2" "ops d2 = Ether_tap_ops"
    and "take 6 dst \<in> {take 6 (dev_addr d2), ETHER_ADDR_BROADCAST}"
    and f_def: "f = ether_frame (take 6 dst) (take 6 (dev_addr d)) type (take len data)"
    and rx: "rx s2 dev2 = [Rx_frame f]"
  shows "\<exists>s'. net_device_output dev type data len dst s = Some (0, s') \<and>
    writes s' = writes s @ [(dev, f, int (length f))] \<and>
    ether_tap_isr i dev2 s2 =
      map_option (\<lambda>(r, s'). (0, s'))
        (net_input_handler type (take len data @ replicate (46 - len) 0) (max len 46) dev2
           (s2\<lparr>rx := (rx s2)(dev2 := [])\<rparr>))"
proof -
  let ?src = "take 6 (dev_addr d)"
  have d: "length (dev_addr d) = 16" "unat (mtu d) \<le> 1500"
    using drvs_okD [OF assms(1,2)] assms(3) by (simp_all add: drv_ok_def)
  with assms have f: "length f = 14 + max len 46" "length f \<le> 1514" by (simp_all add: f_def)
  obtain s' where s': "ether_tap_transmit dev type data len dst s = Some (0, s')"
    "writes s' = writes s @ [(dev, f, syscalls s 0)]"
    using ether_tap_transmit_ok [OF assms(1-3,5) _ assms(7), of type] assms(6,8) d by (auto simp: f_def)
  then have out: "net_device_output dev type data len dst s = Some (0, s')"
    using assms by (simp add: net_device_output_def ops_transmit_def)
  have "ether_tap_isr i dev2 s2 =
        map_option (\<lambda>(r, s'). (0, s'))
          (net_input_handler type (take len data @ replicate (46 - len) 0) (max len 46) dev2
             (s2\<lparr>rx := (rx s2)(dev2 := [])\<rparr>))"
  proof -
    let ?s3 = "s2\<lparr>rx := (rx s2)(dev2 := [])\<rparr>"
    from assms obtain tap where tap: "ether_tap_priv dev2 s2 = Some (d2, tap)"
      using drvs_okD [OF assms(9,10)] by (auto simp: drv_ok_def ether_tap_priv_def)
    have "ether_tap_read dev2 1514 s2 = Some (int (length f), f, ?s3)"
      using tap rx f by (auto simp: ether_tap_read_def Let_def)
    then have inp: "ether_input_helper dev2 ether_tap_read s2 =
        net_input_handler type (take len data @ replicate (46 - len) 0) (max len 46) dev2 ?s3"
      using ether_input_frame [of ?s3 dev2 d2 "take 6 dst" ?src ether_tap_read s2 f type "take len data"]
        assms d f_def by auto
    have "ether_tap_isr i dev2 s4 = Some (0, s4)"
      if "net_input_handler type (take len data @ replicate (46 - len) 0) (max len 46) dev2 ?s3 = Some (r, s4)" for r s4
      using net_input_handler_frame [OF that] tap
      by (auto simp: ether_tap_isr.simps [of i dev2 s4] ether_tap_priv_def)
    then show ?thesis
      using tap rx inp by (auto simp: ether_tap_isr.simps [of i dev2 s2] split: option.splits)
  qed
  with out s'(2) f(1) assms(8) show ?thesis by simp
qed

definition wire_example :: net where
  "wire_example = dev_example\<lparr>syscalls := (\<lambda>_. 60),
     rx := (\<lambda>_. [Rx_frame (ether_frame ETHER_ADDR_BROADCAST [2, 0, 0, 0, 0, 1] 0x0806 [1, 2, 3])])\<rparr>"

lemma wire_example_simps:
  "drvs_ok wire_example" "dev_tab wire_example 1 = Some tap_dev" "syscalls wire_example 0 = 60"
  "rx wire_example 1 = [Rx_frame (ether_frame ETHER_ADDR_BROADCAST [2, 0, 0, 0, 0, 1] 0x0806 [1, 2, 3])]"
  "writes wire_example = []"
  using dev_example_simps(10)
  by (simp_all add: wire_example_def drvs_ok_def dev_example_simps)
    (simp add: dev_example_def net_example_def)

theorem ethernet_delivers_witness:
  "\<exists>s'. net_device_output 1 0x0806 [1, 2, 3] 3 ETHER_ADDR_BROADCAST wire_example = Some (0, s') \<and>
    map fst (writes s') = [1] \<and>
    ether_tap_isr 37 1 wire_example = map_option (\<lambda>(r, s'). (0, s'))
      (net_input_handler 0x0806 ([1, 2, 3] @ replicate 43 0) 46 1 (wire_example\<lparr>rx := (rx wire_example)(1 := [])\<rparr>))"
  using ethernet_delivers [where s = wire_example and dev = 1 and d = tap_dev and len = 3 and data = "[1, 2, 3]"
      and dst = ETHER_ADDR_BROADCAST and ?s2.0 = wire_example and ?dev2.0 = 1 and ?d2.0 = tap_dev and type = "0x0806"
      and i = 37 and f = "ether_frame ETHER_ADDR_BROADCAST [2, 0, 0, 0, 0, 1] 0x0806 [1, 2, 3]"]
  by (auto simp: wire_example_simps dev_example_simps tap_dev_simps ETHER_ADDR_BROADCAST_def
      simp del: One_nat_def)

end
