(* ===== verification/Arp.thy ===== *)
theory Arp
  imports Device
begin

text \<open>
  Address resolution, \<^verbatim>\<open>arp.c\<close>: the cache of 32 entries, requests and replies, resolution, input
  and the expiry timer. An entry's state is kept as the number the code stores, since the code
  also stores a resolution result there. A position in the cache stands for a pointer to an entry.
\<close>

section \<open>Model\<close>

definition ARP_HRD_ETHER :: u16 where [simp]: "ARP_HRD_ETHER = 0x0001"
definition ETHER_TYPE_IP :: u16 where [simp]: "ETHER_TYPE_IP = 0x0800"
definition ETHER_TYPE_ARP :: u16 where [simp]: "ETHER_TYPE_ARP = 0x0806"
definition ARP_PRO_IP :: u16 where [simp]: "ARP_PRO_IP = ETHER_TYPE_IP"
definition ARP_OP_REQUEST :: u16 where [simp]: "ARP_OP_REQUEST = 1"
definition ARP_OP_REPLY :: u16 where [simp]: "ARP_OP_REPLY = 2"
definition ARP_CACHE_SIZE :: nat where [simp]: "ARP_CACHE_SIZE = 32"
definition ARP_CACHE_TIMEOUT :: int where [simp]: "ARP_CACHE_TIMEOUT = 30"
definition ARP_CACHE_STATE_FREE :: u8 where [simp]: "ARP_CACHE_STATE_FREE = 0"
definition ARP_CACHE_STATE_INCOMPLETE :: u8 where [simp]: "ARP_CACHE_STATE_INCOMPLETE = 1"
definition ARP_CACHE_STATE_RESOLVED :: u8 where [simp]: "ARP_CACHE_STATE_RESOLVED = 2"
definition ARP_CACHE_STATE_STATIC :: u8 where [simp]: "ARP_CACHE_STATE_STATIC = 3"
definition ARP_RESOLVE_ERROR :: int where [simp]: "ARP_RESOLVE_ERROR = -1"
definition ARP_RESOLVE_INCOMPLETE :: int where [simp]: "ARP_RESOLVE_INCOMPLETE = 0"
definition ARP_RESOLVE_FOUND :: int where [simp]: "ARP_RESOLVE_FOUND = 1"
definition IP_ADDR_LEN :: nat where [simp]: "IP_ADDR_LEN = 4"

record arp_cache =
  cstate :: u8
  cache_pa :: u32
  cache_ha :: bytes
  timestamp :: timeval

record arp = net +
  caches :: "arp_cache list"

definition arp_cache_delete :: "arp_cache \<Rightarrow> arp_cache" where
  "arp_cache_delete cache =
     cache\<lparr>cstate := ARP_CACHE_STATE_FREE, cache_pa := 0, cache_ha := replicate ETHER_ADDR_LEN 0,
           timestamp := timerclear\<rparr>"

text \<open>
  The loop of \<^verbatim>\<open>arp_cache_alloc\<close> over the entries from position \<open>i\<close> on: \<^term>\<open>Inl\<close> of a free entry, or \<^term>\<open>Inr\<close>
  of the oldest one.
\<close>

fun arp_alloc_loop :: "arp_cache list \<Rightarrow> nat option \<Rightarrow> nat \<Rightarrow> arp_cache list \<Rightarrow> nat + nat option" where
  "arp_alloc_loop cs oldest i [] = Inr oldest"
| "arp_alloc_loop cs oldest i (entry # rest) =
     (if cstate entry = ARP_CACHE_STATE_FREE then Inl i
      else let oldest = (case oldest of
                           None \<Rightarrow> Some i
                         | Some o' \<Rightarrow> if timercmp_less (timestamp entry) (timestamp (cs ! o')) then Some i else oldest)
           in arp_alloc_loop cs oldest (Suc i) rest)"

definition arp_cache_alloc :: "arp_cache list \<Rightarrow> (nat \<times> arp_cache list) option" where
  "arp_cache_alloc cs =
     (case arp_alloc_loop cs None 0 cs of
        Inl i \<Rightarrow> Some (i, cs)
      | Inr None \<Rightarrow> None
      | Inr (Some i) \<Rightarrow> Some (i, cs[i := arp_cache_delete (cs ! i)]))"

definition arp_cache_select :: "u32 \<Rightarrow> arp_cache list \<Rightarrow> nat option" where
  "arp_cache_select pa cs =
     find_pos (\<lambda>entry. cstate entry \<noteq> ARP_CACHE_STATE_FREE \<and> cache_pa entry = pa) cs"

definition arp_cache_update :: "u32 \<Rightarrow> bytes \<Rightarrow> 'z arp_scheme \<Rightarrow> (nat option \<times> 'z arp_scheme) option" where
  "arp_cache_update pa ha s =
     (case arp_cache_select pa (caches s) of
        None \<Rightarrow> Some (None, s)
      | Some i \<Rightarrow> do {
          h \<leftarrow> rd_bytes ha 0 ETHER_ADDR_LEN;
          let (now, s) = gettimeofday s;
          Some (Some i, s\<lparr>caches := (caches s)[i := (caches s ! i)\<lparr>cstate := ARP_CACHE_STATE_RESOLVED,
                                                 cache_ha := h, timestamp := now\<rparr>]\<rparr>)
        })"

definition arp_cache_insert :: "u32 \<Rightarrow> bytes \<Rightarrow> 'z arp_scheme \<Rightarrow> (nat \<times> 'z arp_scheme) option" where
  "arp_cache_insert pa ha s = do {
     (i, cs) \<leftarrow> arp_cache_alloc (caches s);
     h \<leftarrow> rd_bytes ha 0 ETHER_ADDR_LEN;
     let (now, s) = gettimeofday s;
     Some (i, s\<lparr>caches := cs[i := (cs ! i)\<lparr>cstate := ARP_CACHE_STATE_RESOLVED, cache_pa := pa,
                                    cache_ha := h, timestamp := now\<rparr>]\<rparr>)
   }"

text \<open>The bytes of \<^verbatim>\<open>struct arp_ether_ip\<close>, the addresses as they are in memory.\<close>

definition arp_ether_ip :: "host \<Rightarrow> u16 \<Rightarrow> bytes \<Rightarrow> u32 \<Rightarrow> bytes \<Rightarrow> u32 \<Rightarrow> bytes" where
  "arp_ether_ip h op sha spa tha tpa =
     store16 h (hton16 h ARP_HRD_ETHER) @ store16 h (hton16 h ARP_PRO_IP) @
     [mk8 ETHER_ADDR_LEN, mk8 IP_ADDR_LEN] @ store16 h (hton16 h op) @
     sha @ store32 h spa @ tha @ store32 h tpa"

definition arp_request :: "ip_iface \<Rightarrow> u32 \<Rightarrow> 'z arp_scheme \<Rightarrow> (int \<times> 'z arp_scheme) option" where
  "arp_request iface tpa s = do {
     d \<leftarrow> dev_tab s (iface_dev iface);
     sha \<leftarrow> rd_bytes (dev_addr d) 0 ETHER_ADDR_LEN;
     let request = arp_ether_ip (host_order s) ARP_OP_REQUEST sha (unicast iface) (replicate ETHER_ADDR_LEN 0) tpa;
     net_device_output (iface_dev iface) ETHER_TYPE_ARP request (length request) (dev_broadcast d) s
   }"

definition arp_reply :: "ip_iface \<Rightarrow> bytes \<Rightarrow> u32 \<Rightarrow> bytes \<Rightarrow> 'z arp_scheme \<Rightarrow> (int \<times> 'z arp_scheme) option" where
  "arp_reply iface tha tpa dst s = do {
     d \<leftarrow> dev_tab s (iface_dev iface);
     sha \<leftarrow> rd_bytes (dev_addr d) 0 ETHER_ADDR_LEN;
     tha \<leftarrow> rd_bytes tha 0 ETHER_ADDR_LEN;
     let reply = arp_ether_ip (host_order s) ARP_OP_REPLY sha (unicast iface) tha tpa;
     net_device_output (iface_dev iface) ETHER_TYPE_ARP reply (length reply) dst s
   }"

text \<open>\<^verbatim>\<open>arp_resolve\<close>: the result, the caller's address buffer, and the state.\<close>

definition arp_resolve ::
  "ip_iface \<Rightarrow> u32 \<Rightarrow> bytes \<Rightarrow> 'z arp_scheme \<Rightarrow> (int \<times> bytes \<times> 'z arp_scheme) option" where
  "arp_resolve iface pa ha s = do {
     d \<leftarrow> dev_tab s (iface_dev iface);
     if dev_type d \<noteq> NET_DEVICE_TYPE_ETHERNET then Some (ARP_RESOLVE_ERROR, ha, s)
     else if family iface \<noteq> NET_IFACE_FAMILY_IP then Some (ARP_RESOLVE_ERROR, ha, s)
     else case arp_cache_select pa (caches s) of
       None \<Rightarrow> do {
         (i, cs) \<leftarrow> arp_cache_alloc (caches s);
         let (now, s) = gettimeofday s;
         let s = s\<lparr>caches := cs[i := (cs ! i)\<lparr>cstate := mk8 (nat ARP_RESOLVE_INCOMPLETE), cache_pa := pa,
                                      timestamp := now\<rparr>]\<rparr>;
         (_, s) \<leftarrow> arp_request iface pa s;
         Some (ARP_RESOLVE_INCOMPLETE, ha, s)
       }
     | Some i \<Rightarrow>
         if cstate (caches s ! i) = ARP_CACHE_STATE_INCOMPLETE then do {
           (_, s) \<leftarrow> arp_request iface pa s;
           Some (ARP_RESOLVE_INCOMPLETE, ha, s)
         }
         else do {
           ha \<leftarrow> wr_bytes ha 0 (cache_ha (caches s ! i));
           Some (ARP_RESOLVE_FOUND, ha, s)
         }
   }"

definition arp_input :: "bytes \<Rightarrow> nat \<Rightarrow> dev_id \<Rightarrow> 'z arp_scheme \<Rightarrow> 'z arp_scheme option" where
  "arp_input data len dev s =
     (if len < 28 then Some s
      else do {
        let h = host_order s;
        hrd \<leftarrow> rd16 h data 0;
        pro \<leftarrow> rd16 h data 2;
        hln \<leftarrow> rd8 data 4;
        pln \<leftarrow> rd8 data 5;
        op \<leftarrow> rd16 h data 6;
        sha \<leftarrow> rd_bytes data 8 ETHER_ADDR_LEN;
        spa \<leftarrow> rd32 h data 14;
        tpa \<leftarrow> rd32 h data 24;
        if ntoh16 h hrd \<noteq> ARP_HRD_ETHER \<or> hln \<noteq> mk8 ETHER_ADDR_LEN then Some s
        else if ntoh16 h pro \<noteq> ARP_PRO_IP \<or> pln \<noteq> mk8 IP_ADDR_LEN then Some s
        else do {
          (updated, s) \<leftarrow> arp_cache_update spa sha s;
          d \<leftarrow> dev_tab s dev;
          case net_device_get_iface d NET_IFACE_FAMILY_IP of
            None \<Rightarrow> Some s
          | Some iface \<Rightarrow>
              if unicast iface = tpa then do {
                s \<leftarrow> (if updated = None then map_option snd (arp_cache_insert spa sha s) else Some s);
                if ntoh16 h op = ARP_OP_REQUEST
                then map_option snd (arp_reply iface sha spa sha s)
                else Some s
              }
              else Some s
        }
      })"

definition arp_timer_handler :: "'z arp_scheme \<Rightarrow> 'z arp_scheme" where
  "arp_timer_handler s =
     (let (now, s) = gettimeofday s
      in s\<lparr>caches := map (\<lambda>entry.
             if cstate entry \<noteq> ARP_CACHE_STATE_FREE \<and> cstate entry \<noteq> ARP_CACHE_STATE_STATIC \<and>
                tv_sec (timersub now (timestamp entry)) > ARP_CACHE_TIMEOUT
             then arp_cache_delete entry else entry) (caches s)\<rparr>)"

definition arp_init :: "'z arp_scheme \<Rightarrow> int \<times> 'z arp_scheme" where
  "arp_init s =
     (let (r, s) = net_protocol_register NET_PROTOCOL_TYPE_ARP Arp_input s
      in if r = -1 then (-1, s)
         else let (r, s) = net_timer_register \<lparr>tv_sec = 1, tv_usec = 0\<rparr> Arp_timer_handler s
              in if r = -1 then (-1, s) else (0, s))"

section \<open>The cache\<close>

text \<open>
  The cache as the map it stands for, and its invariant: 32 entries, free or resolved, each with an
  address of six bytes, at most one of them for a protocol address.
\<close>

definition entry_for :: "u32 \<Rightarrow> arp_cache \<Rightarrow> bool" where
  "entry_for pa e \<longleftrightarrow> cstate e \<noteq> ARP_CACHE_STATE_FREE \<and> cache_pa e = pa"

definition arp_lookup :: "arp_cache list \<Rightarrow> u32 \<Rightarrow> bytes option" where
  "arp_lookup cs pa = map_option (\<lambda>i. cache_ha (cs ! i)) (arp_cache_select pa cs)"

definition arp_ok :: "arp_cache list \<Rightarrow> bool" where
  "arp_ok cs \<longleftrightarrow> length cs = ARP_CACHE_SIZE \<and>
     (\<forall>e \<in> set cs. length (cache_ha e) = 6 \<and> cstate e \<in> {ARP_CACHE_STATE_FREE, ARP_CACHE_STATE_RESOLVED}) \<and>
     (\<forall>i < length cs. \<forall>j < length cs. entry_for (cache_pa (cs ! i)) (cs ! j) \<longrightarrow>
        entry_for (cache_pa (cs ! i)) (cs ! i) \<longrightarrow> i = j)"

lemma select_def': "arp_cache_select pa cs = find_pos (entry_for pa) cs"
proof -
  have "entry_for pa = (\<lambda>e. cstate e \<noteq> ARP_CACHE_STATE_FREE \<and> cache_pa e = pa)"
    by (simp add: fun_eq_iff entry_for_def)
  then show ?thesis by (simp add: arp_cache_select_def)
qed

lemma arp_ok_entry: "arp_ok cs \<Longrightarrow> e \<in> set cs \<Longrightarrow> length (cache_ha e) = 6 \<and> cstate e \<in> {0, 2}"
  by (simp add: arp_ok_def)

lemma arp_ok_unique:
  "arp_ok cs \<Longrightarrow> i < length cs \<Longrightarrow> j < length cs \<Longrightarrow> entry_for pa (cs ! i) \<Longrightarrow> entry_for pa (cs ! j) \<Longrightarrow> i = j"
  unfolding arp_ok_def entry_for_def by blast

lemma arp_select_iff:
  "arp_ok cs \<Longrightarrow> arp_cache_select pa cs = Some i \<longleftrightarrow> i < length cs \<and> entry_for pa (cs ! i)"
  unfolding select_def' find_pos_Some_iff
proof (intro iffI conjI allI impI; elim conjE)
  fix j
  assume ok: "arp_ok cs" and i: "i < length cs" "entry_for pa (cs ! i)" and j: "j < i"
  show "\<not> entry_for pa (cs ! j)"
  proof
    assume "entry_for pa (cs ! j)"
    with i j have "j = i" by (intro arp_ok_unique [OF ok]) simp_all
    with j show False by simp
  qed
qed

lemma arp_select_None: "arp_cache_select pa cs = None \<longleftrightarrow> (\<forall>j < length cs. \<not> entry_for pa (cs ! j))"
  by (simp add: select_def' find_pos_None all_set_conv_all_nth)

lemma arp_lookup_iff:
  "arp_ok cs \<Longrightarrow> arp_lookup cs pa = Some ha \<longleftrightarrow> (\<exists>i < length cs. entry_for pa (cs ! i) \<and> cache_ha (cs ! i) = ha)"
  by (simp add: arp_lookup_def arp_select_iff)

lemma arp_lookup_None: "arp_lookup cs pa = None \<longleftrightarrow> (\<forall>j < length cs. \<not> entry_for pa (cs ! j))"
  by (simp add: arp_lookup_def arp_select_None)

text \<open>Storing a resolved entry for an address that has no other entry.\<close>

lemma arp_ok_store:
  assumes "arp_ok cs" "i < length cs" "length (cache_ha e) = 6" "cstate e \<in> {0, 2}"
    and "\<And>j. j < length cs \<Longrightarrow> j \<noteq> i \<Longrightarrow> \<not> (entry_for (cache_pa e) e \<and> entry_for (cache_pa e) (cs ! j))"
  shows "arp_ok (cs[i := e])"
proof -
  let ?cs = "cs[i := e]"
  have "j = k" if "j < length ?cs" "k < length ?cs" "entry_for (cache_pa (?cs ! j)) (?cs ! k)"
    "entry_for (cache_pa (?cs ! j)) (?cs ! j)" for j k
  proof -
    have pa: "cache_pa (?cs ! k) = cache_pa (?cs ! j)"
      using that(3) by (simp add: entry_for_def)
    consider "j = i" "k = i" | "j = i" "k \<noteq> i" | "j \<noteq> i" "k = i" | "j \<noteq> i" "k \<noteq> i" by blast
    then show ?thesis
    proof cases
      case 2
      then show ?thesis using assms(5) [of k] that assms(2) by simp
    next
      case 3
      then show ?thesis using assms(5) [of j] that assms(2) pa by (auto simp: entry_for_def)
    next
      case 4
      then show ?thesis using arp_ok_unique [OF assms(1), of j k "cache_pa (cs ! j)"] that by simp
    qed simp
  qed
  moreover have "length (cache_ha e') = 6 \<and> cstate e' \<in> {0, 2}" if "e' \<in> set ?cs" for e'
  proof -
    have "e' = e \<or> e' \<in> set cs" using that set_list_update [OF assms(2), of e] by blast
    then show ?thesis using arp_ok_entry [OF assms(1)] assms(3,4) by auto
  qed
  ultimately show ?thesis using assms(1) by (simp add: arp_ok_def)
qed

lemma option_eqI: "(\<And>x. a = Some x \<longleftrightarrow> b = Some x) \<Longrightarrow> a = b"
  by (cases a; cases b) auto

lemma arp_lookup_store:
  assumes "arp_ok cs" "arp_ok (cs[i := e])" "i < length cs" "cstate e \<noteq> 0"
  shows "arp_lookup (cs[i := e]) pa =
    (if pa = cache_pa e then Some (cache_ha e)
     else if entry_for pa (cs ! i) then None else arp_lookup cs pa)"
proof (cases "pa = cache_pa e")
  case True
  then have "arp_cache_select pa (cs[i := e]) = Some i"
    using assms by (simp add: arp_select_iff entry_for_def)
  then show ?thesis using True assms(3) by (simp add: arp_lookup_def)
next
  case False
  then have e: "\<not> entry_for pa e" by (simp add: entry_for_def)
  have same: "entry_for pa (cs[i := e] ! j) = (j \<noteq> i \<and> entry_for pa (cs ! j))" if "j < length cs" for j
    using e assms(3) that by (cases "j = i") simp_all
  show ?thesis
  proof (cases "entry_for pa (cs ! i)")
    case True
    have "\<not> entry_for pa (cs[i := e] ! j)" if "j < length cs" for j
      using same [OF that] arp_ok_unique [OF assms(1) that assms(3)] True by blast
    then show ?thesis using True False by (simp add: arp_lookup_None)
  next
    case no: False
    have "arp_cache_select pa (cs[i := e]) = Some j \<longleftrightarrow> arp_cache_select pa cs = Some j \<and> j \<noteq> i" for j
      using same [of j] no by (auto simp: arp_select_iff [OF assms(1)] arp_select_iff [OF assms(2)])
    moreover have "arp_cache_select pa cs \<noteq> Some i" using no by (simp add: arp_select_iff [OF assms(1)])
    ultimately have "arp_cache_select pa (cs[i := e]) = arp_cache_select pa cs"
      by (intro option_eqI) auto
    moreover have "k \<noteq> i" if "arp_cache_select pa cs = Some k" for k
      using that no by (auto simp: arp_select_iff [OF assms(1)])
    ultimately have "arp_lookup (cs[i := e]) pa = arp_lookup cs pa"
      by (cases "arp_cache_select pa cs") (simp_all add: arp_lookup_def)
    then show ?thesis using no False by simp
  qed
qed

subsection \<open>Choosing an entry\<close>

lemma timercmp_less_neg_trans:
  assumes "timercmp_less b c" "\<not> timercmp_less a c"
  shows "\<not> timercmp_less a b"
  using assms unfolding timercmp_less_def
  by (cases "tv_sec a = tv_sec b"; cases "tv_sec b = tv_sec c"; cases "tv_sec a = tv_sec c") simp_all

lemma timercmp_less_irrefl [simp]: "\<not> timercmp_less a a"
  by (simp add: timercmp_less_def)

definition oldest_before :: "arp_cache list \<Rightarrow> nat \<Rightarrow> nat option \<Rightarrow> bool" where
  "oldest_before cs n r \<longleftrightarrow>
     (case r of None \<Rightarrow> n = 0
      | Some k \<Rightarrow> k < n \<and> (\<forall>j < n. \<not> timercmp_less (timestamp (cs ! j)) (timestamp (cs ! k))))"

lemma oldest_before_step:
  assumes "oldest_before cs i oldest"
  shows "oldest_before cs (Suc i)
    (case oldest of None \<Rightarrow> Some i
     | Some k \<Rightarrow> if timercmp_less (timestamp (cs ! i)) (timestamp (cs ! k)) then Some i else oldest)"
proof (cases oldest)
  case None
  then show ?thesis using assms by (simp add: oldest_before_def)
next
  case (Some k)
  then have k: "k < i" "\<And>j. j < i \<Longrightarrow> \<not> timercmp_less (timestamp (cs ! j)) (timestamp (cs ! k))"
    using assms by (simp_all add: oldest_before_def)
  show ?thesis
  proof (cases "timercmp_less (timestamp (cs ! i)) (timestamp (cs ! k))")
    case True
    then show ?thesis using Some timercmp_less_neg_trans [OF True k(2)]
      by (simp add: oldest_before_def less_Suc_eq)
  next
    case False
    then show ?thesis using Some k by (simp add: oldest_before_def less_Suc_eq)
  qed
qed

lemma arp_alloc_loop_spec:
  assumes "rest = drop i cs" "i \<le> length cs" "\<forall>j < i. cstate (cs ! j) \<noteq> 0" "oldest_before cs i oldest"
  shows "case arp_alloc_loop cs oldest i rest of
      Inl k \<Rightarrow> k < length cs \<and> cstate (cs ! k) = 0
    | Inr r \<Rightarrow> (\<forall>j < length cs. cstate (cs ! j) \<noteq> 0) \<and> oldest_before cs (length cs) r"
  using assms
proof (induction rest arbitrary: i oldest)
  case Nil
  then show ?case by simp
next
  case (Cons e rest)
  have "i < length cs" using Cons.prems(1) by (cases "i < length cs") simp_all
  moreover from this have "e # rest = cs ! i # drop (Suc i) cs"
    by (simp only: Cons.prems(1) Cons_nth_drop_Suc)
  ultimately have i: "i < length cs" "e = cs ! i" "rest = drop (Suc i) cs" by simp_all
  show ?case
  proof (cases "cstate e = 0")
    case True
    then show ?thesis using i by simp
  next
    case False
    then have "\<forall>j < Suc i. cstate (cs ! j) \<noteq> 0"
      using Cons.prems(3) i by (simp add: less_Suc_eq)
    then show ?thesis
      using False i Cons.IH [OF i(3) _ _ oldest_before_step [OF Cons.prems(4)]] by simp
  qed
qed

text \<open>
  An allocated entry is free. If an entry was free, the cache is unchanged; otherwise one of the
  entries with the oldest time stamp is given up.
\<close>

lemma arp_cache_alloc_spec:
  assumes "arp_ok cs"
  shows "\<exists>i cs'. arp_cache_alloc cs = Some (i, cs') \<and> i < length cs \<and> arp_ok cs' \<and>
    (\<forall>j. j \<noteq> i \<longrightarrow> cs' ! j = cs ! j) \<and> cstate (cs' ! i) = 0 \<and> length (cache_ha (cs' ! i)) = 6 \<and>
    (if \<exists>e \<in> set cs. cstate e = 0 then cs' = cs
     else \<forall>e \<in> set cs. \<not> timercmp_less (timestamp e) (timestamp (cs ! i)))"
proof -
  have len: "length cs = 32" using assms by (simp add: arp_ok_def)
  have spec: "case arp_alloc_loop cs None 0 cs of
      Inl k \<Rightarrow> k < length cs \<and> cstate (cs ! k) = 0
    | Inr r \<Rightarrow> (\<forall>j < length cs. cstate (cs ! j) \<noteq> 0) \<and> oldest_before cs (length cs) r"
    by (rule arp_alloc_loop_spec) (simp_all add: oldest_before_def)
  show ?thesis
  proof (cases "arp_alloc_loop cs None 0 cs")
    case (Inl k)
    then have k: "k < length cs" "cstate (cs ! k) = 0" using spec by simp_all
    then have mem: "cs ! k \<in> set cs" by simp
    then have "length (cache_ha (cs ! k)) = 6" using assms unfolding arp_ok_def by blast
    moreover have "\<exists>e \<in> set cs. cstate e = 0" using mem k(2) by blast
    ultimately show ?thesis using Inl k assms
      by (intro exI [of _ k] exI [of _ cs]) (simp add: arp_cache_alloc_def)
  next
    case (Inr r)
    then have full: "\<forall>j < length cs. cstate (cs ! j) \<noteq> 0" and old: "oldest_before cs (length cs) r"
      using spec by simp_all
    have "r \<noteq> None" using old len by (cases r) (simp_all add: oldest_before_def)
    then obtain k where r: "r = Some k" by blast
    then have k: "r = Some k" "k < length cs"
      "\<forall>j < length cs. \<not> timercmp_less (timestamp (cs ! j)) (timestamp (cs ! k))"
      using old by (simp_all add: oldest_before_def)
    have "arp_ok (cs[k := arp_cache_delete (cs ! k)])"
      by (rule arp_ok_store [OF assms k(2)]) (simp_all add: arp_cache_delete_def entry_for_def)
    moreover have "\<not> (\<exists>e \<in> set cs. cstate e = 0)"
      using full by (simp add: all_set_conv_all_nth)
    moreover have "\<forall>e \<in> set cs. \<not> timercmp_less (timestamp e) (timestamp (cs ! k))"
      using k(3) by (simp add: all_set_conv_all_nth)
    ultimately show ?thesis
      using Inr k
      by (intro exI [of _ k] exI [of _ "cs[k := arp_cache_delete (cs ! k)]"])
        (simp add: arp_cache_alloc_def arp_cache_delete_def)
  qed
qed

subsection \<open>Learning addresses\<close>

text \<open>
  What \<^verbatim>\<open>arp_input\<close> does to the cache for a message to this host: the entry of the sender is
  updated, or else one is inserted.
\<close>

definition arp_put :: "u32 \<Rightarrow> bytes \<Rightarrow> timeval \<Rightarrow> arp_cache list \<Rightarrow> arp_cache list" where
  "arp_put pa ha now cs =
     (case arp_cache_select pa cs of
        Some i \<Rightarrow> cs[i := (cs ! i)\<lparr>cstate := 2, cache_ha := ha, timestamp := now\<rparr>]
      | None \<Rightarrow>
          (case arp_cache_alloc cs of
             Some (i, cs') \<Rightarrow> cs'[i := (cs' ! i)\<lparr>cstate := 2, cache_pa := pa, cache_ha := ha, timestamp := now\<rparr>]
           | None \<Rightarrow> cs))"

lemma arp_put_update:
  assumes "arp_ok cs" "arp_cache_select pa cs = Some i" "length ha = 6"
  shows "arp_ok (arp_put pa ha now cs)" and "arp_lookup (arp_put pa ha now cs) = (arp_lookup cs)(pa \<mapsto> ha)"
proof -
  let ?e = "(cs ! i)\<lparr>cstate := 2, cache_ha := ha, timestamp := now\<rparr>"
  from assms have i: "i < length cs" "entry_for pa (cs ! i)" by (simp_all add: arp_select_iff)
  then have pa: "cache_pa (cs ! i) = pa" by (simp add: entry_for_def)
  have put: "arp_put pa ha now cs = cs[i := ?e]" using assms by (simp add: arp_put_def)
  have ok: "arp_ok (cs[i := ?e])"
  proof (rule arp_ok_store [OF assms(1) i(1)])
    fix j assume "j < length cs" "j \<noteq> i"
    then show "\<not> (entry_for (cache_pa ?e) ?e \<and> entry_for (cache_pa ?e) (cs ! j))"
      using arp_ok_unique [OF assms(1) _ i(1) _ i(2)] pa by auto
  qed (simp_all add: assms)
  with put show "arp_ok (arp_put pa ha now cs)" by simp
  have "arp_lookup (cs[i := ?e]) q = ((arp_lookup cs)(pa \<mapsto> ha)) q" for q
    using arp_lookup_store [OF assms(1) ok i(1), of q] i pa by (auto simp: entry_for_def)
  then show "arp_lookup (arp_put pa ha now cs) = (arp_lookup cs)(pa \<mapsto> ha)"
    unfolding put by blast
qed

lemma arp_put_insert:
  assumes "arp_ok cs" "arp_cache_select pa cs = None" "length ha = 6"
  shows "arp_ok (arp_put pa ha now cs)" and "arp_lookup (arp_put pa ha now cs) pa = Some ha"
    and "q \<noteq> pa \<Longrightarrow> arp_lookup (arp_put pa ha now cs) q \<in> {arp_lookup cs q, None}"
    and "\<exists>e \<in> set cs. cstate e = 0 \<Longrightarrow> q \<noteq> pa \<Longrightarrow> arp_lookup (arp_put pa ha now cs) q = arp_lookup cs q"
proof -
  from arp_cache_alloc_spec [OF assms(1)] obtain i cs' where al: "arp_cache_alloc cs = Some (i, cs')"
      "i < length cs" "arp_ok cs'" "\<forall>j. j \<noteq> i \<longrightarrow> cs' ! j = cs ! j" "cstate (cs' ! i) = 0"
    and free: "\<exists>e \<in> set cs. cstate e = 0 \<Longrightarrow> cs' = cs" by (auto split: if_splits)
  let ?e = "(cs' ! i)\<lparr>cstate := 2, cache_pa := pa, cache_ha := ha, timestamp := now\<rparr>"
  have len: "length cs' = length cs" using al(3) assms(1) by (simp add: arp_ok_def)
  have put: "arp_put pa ha now cs = cs'[i := ?e]" using assms al by (simp add: arp_put_def)
  have none: "\<not> entry_for pa (cs' ! j)" if "j < length cs" for j
    using assms(2) al(4,5) that by (cases "j = i") (auto simp: arp_select_None entry_for_def)
  have ok: "arp_ok (cs'[i := ?e])"
    using al(2,3) len none assms(3) by (intro arp_ok_store) auto
  then show "arp_ok (arp_put pa ha now cs)" using put by simp
  have lk: "arp_lookup (cs'[i := ?e]) q = (if q = pa then Some ha else arp_lookup cs' q)" for q
    using arp_lookup_store [OF al(3) ok, of q] al(2,5) len by (simp add: entry_for_def)
  then show "arp_lookup (arp_put pa ha now cs) pa = Some ha" using put by simp
  have "arp_lookup cs' q \<in> {arp_lookup cs q, None}"
  proof (cases "arp_lookup cs' q")
    case (Some h)
    then obtain j where j: "j < length cs" "entry_for q (cs' ! j)" "cache_ha (cs' ! j) = h"
      using al(3) len by (auto simp: arp_lookup_iff)
    then have "cs' ! j = cs ! j" using al(4,5) by (auto simp: entry_for_def)
    then have "arp_lookup cs q = Some h" using j assms(1) by (auto simp: arp_lookup_iff)
    then show ?thesis using Some by simp
  qed simp
  then show "q \<noteq> pa \<Longrightarrow> arp_lookup (arp_put pa ha now cs) q \<in> {arp_lookup cs q, None}"
    using put lk by simp
  show "\<exists>e \<in> set cs. cstate e = 0 \<Longrightarrow> q \<noteq> pa \<Longrightarrow> arp_lookup (arp_put pa ha now cs) q = arp_lookup cs q"
    using put lk free by simp
qed

subsection \<open>A table of addresses\<close>

text \<open>
  The contract of a table that may forget entries but never confuses them: what is put is found, and
  another key keeps its value or loses it.
\<close>

locale address_table =
  fixes inv :: "'c \<Rightarrow> bool" and valid :: "'v \<Rightarrow> bool" and lookup :: "'c \<Rightarrow> 'k \<Rightarrow> 'v option"
    and put :: "'k \<Rightarrow> 'v \<Rightarrow> 't \<Rightarrow> 'c \<Rightarrow> 'c"
  assumes put_inv: "inv c \<Longrightarrow> valid v \<Longrightarrow> inv (put k v t c)"
    and lookup_put: "inv c \<Longrightarrow> valid v \<Longrightarrow> lookup (put k v t c) k = Some v"
    and lookup_put_other: "inv c \<Longrightarrow> valid v \<Longrightarrow> k' \<noteq> k \<Longrightarrow> lookup (put k v t c) k' \<in> {lookup c k', None}"
begin

lemma puts_inv:
  "inv c \<Longrightarrow> \<forall>(k, v, t) \<in> set ps. valid v \<Longrightarrow> inv (fold (\<lambda>(k, v, t). put k v t) ps c)"
  by (induction ps arbitrary: c) (auto simp: put_inv)

text \<open>After any sequence of puts, a value that is found is the one put last for its key.\<close>

lemma puts_latest:
  assumes "inv c" "\<forall>(k, v, t) \<in> set ps. valid v"
    and "lookup (fold (\<lambda>(k, v, t). put k v t) ps c) k = Some v"
  shows "case find (\<lambda>(k', v', t'). k' = k) (rev ps) of Some (k', v', t') \<Rightarrow> v' = v | None \<Rightarrow> lookup c k = Some v"
  using assms(2,3)
proof (induction ps rule: rev_induct)
  case (snoc p ps)
  obtain k1 v1 t1 where p: "p = (k1, v1, t1)" by (cases p)
  have inv: "inv (fold (\<lambda>(k, v, t). put k v t) ps c)"
    using snoc.prems(1) by (intro puts_inv [OF assms(1)]) auto
  have v1: "valid v1" using snoc.prems(1) p by simp
  show ?case
  proof (cases "k1 = k")
    case True
    then show ?thesis using snoc.prems(2) p lookup_put [OF inv v1] by simp
  next
    case False
    then have "lookup (fold (\<lambda>(k, v, t). put k v t) ps c) k = Some v"
      using lookup_put_other [OF inv v1, of k k1 t1] snoc.prems(2) p by auto
    then show ?thesis using snoc.IH snoc.prems(1) p False by auto
  qed
qed simp

end

interpretation arp_table: address_table arp_ok "\<lambda>ha. length ha = 6" arp_lookup arp_put
proof unfold_locales
  fix c :: "arp_cache list" and v :: bytes and k k' :: u32 and t :: timeval
  assume inv: "arp_ok c" and v: "length v = 6"
  show "arp_ok (arp_put k v t c)"
    by (cases "arp_cache_select k c") (use inv v in \<open>auto intro: arp_put_update(1) arp_put_insert(1)\<close>)
  show "arp_lookup (arp_put k v t c) k = Some v"
    by (cases "arp_cache_select k c") (use inv v in \<open>auto simp: arp_put_update(2) arp_put_insert(2)\<close>)
  show "arp_lookup (arp_put k v t c) k' \<in> {arp_lookup c k', None}" if "k' \<noteq> k"
    using arp_put_insert(3) [OF inv _ v that] arp_put_update(2) [OF inv _ v] that
    by (cases "arp_cache_select k c") auto
qed

section \<open>Messages\<close>

lemma length_arp_ether_ip [simp]:
  "length sha = 6 \<Longrightarrow> length tha = 6 \<Longrightarrow> length (arp_ether_ip h op sha spa tha tpa) = 28"
  by (simp add: arp_ether_ip_def)

lemma arp_fields:
  assumes "length sha = 6" "length tha = 6"
  shows "rd16 h (arp_ether_ip h op sha spa tha tpa @ pad) 0 = Some (hton16 h 1)"
    "rd16 h (arp_ether_ip h op sha spa tha tpa @ pad) 2 = Some (hton16 h 0x0800)"
    "rd8 (arp_ether_ip h op sha spa tha tpa @ pad) 4 = Some 6"
    "rd8 (arp_ether_ip h op sha spa tha tpa @ pad) 5 = Some 4"
    "rd16 h (arp_ether_ip h op sha spa tha tpa @ pad) 6 = Some (hton16 h op)"
    "rd_bytes (arp_ether_ip h op sha spa tha tpa @ pad) 8 6 = Some sha"
    "rd32 h (arp_ether_ip h op sha spa tha tpa @ pad) 14 = Some spa"
    "rd32 h (arp_ether_ip h op sha spa tha tpa @ pad) 24 = Some tpa"
  using assms by (simp_all add: arp_ether_ip_def byte_simps)

lemma output_frame_caches: "output_frame s s' \<Longrightarrow> caches s' = caches s"
  by (cases s; cases s') (simp add: output_frame_def)

text \<open>The state after the sender's address was learned.\<close>

definition arp_learn :: "u32 \<Rightarrow> bytes \<Rightarrow> 'z arp_scheme \<Rightarrow> 'z arp_scheme" where
  "arp_learn spa sha s = s\<lparr>clock := advance (clock s), caches := arp_put spa sha (clock s 0) (caches s)\<rparr>"

lemma arp_update_or_insert:
  assumes "arp_ok (caches s)" "length sha = 6"
  shows "arp_cache_select spa (caches s) = Some i \<Longrightarrow>
      arp_cache_update spa sha s = Some (Some i, arp_learn spa sha s)"
    and "arp_cache_select spa (caches s) = None \<Longrightarrow> arp_cache_update spa sha s = Some (None, s)"
    and "arp_cache_select spa (caches s) = None \<Longrightarrow>
      map_option snd (arp_cache_insert spa sha s) = Some (arp_learn spa sha s)"
  using arp_cache_alloc_spec [OF assms(1)] assms(2)
  by (auto simp: arp_cache_update_def arp_cache_insert_def arp_learn_def arp_put_def platform_defs rd_bytes_def)

lemma arp_input_reads:
  assumes "arp_ok (caches s)" "dev_tab s dev = Some d" "28 \<le> len" "h = host_order s"
    and rd: "rd16 h data 0 = Some hrd" "rd16 h data 2 = Some pro" "rd8 data 4 = Some hln" "rd8 data 5 = Some pln"
      "rd16 h data 6 = Some op" "rd_bytes data 8 6 = Some sha" "rd32 h data 14 = Some spa" "rd32 h data 24 = Some tpa"
  shows "arp_input data len dev s =
    (if ntoh16 h hrd \<noteq> ARP_HRD_ETHER \<or> hln \<noteq> 6 \<or> ntoh16 h pro \<noteq> ARP_PRO_IP \<or> pln \<noteq> 4 then Some s
     else case net_device_get_iface d NET_IFACE_FAMILY_IP of
       Some f \<Rightarrow>
         if unicast f = tpa
         then if ntoh16 h op = ARP_OP_REQUEST then map_option snd (arp_reply f sha spa sha (arp_learn spa sha s))
              else Some (arp_learn spa sha s)
         else Some (if arp_cache_select spa (caches s) = None then s else arp_learn spa sha s)
     | None \<Rightarrow> Some (if arp_cache_select spa (caches s) = None then s else arp_learn spa sha s))"
proof -
  have dev: "dev_tab (arp_learn spa sha s) = dev_tab s" by (simp add: arp_learn_def)
  have sha: "length sha = 6" using rd(6) by (rule length_rd_bytes)
  show ?thesis
    using assms(2-4) arp_update_or_insert [OF assms(1) sha, of spa] dev rd
    by (cases "arp_cache_select spa (caches s)"; cases "net_device_get_iface d 1")
      (auto simp: arp_input_def Let_def)
qed

text \<open>A well-formed message in the buffer, whatever follows it.\<close>

lemma arp_input_message:
  assumes "arp_ok (caches s)" "dev_tab s dev = Some d" "length sha = 6" "length tha = 6" "28 \<le> len"
  shows "arp_input (arp_ether_ip (host_order s) op sha spa tha tpa @ pad) len dev s =
    (case net_device_get_iface d NET_IFACE_FAMILY_IP of
       Some f \<Rightarrow>
         if unicast f = tpa
         then if op = ARP_OP_REQUEST then map_option snd (arp_reply f sha spa sha (arp_learn spa sha s))
              else Some (arp_learn spa sha s)
         else Some (if arp_cache_select spa (caches s) = None then s else arp_learn spa sha s)
     | None \<Rightarrow> Some (if arp_cache_select spa (caches s) = None then s else arp_learn spa sha s))"
  using arp_input_reads [OF assms(1,2,5) refl arp_fields [OF assms(3,4)]]
  by (cases "net_device_get_iface d 1") simp_all

subsection \<open>Requests and replies\<close>

lemma arp_send_ok:
  assumes "drvs_ok s" "dev_tab s (iface_dev f) = Some d" "6 \<le> length (dev_broadcast d)" "6 \<le> length tha" "6 \<le> length dst"
  shows "\<exists>r s'. arp_request f tpa s = Some (r, s') \<and> drvs_ok s' \<and> output_frame s s'"
    and "\<exists>r s'. arp_reply f tha tpa dst s = Some (r, s') \<and> drvs_ok s' \<and> output_frame s s'"
proof -
  have a: "rd_bytes (dev_addr d) 0 6 = Some (take 6 (dev_addr d))" "length (take 6 (dev_addr d)) = 6"
    "rd_bytes tha 0 6 = Some (take 6 tha)" "length (take 6 tha) = 6"
    using drvs_okD [OF assms(1,2)] assms(4) by (simp_all add: drv_ok_def rd_bytes_def)
  let ?m = "arp_ether_ip (host_order s) 1 (take 6 (dev_addr d)) (unicast f) (replicate 6 0) tpa"
  let ?n = "arp_ether_ip (host_order s) 2 (take 6 (dev_addr d)) (unicast f) (take 6 tha) tpa"
  show "\<exists>r s'. arp_request f tpa s = Some (r, s') \<and> drvs_ok s' \<and> output_frame s s'"
    using net_device_output_ok [OF assms(1,2) le_refl assms(3), where type = "0x0806" and data = ?m] assms(2) a
    by (auto simp: arp_request_def Let_def)
  show "\<exists>r s'. arp_reply f tha tpa dst s = Some (r, s') \<and> drvs_ok s' \<and> output_frame s s'"
    using net_device_output_ok [OF assms(1,2) le_refl assms(5), where type = "0x0806" and data = ?n] assms(2) a
    by (auto simp: arp_reply_def Let_def)
qed

text \<open>What the operations of this layer leave alone: like an output, but for the clock and the cache.\<close>

definition arp_frame :: "'z arp_scheme \<Rightarrow> 'z arp_scheme \<Rightarrow> bool" where
  "arp_frame s s' \<longleftrightarrow> output_frame s (s'\<lparr>clock := clock s, caches := caches s\<rparr>)"

lemma arp_frameI:
  "output_frame (s1 :: 'z arp_scheme) s' \<Longrightarrow> s1 = s\<lparr>clock := c, caches := cs\<rparr> \<Longrightarrow> arp_frame s s'"
  by (cases s; cases s') (auto simp: arp_frame_def output_frame_def)

lemma arp_frame_learn: "arp_frame s (arp_learn spa sha s)"
  unfolding arp_learn_def by (rule arp_frameI [OF output_frame_refl refl])

lemma arp_frame_refl [simp, intro]: "arp_frame s s"
  by (cases s) (simp add: arp_frame_def)

lemma arp_frame_trans [trans]: "arp_frame s s' \<Longrightarrow> arp_frame s' s'' \<Longrightarrow> arp_frame s s''"
  by (cases s; cases s'; cases s'') (simp add: arp_frame_def output_frame_def)

lemma arp_frame_output: "output_frame (s :: 'z arp_scheme) s' \<Longrightarrow> arp_frame s s'"
  by (cases s; cases s') (simp add: arp_frame_def output_frame_def)

lemma arp_frame_net_ok: "arp_frame s s' \<Longrightarrow> net_ok s \<Longrightarrow> net_ok s'"
  using output_frame_net_ok [of s "s'\<lparr>clock := clock s, caches := caches s\<rparr>"]
  by (simp add: arp_frame_def net_ok_def)

lemma arp_frame_dev:
  assumes "arp_frame s s'" "dev_tab s dev = Some d"
  obtains d' where "dev_tab s' dev = Some d'" "ifaces d' = ifaces d" "dev_flags d' = dev_flags d"
    "mtu d' = mtu d" "dev_alen d' = dev_alen d" "dev_addr d' = dev_addr d" "dev_broadcast d' = dev_broadcast d"
    "dev_type d' = dev_type d" "ops d' = ops d"
  using output_frame_dev [of s "s'\<lparr>clock := clock s, caches := caches s\<rparr>" dev d] assms
  by (auto simp: arp_frame_def)

lemma arp_frame_static:
  "arp_frame s s' \<Longrightarrow> map_option dev_static (dev_tab s' i) = map_option dev_static (dev_tab s i)"
  by (simp add: arp_frame_def output_frame_def)

lemma drvs_ok_learn [simp]: "drvs_ok (arp_learn spa sha s) = drvs_ok s"
  by (simp add: arp_learn_def drvs_ok_def)

lemma arp_ok_learn: "arp_ok (caches s) \<Longrightarrow> length sha = 6 \<Longrightarrow> arp_ok (caches (arp_learn spa sha s))"
  by (simp add: arp_learn_def arp_table.put_inv)

lemma arp_input_total:
  assumes ok: "arp_ok (caches s)" "drvs_ok s" and d: "dev_tab s dev = Some d" "dev_ok dev d" and len: "len \<le> length data"
  shows "\<exists>s'. arp_input data len dev s = Some s' \<and> arp_ok (caches s') \<and> drvs_ok s' \<and> arp_frame s s'"
proof (cases "28 \<le> len")
  case False
  then show ?thesis using assms by (simp add: arp_input_def)
next
  case True
  let ?h = "host_order s"
  obtain sha where sha: "rd_bytes data 8 6 = Some sha" "length sha = 6"
    using True len by (simp add: rd_bytes_def)
  obtain hrd pro hln pln op spa tpa where rd: "rd16 ?h data 0 = Some hrd" "rd16 ?h data 2 = Some pro"
    "rd8 data 4 = Some hln" "rd8 data 5 = Some pln" "rd16 ?h data 6 = Some op"
    "rd32 ?h data 14 = Some spa" "rd32 ?h data 24 = Some tpa"
    using True len by (simp add: rd8_def rd16_def rd32_def)
  let ?s1 = "arp_learn spa sha s"
  have s1: "arp_ok (caches ?s1)" "drvs_ok ?s1" "dev_tab ?s1 dev = Some d"
    using ok sha(2) d by (simp_all add: arp_ok_learn) (simp add: arp_learn_def)
  have "\<exists>r s'. arp_reply f sha spa sha ?s1 = Some (r, s') \<and> arp_ok (caches s') \<and> drvs_ok s' \<and> arp_frame s s'"
    if "net_device_get_iface d NET_IFACE_FAMILY_IP = Some f" for f
  proof -
    have "dev_tab ?s1 (iface_dev f) = Some d"
      using get_iface_dev [OF d(2) that] s1(3) by simp
    then obtain r s' where re: "arp_reply f sha spa sha ?s1 = Some (r, s')" "drvs_ok s'" "output_frame ?s1 s'"
      using arp_send_ok(2) [OF s1(2), of f d sha sha spa] sha(2) d(2) by (auto simp: dev_ok_def)
    moreover have "arp_frame s s'" by (rule arp_frameI [OF re(3)]) (simp add: arp_learn_def)
    ultimately show ?thesis using s1(1) output_frame_caches [OF re(3)] by auto
  qed
  then show ?thesis
    using arp_input_reads [OF ok(1) d(1) True refl rd(1-5) sha(1) rd(6,7)] s1 ok
    by (auto simp: arp_frame_learn split: option.split)
qed

subsection \<open>Resolution\<close>

lemma arp_lookup_length: "arp_ok cs \<Longrightarrow> arp_lookup cs pa = Some m \<Longrightarrow> length m = 6"
  using arp_ok_entry nth_mem by (force simp: arp_lookup_iff)

lemma arp_resolve_found:
  assumes "arp_ok (caches s)" "dev_tab s (iface_dev f) = Some d" "dev_type d = NET_DEVICE_TYPE_ETHERNET"
    and "family f = NET_IFACE_FAMILY_IP" "arp_lookup (caches s) pa = Some m" "6 \<le> length ha"
  shows "arp_resolve f pa ha s = Some (ARP_RESOLVE_FOUND, m @ drop 6 ha, s)"
proof -
  from assms(5) obtain i where i: "arp_cache_select pa (caches s) = Some i" "cache_ha (caches s ! i) = m"
    by (auto simp: arp_lookup_def)
  then have "caches s ! i \<in> set (caches s)" "cstate (caches s ! i) \<noteq> 0"
    using assms(1) by (auto simp: arp_select_iff entry_for_def)
  then have "cstate (caches s ! i) = 2" "length m = 6"
    using arp_ok_entry [OF assms(1)] i by auto
  then show ?thesis using assms i by (simp add: arp_resolve_def wr_bytes_0)
qed

text \<open>Without an entry a free one is prepared, and a request is sent.\<close>

lemma arp_resolve_missing:
  assumes "arp_ok (caches s)" "dev_tab s (iface_dev f) = Some d" "dev_type d = NET_DEVICE_TYPE_ETHERNET"
    and "family f = NET_IFACE_FAMILY_IP" "arp_lookup (caches s) pa = None"
  shows "\<exists>cs. arp_ok cs \<and> (\<forall>q. arp_lookup cs q \<in> {arp_lookup (caches s) q, None}) \<and>
    arp_resolve f pa ha s =
      map_option (\<lambda>(_, s). (ARP_RESOLVE_INCOMPLETE, ha, s))
        (arp_request f pa (s\<lparr>clock := advance (clock s), caches := cs\<rparr>))"
proof -
  from arp_cache_alloc_spec [OF assms(1)] obtain i cs where al: "arp_cache_alloc (caches s) = Some (i, cs)"
      "i < length (caches s)" "arp_ok cs" "\<forall>j. j \<noteq> i \<longrightarrow> cs ! j = caches s ! j" "cstate (cs ! i) = 0"
      "length (cache_ha (cs ! i)) = 6" by auto
  let ?e = "(cs ! i)\<lparr>cstate := 0, cache_pa := pa, timestamp := clock s 0\<rparr>"
  let ?cs = "cs[i := ?e]"
  have len: "length cs = length (caches s)" using al(3) assms(1) by (simp add: arp_ok_def)
  have ok: "arp_ok ?cs"
    by (rule arp_ok_store [OF al(3)]) (use al len in \<open>auto simp: entry_for_def\<close>)
  have "arp_lookup ?cs q \<in> {arp_lookup (caches s) q, None}" for q
  proof (cases "arp_lookup ?cs q")
    case (Some m)
    then obtain j where j: "j < length cs" "entry_for q (?cs ! j)" "cache_ha (?cs ! j) = m"
      using ok by (auto simp: arp_lookup_iff)
    then have "j \<noteq> i" by (auto simp: entry_for_def)
    then have "arp_lookup (caches s) q = Some m"
      using j al(4) len by (auto simp: arp_lookup_iff [OF assms(1)])
    then show ?thesis using Some by simp
  qed simp
  moreover have "arp_resolve f pa ha s = map_option (\<lambda>(_, s). (ARP_RESOLVE_INCOMPLETE, ha, s))
        (arp_request f pa (s\<lparr>clock := advance (clock s), caches := ?cs\<rparr>))"
    using assms al(1) by (auto simp: arp_resolve_def arp_lookup_def platform_defs Let_def map_option_case
        split: option.split)
  ultimately show ?thesis using ok by blast
qed

lemma arp_resolve_total:
  assumes "arp_ok (caches s)" "drvs_ok s" "dev_tab s (iface_dev f) = Some d" "6 \<le> length (dev_broadcast d)"
    and "6 \<le> length ha"
  shows "\<exists>r ha' s'. arp_resolve f pa ha s = Some (r, ha', s') \<and> arp_ok (caches s') \<and> drvs_ok s' \<and>
    arp_frame s s' \<and> length ha' = length ha \<and> r \<in> {-1, 0, 1}"
proof (cases "dev_type d = NET_DEVICE_TYPE_ETHERNET \<and> family f = NET_IFACE_FAMILY_IP")
  case False
  then show ?thesis using assms by (auto simp: arp_resolve_def)
next
  case eth: True
  show ?thesis
  proof (cases "arp_lookup (caches s) pa")
    case None
    from arp_resolve_missing [OF assms(1,3) _ _ None, of ha] eth obtain cs where cs: "arp_ok cs"
      "arp_resolve f pa ha s = map_option (\<lambda>(_, s). (ARP_RESOLVE_INCOMPLETE, ha, s))
        (arp_request f pa (s\<lparr>clock := advance (clock s), caches := cs\<rparr>))" by blast
    let ?s1 = "s\<lparr>clock := advance (clock s), caches := cs\<rparr>"
    have "drvs_ok ?s1" using assms(2) by (simp add: drvs_ok_def)
    then obtain r s' where s': "arp_request f pa ?s1 = Some (r, s')" "drvs_ok s'" "output_frame ?s1 s'"
      using arp_send_ok(1) [of ?s1 f d "replicate 6 0" "replicate 6 0" pa] assms(3,4) by auto
    moreover have "arp_frame s s'" by (rule arp_frameI [OF s'(3) refl])
    ultimately show ?thesis using cs output_frame_caches [OF s'(3)] by auto
  next
    case (Some m)
    then show ?thesis
      using arp_resolve_found [OF assms(1,3) _ _ Some assms(5)] eth arp_lookup_length [OF assms(1) Some] assms
      by auto
  qed
qed

section \<open>Properties\<close>


text \<open>
  The bytes of a message do not depend on the byte order of the sender, when the addresses have the
  same bytes.
\<close>

lemma arp_ether_ip_host:
  assumes "store32 h spa = store32 h' spa'" "store32 h tpa = store32 h' tpa'"
  shows "arp_ether_ip h op sha spa tha tpa = arp_ether_ip h' op sha spa' tha tpa'"
  using assms by (simp add: arp_ether_ip_def store_hton)

definition tap_ready :: "dev_id \<Rightarrow> ip_iface \<Rightarrow> net_device \<Rightarrow> 'z arp_scheme \<Rightarrow> bool" where
  "tap_ready dev f d s \<longleftrightarrow>
     arp_ok (caches s) \<and> drvs_ok s \<and> dev_tab s dev = Some d \<and> dev_ok dev d \<and>
     ops d = Ether_tap_ops \<and> NET_DEVICE_IS_UP d \<and> 28 \<le> unat (mtu d) \<and>
     dev_type d = NET_DEVICE_TYPE_ETHERNET \<and> net_device_get_iface d NET_IFACE_FAMILY_IP = Some f"

lemma tap_readyD:
  assumes "tap_ready dev f d s"
  shows "arp_ok (caches s)" "drvs_ok s" "dev_tab s dev = Some d" "iface_dev f = dev" "family f = 1"
    "dev_type d = NET_DEVICE_TYPE_ETHERNET" "net_device_get_iface d NET_IFACE_FAMILY_IP = Some f"
    "length (dev_addr d) = 16" "length (dev_broadcast d) = 16" "ops d = Ether_tap_ops" "NET_DEVICE_IS_UP d"
    "28 \<le> unat (mtu d)" "unat (mtu d) \<le> 1500"
  using assms get_iface_dev [of dev d NET_IFACE_FAMILY_IP f] drvs_okD [of s dev d]
  by (auto simp: tap_ready_def dev_ok_def drv_ok_def)

lemma tap_output:
  assumes "tap_ready dev f d s" "length m = 28" "6 \<le> length dst"
  shows "\<exists>r s'. net_device_output dev type m 28 dst s = Some (r, s') \<and> output_frame s s' \<and>
    dev_tab s' = dev_tab s \<and>
    writes s' = writes s @ [(dev, ether_frame (take 6 dst) (take 6 (dev_addr d)) type m, syscalls s 0)]"
proof -
  note d = tap_readyD [OF assms(1)]
  obtain r s' where "ether_tap_transmit dev type m 28 dst s = Some (r, s')" "dev_tab s' = dev_tab s" "output_frame s s'"
    "writes s' = writes s @ [(dev, ether_frame (take 6 dst) (take 6 (dev_addr d)) type (take 28 m), syscalls s 0)]"
    using ether_tap_transmit_ok [OF d(2,3,10), of 28 m dst type] assms d by auto
  then show ?thesis using assms d by (auto simp: net_device_output_def ops_transmit_def)
qed

lemma tap_ready_cong:
  assumes "tap_ready dev f d s" "dev_tab s' = dev_tab s" "arp_ok (caches s')"
  shows "tap_ready dev f d s'"
  using assms by (simp add: tap_ready_def drvs_ok_def)

lemma output_frame_host: "output_frame s s' \<Longrightarrow> host_order s' = host_order s"
  by (simp add: output_frame_def)

text \<open>The first attempt sends a request.\<close>

lemma arp_resolve_sends:
  assumes A: "tap_ready dev f d s" and none: "arp_lookup (caches s) pa = None"
    and m: "m = arp_ether_ip (host_order s) ARP_OP_REQUEST (take 6 (dev_addr d)) (unicast f) (replicate 6 0) pa"
  shows "\<exists>s'. arp_resolve f pa ha s = Some (ARP_RESOLVE_INCOMPLETE, ha, s') \<and>
    writes s' = writes s @ [(dev, ether_frame (take 6 (dev_broadcast d)) (take 6 (dev_addr d)) ETHER_TYPE_ARP m, syscalls s 0)] \<and>
    tap_ready dev f d s' \<and> host_order s' = host_order s"
proof -
  note a = tap_readyD [OF A]
  have len: "length m = 28" using a(8) by (simp add: m)
  from arp_resolve_missing [OF a(1) _ a(6) _ none, of f ha] a obtain cs where cs: "arp_ok cs"
    "arp_resolve f pa ha s = map_option (\<lambda>(_, s). (ARP_RESOLVE_INCOMPLETE, ha, s))
        (arp_request f pa (s\<lparr>clock := advance (clock s), caches := cs\<rparr>))" by auto
  let ?s0 = "s\<lparr>clock := advance (clock s), caches := cs\<rparr>"
  have A0: "tap_ready dev f d ?s0" using cs(1) by (intro tap_ready_cong [OF A]) simp_all
  obtain r s' where s': "net_device_output dev 0x0806 m 28 (dev_broadcast d) ?s0 = Some (r, s')"
    "output_frame ?s0 s'" "dev_tab s' = dev_tab s" "writes s' = writes s @
      [(dev, ether_frame (take 6 (dev_broadcast d)) (take 6 (dev_addr d)) 0x0806 m, syscalls s 0)]"
    using tap_output [OF A0 len, of "dev_broadcast d" "0x0806"] a(9) by auto
  have "arp_request f pa ?s0 = Some (r, s')"
    using s'(1) a len by (simp add: arp_request_def rd_bytes_def m)
  moreover have "tap_ready dev f d s'"
    using s'(3) output_frame_caches [OF s'(2)] cs(1) by (intro tap_ready_cong [OF A]) simp_all
  ultimately show ?thesis using cs(2) s'(4) output_frame_host [OF s'(2)] by simp
qed

text \<open>A request to this host is answered, and its sender learned.\<close>

lemma arp_input_answers:
  assumes B: "tap_ready dev f d s" and mac: "length mac = 6" "length tha = 6"
    and m: "m = arp_ether_ip (host_order s) ARP_OP_REPLY (take 6 (dev_addr d)) (unicast f) mac pa"
  shows "\<exists>s'. arp_input (arp_ether_ip (host_order s) ARP_OP_REQUEST mac pa tha (unicast f) @ replicate 18 0) 46 dev s = Some s' \<and>
    writes s' = writes s @ [(dev, ether_frame mac (take 6 (dev_addr d)) ETHER_TYPE_ARP m, syscalls s 0)] \<and>
    arp_lookup (caches s') pa = Some mac"
proof -
  note b = tap_readyD [OF B]
  let ?s0 = "arp_learn pa mac s"
  have len: "length m = 28" using b(8) mac by (simp add: m)
  have B0: "tap_ready dev f d ?s0"
    using mac arp_ok_learn [OF b(1)] by (intro tap_ready_cong [OF B]) (simp_all add: arp_learn_def)
  obtain r s' where s': "net_device_output dev 0x0806 m 28 mac ?s0 = Some (r, s')"
    "output_frame ?s0 s'" "writes s' = writes s @ [(dev, ether_frame mac (take 6 (dev_addr d)) 0x0806 m, syscalls s 0)]"
    using tap_output [OF B0 len, of mac "0x0806"] mac by (auto simp: arp_learn_def)
  have "arp_reply f mac pa mac ?s0 = Some (r, s')"
    using s'(1) b mac len by (simp add: arp_reply_def rd_bytes_def m arp_learn_def)
  then show ?thesis
    using arp_input_message [OF b(1,3) mac, of 46] b(7) s'(3) output_frame_caches [OF s'(2)]
      arp_table.lookup_put [OF b(1) mac(1)] by (simp add: arp_learn_def)
qed

text \<open>A reply to this host makes its sender resolvable.\<close>

lemma arp_input_learns:
  assumes A: "tap_ready dev f d s" and mac: "length mac = 6" "length tha = 6" and ha: "6 \<le> length ha"
  shows "\<exists>s'. arp_input (arp_ether_ip (host_order s) ARP_OP_REPLY mac pa tha (unicast f) @ replicate 18 0) 46 dev s = Some s' \<and>
    arp_resolve f pa ha s' = Some (ARP_RESOLVE_FOUND, mac @ drop 6 ha, s')"
proof -
  note a = tap_readyD [OF A]
  have "arp_resolve f pa ha (arp_learn pa mac s) = Some (ARP_RESOLVE_FOUND, mac @ drop 6 ha, arp_learn pa mac s)"
    using arp_table.lookup_put [OF a(1) mac(1)] a arp_ok_learn [OF a(1) mac(1)] ha
    by (intro arp_resolve_found) (simp_all add: arp_learn_def)
  then show ?thesis using arp_input_message [OF a(1,3) mac, of 46] a(7) by simp
qed

text \<open>
  C20. Address resolution between two hosts A and B, of the same or of different byte order, on
  Ethernet devices that are up. When A has no entry for B's address, resolving it sends one
  broadcast frame, a request, and is incomplete. B, given this request (padded as any frame is),
  learns A's address and sends one frame, a reply, to A. After A has taken in this reply,
  resolving B's address finds B's hardware address.
\<close>

theorem arp_exchange:
  fixes sA sB :: "'z arp_scheme"
  assumes A: "tap_ready devA fA dA sA" and B: "tap_ready devB fB dB sB"
    and paB: "store32 (host_order sA) paB = store32 (host_order sB) (unicast fB)"
    and paA: "store32 (host_order sB) paA = store32 (host_order sA) (unicast fA)"
    and none: "arp_lookup (caches sA) paB = None" and ha: "6 \<le> length ha"
    and macA: "macA = take 6 (dev_addr dA)" and macB: "macB = take 6 (dev_addr dB)"
    and request: "request = arp_ether_ip (host_order sA) ARP_OP_REQUEST macA (unicast fA) (replicate 6 0) paB"
    and reply: "reply = arp_ether_ip (host_order sB) ARP_OP_REPLY macB (unicast fB) macA paA"
  shows "\<exists>sA1 sB1 sA2.
    arp_resolve fA paB ha sA = Some (ARP_RESOLVE_INCOMPLETE, ha, sA1) \<and>
    writes sA1 = writes sA @ [(devA, ether_frame (take 6 (dev_broadcast dA)) macA ETHER_TYPE_ARP request, syscalls sA 0)] \<and>
    arp_input (request @ replicate 18 0) 46 devB sB = Some sB1 \<and>
    writes sB1 = writes sB @ [(devB, ether_frame macA macB ETHER_TYPE_ARP reply, syscalls sB 0)] \<and>
    arp_lookup (caches sB1) paA = Some macA \<and>
    arp_input (reply @ replicate 18 0) 46 devA sA1 = Some sA2 \<and>
    arp_resolve fA paB ha sA2 = Some (ARP_RESOLVE_FOUND, macB @ drop 6 ha, sA2)"
proof -
  have mac: "length macA = 6" "length macB = 6"
    using tap_readyD(8) [OF A] tap_readyD(8) [OF B] by (simp_all add: macA macB)
  obtain sA1 where sA1: "arp_resolve fA paB ha sA = Some (ARP_RESOLVE_INCOMPLETE, ha, sA1)"
    "writes sA1 = writes sA @ [(devA, ether_frame (take 6 (dev_broadcast dA)) macA ETHER_TYPE_ARP request, syscalls sA 0)]"
    and A1: "tap_ready devA fA dA sA1" "host_order sA1 = host_order sA"
    using arp_resolve_sends [OF A none request [unfolded macA], of ha] macA by auto
  have "request = arp_ether_ip (host_order sB) ARP_OP_REQUEST macA paA (replicate 6 0) (unicast fB)"
    unfolding request using paA paB by (intro arp_ether_ip_host) simp_all
  then obtain sB1 where "arp_input (request @ replicate 18 0) 46 devB sB = Some sB1"
    "writes sB1 = writes sB @ [(devB, ether_frame macA macB ETHER_TYPE_ARP reply, syscalls sB 0)]"
    "arp_lookup (caches sB1) paA = Some macA"
    using arp_input_answers [OF B mac(1) _ reply [unfolded macB], of "replicate 6 0"] macB by auto
  moreover have "reply = arp_ether_ip (host_order sA1) ARP_OP_REPLY macB paB macA (unicast fA)"
    unfolding reply using paA paB A1(2) by (intro arp_ether_ip_host) simp_all
  then obtain sA2 where "arp_input (reply @ replicate 18 0) 46 devA sA1 = Some sA2"
    "arp_resolve fA paB ha sA2 = Some (ARP_RESOLVE_FOUND, macB @ drop 6 ha, sA2)"
    using arp_input_learns [OF A1(1) mac(2,1) ha, of paB] by auto
  ultimately show ?thesis using sA1 by blast
qed

subsection \<open>Expiry\<close>

lemma timersub_seconds:
  assumes "tv_ok a" "tv_ok b"
  shows "tv_sec (timersub a b) > k \<longleftrightarrow> usecs a - usecs b \<ge> (k + 1) * 1000000"
  using tv_ok_timersub [OF assms] usecs_timersub [of a b] by (auto simp: tv_ok_def usecs_def)

lemma arp_ok_free_some:
  assumes "arp_ok cs"
  shows "arp_ok (map (\<lambda>e. if P e then arp_cache_delete e else e) cs)"
    and "arp_lookup (map (\<lambda>e. if P e then arp_cache_delete e else e) cs) pa = Some ha \<longleftrightarrow>
      (\<exists>e \<in> set cs. entry_for pa e \<and> cache_ha e = ha \<and> \<not> P e)"
proof -
  define g where "g = (\<lambda>e. if P e then arp_cache_delete e else e)"
  have g: "entry_for q (g e) \<longleftrightarrow> entry_for q e \<and> \<not> P e" for q e
    by (simp add: g_def entry_for_def arp_cache_delete_def)
  have "i = j" if "i < length cs" "j < length cs" "entry_for q (g (cs ! i))" "entry_for q (g (cs ! j))" for i j q
    using arp_ok_unique [OF assms that(1,2)] that(3,4) g by blast
  moreover have "length (cache_ha (g e)) = 6 \<and> cstate (g e) \<in> {0, 2}" if "e \<in> set cs" for e
    using arp_ok_entry [OF assms that] by (simp add: g_def arp_cache_delete_def)
  moreover have "length cs = 32" using assms by (simp add: arp_ok_def)
  ultimately have ok: "arp_ok (map g cs)" by (simp add: arp_ok_def)
  then show "arp_ok (map (\<lambda>e. if P e then arp_cache_delete e else e) cs)" by (simp add: g_def)
  have "(\<exists>i < length cs. entry_for pa (g (cs ! i)) \<and> cache_ha (g (cs ! i)) = ha) \<longleftrightarrow>
      (\<exists>e \<in> set cs. entry_for pa (g e) \<and> cache_ha (g e) = ha)"
    by (metis in_set_conv_nth)
  also have "\<dots> \<longleftrightarrow> (\<exists>e \<in> set cs. entry_for pa e \<and> cache_ha e = ha \<and> \<not> P e)"
    unfolding g by (auto simp: g_def)
  finally have "arp_lookup (map g cs) pa = Some ha \<longleftrightarrow> (\<exists>e \<in> set cs. entry_for pa e \<and> cache_ha e = ha \<and> \<not> P e)"
    using arp_lookup_iff [OF ok, of pa ha] by (simp cong: conj_cong)
  then show "arp_lookup (map (\<lambda>e. if P e then arp_cache_delete e else e) cs) pa = Some ha \<longleftrightarrow>
      (\<exists>e \<in> set cs. entry_for pa e \<and> cache_ha e = ha \<and> \<not> P e)"
    by (simp add: g_def)
qed

text \<open>
  When the timer handler runs, exactly the resolved addresses whose entry was last written 31
  seconds ago or longer disappear from the cache.
\<close>

lemma arp_timer_expires:
  assumes "arp_ok (caches s)" "tv_ok (clock s 0)" "\<forall>e \<in> set (caches s). tv_ok (timestamp e)"
  shows "arp_ok (caches (arp_timer_handler s)) \<and>
    (arp_lookup (caches (arp_timer_handler s)) pa = Some ha \<longleftrightarrow>
      (\<exists>e \<in> set (caches s). entry_for pa e \<and> cache_ha e = ha \<and> usecs (clock s 0) - usecs (timestamp e) < 31000000))"
proof -
  let ?P = "\<lambda>e. cstate e \<noteq> 0 \<and> cstate e \<noteq> 3 \<and> tv_sec (timersub (clock s 0) (timestamp e)) > 30"
  have cs: "caches (arp_timer_handler s) = map (\<lambda>e. if ?P e then arp_cache_delete e else e) (caches s)"
    by (simp add: arp_timer_handler_def platform_defs)
  have "entry_for pa e \<and> cache_ha e = ha \<and> \<not> ?P e \<longleftrightarrow>
      entry_for pa e \<and> cache_ha e = ha \<and> usecs (clock s 0) - usecs (timestamp e) < 31000000"
    if "e \<in> set (caches s)" for e
    using that arp_ok_entry [OF assms(1) that] assms(2,3) timersub_seconds [of "clock s 0" "timestamp e" 30]
    by (auto simp: entry_for_def)
  then show ?thesis
    unfolding cs using arp_ok_free_some [OF assms(1), of ?P] by blast
qed

section \<open>Examples\<close>

definition host_iface :: "u32 \<Rightarrow> ip_iface" where
  "host_iface a = \<lparr>family = 1, iface_dev = 1, unicast = a, netmask = 0x00ffffff, broadcast = 0\<rparr>"

definition host_dev :: "u32 \<Rightarrow> net_device" where
  "host_dev a = tap_dev\<lparr>ifaces := [host_iface a]\<rparr>"

definition arp_example :: "host \<Rightarrow> u32 \<Rightarrow> arp" where
  "arp_example h a =
     \<lparr>host_order = h, clock = (\<lambda>_. \<lparr>tv_sec = 100, tv_usec = 0\<rparr>), allocs = (\<lambda>_. True), randoms = (\<lambda>_. 0),
      cond_results = (\<lambda>_. 0), syscalls = (\<lambda>_. 60), raised = [], irqs = [], sigmask = {}, started = True,
      dev_tab = [1 \<mapsto> host_dev a], devices = [1], next_index = 2, protocols = [],
      timers = [], events = [], writes = [], rx = (\<lambda>_. []), hwaddrs = (\<lambda>_. []),
      caches = replicate 32 (arp_cache_delete \<lparr>cstate = 0, cache_pa = 0, cache_ha = [], timestamp = timerclear\<rparr>)\<rparr>"

lemma arp_ok_empty:
  "arp_ok (replicate 32 (arp_cache_delete e))" "arp_lookup (replicate 32 (arp_cache_delete e)) pa = None"
  by (auto simp: arp_ok_def arp_cache_delete_def entry_for_def arp_lookup_None)

lemma host_dev_simps:
  "drv_ok (host_dev a)" "NET_DEVICE_IS_UP (host_dev a)" "ops (host_dev a) = Ether_tap_ops" "mtu (host_dev a) = 1500"
  "dev_type (host_dev a) = 2" "dev_ok 1 (host_dev a)" "net_device_get_iface (host_dev a) 1 = Some (host_iface a)"
  "take 6 (dev_addr (host_dev a)) = [2, 0, 0, 0, 0, 1]" "ifaces (host_dev a) = [host_iface a]"
  by (simp_all add: host_dev_def tap_dev_def drv_ok_def NET_DEVICE_IS_UP_def ether_setup_helper_def dev_ok_def
      host_iface_def net_device_get_iface_def ETHER_ADDR_BROADCAST_def del: One_nat_def)

lemma arp_example_simps:
  "dev_tab (arp_example h a) = [1 \<mapsto> host_dev a]" "drvs_ok (arp_example h a)" "arp_ok (caches (arp_example h a))"
  "host_order (arp_example h a) = h" "arp_lookup (caches (arp_example h a)) pa = None" "writes (arp_example h a) = []"
  "clock (arp_example h a) n = \<lparr>tv_sec = 100, tv_usec = 0\<rparr>" "unicast (host_iface a) = a" "iface_dev (host_iface a) = 1"
  by (simp_all add: arp_example_def drvs_ok_def host_dev_simps arp_ok_empty host_iface_def del: One_nat_def)

lemma tap_ready_example: "tap_ready 1 (host_iface a) (host_dev a) (arp_example h a)"
  by (simp add: tap_ready_def host_dev_simps arp_example_simps del: One_nat_def)

lemma example_addresses:
  "store32 Little 0x0200000A = store32 Big 0x0A000002" "store32 Big 0x0A000001 = store32 Little 0x0100000A"
  using store32_load32 [of Little 10 0 0 2] store32_load32 [of Big 10 0 0 2]
    store32_load32 [of Little 10 0 0 1] store32_load32 [of Big 10 0 0 1]
  by (simp_all add: load32.simps)

theorem arp_exchange_witness:
  "\<exists>request reply sA1 sB1 sA2.
    arp_resolve (host_iface 0x0100000A) 0x0200000A (replicate 16 0) (arp_example Little 0x0100000A) =
      Some (0, replicate 16 0, sA1) \<and>
    arp_input (request @ replicate 18 0) 46 1 (arp_example Big 0x0A000002) = Some sB1 \<and>
    arp_lookup (caches sB1) 0x0A000001 = Some [2, 0, 0, 0, 0, 1] \<and>
    arp_input (reply @ replicate 18 0) 46 1 sA1 = Some sA2 \<and>
    arp_resolve (host_iface 0x0100000A) 0x0200000A (replicate 16 0) sA2 =
      Some (1, [2, 0, 0, 0, 0, 1] @ replicate 10 0, sA2)"
  using arp_exchange [OF tap_ready_example [of "0x0100000A" Little] tap_ready_example [of "0x0A000002" Big],
      where paB = "0x0200000A" and paA = "0x0A000001" and ha = "replicate 16 0", OF _ _ _ _ refl refl refl refl]
  by (simp add: arp_example_simps host_dev_simps example_addresses del: One_nat_def) blast


end
