(* ===== verification/Ip_Addr.thy ===== *)
theory Ip_Addr
  imports Libc Byteorder
begin

text \<open>
  Text forms of addresses and endpoints, from \<^verbatim>\<open>ip.c\<close>. An address is a 32-bit integer whose bytes in
  memory are the four numbers of its text form, in order; a port is kept in network byte order.
\<close>

section \<open>Model\<close>

definition IP_ADDR_STR_LEN :: nat where [simp]: "IP_ADDR_STR_LEN = 16"
definition IP_ENDPOINT_STR_LEN :: nat where [simp]: "IP_ENDPOINT_STR_LEN = IP_ADDR_STR_LEN + 6"

definition IP_ADDR_ANY :: u32 where "IP_ADDR_ANY = 0x00000000"
definition IP_ADDR_BROADCAST :: u32 where "IP_ADDR_BROADCAST = 0xffffffff"

record ip_endpoint =
  ep_addr :: u32
  ep_port :: u16

text \<open>The loop of \<^verbatim>\<open>ip_addr_pton\<close> on the bytes of the result.\<close>

function ip_pton_loop :: "nat \<Rightarrow> string \<Rightarrow> bytes \<Rightarrow> int \<times> bytes" where
  "ip_pton_loop idx sp n =
     (if idx < 4
      then let (ret, ep) = strtol 10 sp
           in if ret < 0 \<or> ret > 255 then (-1, n)
              else if ep = sp then (-1, n)
              else if (idx = 3 \<and> ep \<noteq> []) \<or> (idx \<noteq> 3 \<and> take 1 ep \<noteq> ''.'') then (-1, n)
              else ip_pton_loop (idx + 1) (drop 1 ep) (n[idx := mk8 (nat ret)])
      else (0, n))"
  by auto
termination
  by (relation "measure (\<lambda>(idx, _). 4 - idx)") auto

declare ip_pton_loop.simps [simp del]

definition ip_addr_pton :: "host \<Rightarrow> string \<Rightarrow> u32 \<Rightarrow> int \<times> u32" where
  "ip_addr_pton h p n =
     (let (r, b) = ip_pton_loop 0 p (store32 h n) in (r, load32 h (b ! 0) (b ! 1) (b ! 2) (b ! 3)))"

definition ip_addr_ntop :: "host \<Rightarrow> u32 \<Rightarrow> nat \<Rightarrow> string" where
  "ip_addr_ntop h n sz =
     (let u = store32 h n
      in take (sz - 1) (fmt_d (unat (u ! 0)) @ ''.'' @ fmt_d (unat (u ! 1)) @ ''.'' @
           fmt_d (unat (u ! 2)) @ ''.'' @ fmt_d (unat (u ! 3))))"

text \<open>
  \<^verbatim>\<open>ip_endpoint_pton\<close>: the address is copied into a buffer of 16 zero bytes; 16 characters or more
  before the last colon overflow it or leave it without an end.
\<close>

definition ip_endpoint_pton :: "host \<Rightarrow> string \<Rightarrow> ip_endpoint \<Rightarrow> (int \<times> ip_endpoint) option" where
  "ip_endpoint_pton h p n =
     (case strrchr p CHR '':'' of
        None \<Rightarrow> Some (-1, n)
      | Some (before, after) \<Rightarrow>
          if length before \<ge> IP_ADDR_STR_LEN then None
          else let (r, a) = ip_addr_pton h before (ep_addr n);
                   n = n\<lparr>ep_addr := a\<rparr>
               in if r = -1 then Some (-1, n)
                  else let (port, _) = strtol 10 after
                       in if port \<le> 0 \<or> port > 65535 then Some (-1, n)
                          else Some (0, n\<lparr>ep_port := hton16 h (mk16 (nat port))\<rparr>))"

definition ip_endpoint_ntop :: "host \<Rightarrow> ip_endpoint \<Rightarrow> nat \<Rightarrow> string" where
  "ip_endpoint_ntop h n sz =
     (let p = ip_addr_ntop h (ep_addr n) sz
      in p @ take (sz - length p - 1) ('':'' @ fmt_d (unat (ntoh16 h (ep_port n)))))"

section \<open>Round trips\<close>

lemma fmt_d_not_Nil [simp]: "fmt_d n \<noteq> []" "[] \<noteq> fmt_d n"
  using decimal_fmt_d [of n] by (auto simp: decimal_def)

lemma ip_pton_step:
  assumes "i < 3"
  shows "ip_pton_loop i (fmt_d (unat (b :: u8)) @ CHR ''.'' # rest) n = ip_pton_loop (Suc i) rest (n[i := b])"
proof -
  have "strtol 10 (fmt_d (unat b) @ CHR ''.'' # rest) = (int (unat b), CHR ''.'' # rest)"
    using unat_u8_less [of b] by (intro strtol_fmt_d) (simp_all add: LONG_MAX_def del: of_nat_unat)
  then show ?thesis using assms unat_u8_less [of b] by (simp add: ip_pton_loop.simps [of i] del: of_nat_unat)
qed

lemma ip_pton_last: "ip_pton_loop 3 (fmt_d (unat (b :: u8))) n = (0, n[3 := b])"
proof -
  have "strtol 10 (fmt_d (unat b) @ []) = (int (unat b), [])"
    using unat_u8_less [of b] by (intro strtol_fmt_d) (simp_all add: LONG_MAX_def del: of_nat_unat)
  then show ?thesis using unat_u8_less [of b] by (simp add: ip_pton_loop.simps del: of_nat_unat)
qed

definition dotted :: "u8 \<Rightarrow> u8 \<Rightarrow> u8 \<Rightarrow> u8 \<Rightarrow> string" where
  "dotted a b c d = fmt_d (unat a) @ CHR ''.'' # fmt_d (unat b) @ CHR ''.'' # fmt_d (unat c) @ CHR ''.'' # fmt_d (unat d)"

lemma length_fmt_u8: "length (fmt_d (unat (b :: u8))) \<le> 3"
  using unat_u8_less [of b] by (intro length_fmt_d) simp_all

lemma length_dotted: "length (dotted a b c d) \<le> 15"
  using length_fmt_u8 [of a] length_fmt_u8 [of b] length_fmt_u8 [of c] length_fmt_u8 [of d]
  by (simp add: dotted_def)

lemma ip_pton_dotted: "length n = 4 \<Longrightarrow> ip_pton_loop 0 (dotted a b c d) n = (0, [a, b, c, d])"
  using ip_pton_last [of d]
  by (auto simp: dotted_def ip_pton_step eval_nat_numeral length_Suc_conv)

lemma ip_addr_ntop_dotted:
  "16 \<le> sz \<Longrightarrow> ip_addr_ntop h (load32 h a b c d) sz = dotted a b c d"
  using length_dotted [of a b c d]
  by (simp add: ip_addr_ntop_def store32_load32 dotted_def)

lemma ip_addr_pton_dotted: "ip_addr_pton h (dotted a b c d) n = (0, load32 h a b c d)"
  by (simp add: ip_addr_pton_def ip_pton_dotted)

text \<open>
  An address printed into a buffer of \<^verbatim>\<open>IP_ADDR_STR_LEN\<close> bytes or more parses back to the same
  address, on hosts of either byte order, and takes at most 15 characters.
\<close>

theorem ip_addr_roundtrip:
  assumes "IP_ADDR_STR_LEN \<le> sz"
  shows "ip_addr_pton h (ip_addr_ntop h a sz) n = (0, a) \<and> length (ip_addr_ntop h a sz) \<le> 15"
proof -
  obtain b0 b1 b2 b3 where "a = load32 h b0 b1 b2 b3" by (rule load32_exhaust)
  then show ?thesis using assms by (simp add: ip_addr_ntop_dotted ip_addr_pton_dotted length_dotted)
qed

theorem ip_addr_roundtrip_witness:
  "IP_ADDR_STR_LEN \<le> 16 \<and> ip_addr_pton Little (ip_addr_ntop Little 0x0200A8C0 16) 0 = (0, 0x0200A8C0)"
  using ip_addr_roundtrip [of 16 Little "0x0200A8C0" 0] by simp

lemma strrchr_append:
  assumes "c \<notin> set t"
  shows "strrchr (s @ c # t) c = Some (s, t)"
proof -
  have "takeWhile (\<lambda>x. x \<noteq> c) (rev t @ c # rev s) = rev t @ takeWhile (\<lambda>x. x \<noteq> c) (c # rev s)"
    by (rule takeWhile_append2) (use assms in auto)
  moreover have "dropWhile (\<lambda>x. x \<noteq> c) (rev t @ c # rev s) = dropWhile (\<lambda>x. x \<noteq> c) (c # rev s)"
    by (rule dropWhile_append2) (use assms in auto)
  ultimately show ?thesis by (simp add: strrchr_def)
qed

lemma colon_notin_fmt_d: "CHR '':'' \<notin> set (fmt_d n)"
proof
  assume "CHR '':'' \<in> set (fmt_d n)"
  then obtain k where "k < 10" "CHR '':'' = digit_char k"
    using decimal_fmt_d [of n] by (auto simp: decimal_def)
  then show False using digit_char_neq [of k] by simp
qed

text \<open>
  An endpoint with a port other than 0, printed into a buffer of \<^verbatim>\<open>IP_ENDPOINT_STR_LEN\<close> bytes or
  more, parses back to the same endpoint without overflowing the address buffer.
\<close>

lemma ip_endpoint_roundtrip:
  assumes "IP_ENDPOINT_STR_LEN \<le> sz" "ep_port ep \<noteq> 0"
  shows "ip_endpoint_pton h (ip_endpoint_ntop h ep sz) n = Some (0, n\<lparr>ep_addr := ep_addr ep, ep_port := ep_port ep\<rparr>)"
proof -
  obtain b0 b1 b2 b3 where a: "ep_addr ep = load32 h b0 b1 b2 b3" by (rule load32_exhaust)
  let ?port = "ntoh16 h (ep_port ep)"
  have "length (fmt_d (unat ?port)) \<le> 5"
    using unat_u16_less [of ?port] by (intro length_fmt_d) simp_all
  then have p: "ip_endpoint_ntop h ep sz = dotted b0 b1 b2 b3 @ CHR '':'' # fmt_d (unat ?port)"
    using assms length_dotted [of b0 b1 b2 b3] by (simp add: ip_endpoint_ntop_def a ip_addr_ntop_dotted)
  have "?port \<noteq> 0" using assms(2) hton16_eq_iff [of h ?port 0] by (metis conversion_inverse(2) hton16_zero(1))
  then have port: "0 < unat ?port" by (simp add: unat_gt_0)
  have "strtol 10 (fmt_d (unat ?port) @ []) = (int (unat ?port), [])"
    using unat_u16_less [of ?port] by (intro strtol_fmt_d) (simp_all add: LONG_MAX_def del: of_nat_unat)
  then show ?thesis
    unfolding p using length_dotted [of b0 b1 b2 b3] port unat_u16_less [of ?port]
    by (simp add: ip_endpoint_pton_def strrchr_append colon_notin_fmt_d ip_addr_pton_dotted a del: of_nat_unat)
qed

end
