(* ===== verification/Checksum.thy ===== *)
theory Checksum
  imports Byteorder
begin

text \<open>
  The Internet checksum \<^verbatim>\<open>cksum16\<close> of \<^verbatim>\<open>util.c\<close>, with its two loops: the 32 bit sum of the 16 bit
  words as the host loads them, and the folding of the carries. The reference is the one's
  complement sum of RFC 1071 on natural numbers. The lemmas give the checksum in terms of that
  reference, show that a buffer with its checksum filled in verifies, that a changed word is
  noticed, and that the result does not depend on the byte order of the host.
\<close>

section \<open>Model\<close>

text \<open>
  \<^verbatim>\<open>while (count > 1)\<close> and the odd last byte; the sum wraps at 32 bits, a read past the end of the
  buffer is undefined.
\<close>

fun cksum_sum :: "host \<Rightarrow> bytes \<Rightarrow> nat \<Rightarrow> u32 \<Rightarrow> u32 option" where
  "cksum_sum h addr count sm =
     (if count > 1 then
        (case addr of
           a # b # addr' \<Rightarrow> cksum_sum h addr' (count - 2) (sm + ucast (load16 h a b))
         | _ \<Rightarrow> None)
      else if count > 0 then
        (case addr of a # _ \<Rightarrow> Some (sm + ucast a) | [] \<Rightarrow> None)
      else Some sm)"

declare cksum_sum.simps [simp del]

text \<open>\<^verbatim>\<open>while (sum >> 16)\<close>: every round makes the sum smaller.\<close>

lemma fold_step:
  "unat ((sm AND 0xffff) + drop_bit 16 sm :: u32) = unat sm mod 65536 + unat sm div 65536"
proof -
  have low: "sm AND 0xffff = mk32 (unat sm mod 65536)"
    using unat_take_bit_mod [of 16 sm]
    by (intro mk32_eqI) (simp add: take_bit_eq_mask mask_eq_exp_minus_1)
  have high: "drop_bit 16 sm = mk32 (unat sm div 65536)"
    using unat_drop_bit_div [of 16 sm] unat_u32_less [of sm] by (intro mk32_eqI) simp
  have "unat sm mod 65536 + unat sm div 65536 < 4294967296"
    using unat_u32_less [of sm] by linarith
  then show ?thesis
    by (simp only: low high mk_add unat_mk mod_less)
qed

lemma drop_bit_16_eq_0: "drop_bit 16 (sm :: u32) = 0 \<longleftrightarrow> unat sm < 65536"
  using unat_drop_bit_div [of 16 sm] by (simp add: unat_eq_0 [symmetric] div_eq_0_iff)

function cksum_fold :: "u32 \<Rightarrow> u32" where
  "cksum_fold sm =
     (if drop_bit 16 sm \<noteq> 0 then cksum_fold ((sm AND 0xffff) + drop_bit 16 sm) else sm)"
  by pat_completeness auto
termination
proof (relation "measure unat")
  show "wf (measure (unat :: u32 \<Rightarrow> nat))" by simp
next
  fix sm :: u32
  assume "drop_bit 16 sm \<noteq> 0"
  then have "65536 \<le> unat sm"
    by (simp add: drop_bit_16_eq_0 del: drop_bit_eq_div)
  then have "1 \<le> unat sm div 65536"
    by (simp add: Suc_le_eq div_greater_zero_iff)
  then have "unat sm mod 65536 + unat sm div 65536 < unat sm"
    using div_mult_mod_eq [of "unat sm" 65536] by linarith
  then show "((sm AND 0xffff) + drop_bit 16 sm, sm) \<in> measure unat"
    by (simp only: in_measure fold_step)
qed

declare cksum_fold.simps [simp del]

definition cksum16 :: "host \<Rightarrow> bytes \<Rightarrow> u16 \<Rightarrow> u32 \<Rightarrow> u16 option" where
  "cksum16 h addr count init = do {
     sm \<leftarrow> cksum_sum h addr (unat count) init;
     Some (NOT (ucast (cksum_fold sm)))
   }"

section \<open>The reference: one's complement sums\<close>

fun sum16 :: "host \<Rightarrow> bytes \<Rightarrow> nat" where
  "sum16 h [] = 0"
| "sum16 h [a] = unat a"
| "sum16 h (a # b # bs) = unat (load16 h a b) + sum16 h bs"

definition ones_sum :: "nat \<Rightarrow> nat" where
  "ones_sum n = (if n = 0 then 0 else (n - 1) mod 65535 + 1)"

definition inet_checksum :: "nat \<Rightarrow> u16" where
  "inet_checksum n = mk16 (65535 - ones_sum n)"

lemma cksum_sum_eq:
  "cksum_sum h bs n s = (if n \<le> length bs then Some (s + mk32 (sum16 h (take n bs))) else None)"
proof (induction h bs n s rule: cksum_sum.induct)
  case (1 h bs n s)
  consider "n = 0" | "n = 1" | m where "n = Suc (Suc m)"
    by (metis One_nat_def not0_implies_Suc)
  then show ?case
  proof cases
    case 1
    then show ?thesis by (simp add: cksum_sum.simps)
  next
    case 2
    then show ?thesis
      by (auto simp: cksum_sum.simps mk32_def split: list.splits)
  next
    case (3 m)
    show ?thesis
    proof (cases bs)
      case Nil
      with 3 show ?thesis by (simp add: cksum_sum.simps)
    next
      case (Cons a bs')
      show ?thesis
      proof (cases bs')
        case Nil
        with 3 Cons show ?thesis by (simp add: cksum_sum.simps)
      next
        case (Cons b bs'')
        with 1 3 \<open>bs = a # bs'\<close> show ?thesis
          by (simp add: cksum_sum.simps [of h _ "Suc (Suc m)"] mk32_def del: load16.simps)
      qed
    qed
  qed
qed

lemma ones_sum_le: "ones_sum n \<le> 65535"
  using mod_less_divisor [of 65535 "n - 1"] by (simp add: ones_sum_def del: mod_less_divisor)

lemma ones_sum_cong:
  assumes "0 < m" "0 < n" "m mod 65535 = n mod 65535"
  shows "ones_sum m = ones_sum n"
proof -
  from assms(3) obtain a b where "m + 65535 * a = n + 65535 * b"
    by (auto simp: nat_mod_eq_iff)
  with assms(1,2) have "(m - 1) + 65535 * a = (n - 1) + 65535 * b"
    by linarith
  then have "(m - 1) mod 65535 = (n - 1) mod 65535"
    by (auto simp: nat_mod_eq_iff)
  with assms show ?thesis by (simp add: ones_sum_def)
qed

lemma ones_sum_small: "n \<le> 65535 \<Longrightarrow> ones_sum n = n"
  by (cases n) (simp_all add: ones_sum_def)

lemma unat_cksum_fold: "unat (cksum_fold s) = ones_sum (unat s)"
proof (induction s rule: cksum_fold.induct)
  case (1 s)
  show ?case
  proof (cases "drop_bit 16 s = 0")
    case True
    then have "unat s \<le> 65535"
      by (simp add: drop_bit_16_eq_0 del: drop_bit_eq_div)
    with True show ?thesis
      by (subst cksum_fold.simps) (simp add: ones_sum_small del: drop_bit_eq_div)
  next
    case False
    then have big: "65536 \<le> unat s"
      by (simp add: drop_bit_16_eq_0 del: drop_bit_eq_div)
    let ?n = "unat s"
    have "?n = ?n mod 65536 + 65536 * (?n div 65536)"
      by simp
    then have "?n = (?n mod 65536 + ?n div 65536) + 65535 * (?n div 65536)"
      by linarith
    then have "?n mod 65535 = (?n mod 65536 + ?n div 65536) mod 65535"
      by (metis mod_mult_self2)
    moreover have "0 < ?n mod 65536 + ?n div 65536"
      using big by (simp add: div_greater_zero_iff)
    ultimately have "ones_sum (?n mod 65536 + ?n div 65536) = ones_sum ?n"
      using big by (intro ones_sum_cong) simp_all
    with 1 [OF False] False show ?thesis
      by (subst cksum_fold.simps) (simp only: fold_step if_True not_False_eq_True)
  qed
qed

lemma sum16_le: "sum16 h bs \<le> 65535 * ((length bs + 1) div 2)"
proof (induction h bs rule: sum16.induct)
  case (2 h a)
  then show ?case using unat_u8_less [of a] by simp
next
  case (3 h a b bs)
  then show ?case using unat_u16_less [of "load16 h a b"] by (simp del: load16.simps)
qed simp

lemma sum16_take_less: "sum16 h (take (unat (n :: u16)) bs) < 2147483648"
proof -
  have "length (take (unat n) bs) \<le> 65535"
    using unat_u16_less [of n] by simp
  then have "65535 * ((length (take (unat n) bs) + 1) div 2) < 2147483648"
    by linarith
  with sum16_le [of h "take (unat n) bs"] show ?thesis by linarith
qed

lemma not_mk16:
  assumes "k \<le> 65535"
  shows "NOT (mk16 k) = mk16 (65535 - k)"
proof -
  have "NOT (mk16 k) + mk16 k = mk16 (65535 - k) + mk16 k"
    using assms by (simp add: mk_add not_eq_complement)
  then show ?thesis by simp
qed

lemma unat_not_checksum: "unat (NOT (inet_checksum n)) = ones_sum n"
  using ones_sum_le [of n] by (simp add: inet_checksum_def not_mk16)

lemma not_ucast_fold: "NOT (ucast (cksum_fold s) :: u16) = inet_checksum (unat s)"
proof -
  have "unat (ucast (cksum_fold s) :: u16) = ones_sum (unat s)"
    using ones_sum_le [of "unat s"] by (simp add: unsigned_ucast_eq take_bit_eq_mod unat_cksum_fold)
  then have "(ucast (cksum_fold s) :: u16) = mk16 (ones_sum (unat s))"
    using ones_sum_le [of "unat s"] by (intro mk16_eqI) simp
  then show ?thesis
    by (simp add: inet_checksum_def ones_sum_le not_mk16)
qed

section \<open>The checksum and the reference\<close>

lemma cksum16_eq:
  assumes "unat init < 2147483648"
  shows "cksum16 h bs n init =
     (if unat n \<le> length bs
      then Some (inet_checksum (unat init + sum16 h (take (unat n) bs))) else None)"
proof (cases "unat n \<le> length bs")
  case True
  have "init + mk32 (sum16 h (take (unat n) bs)) =
      mk32 (unat init + sum16 h (take (unat n) bs))"
    by (simp add: mk_add [symmetric])
  moreover have "unat (mk32 (unat init + sum16 h (take (unat n) bs))) =
      unat init + sum16 h (take (unat n) bs)"
    using assms sum16_take_less [of h n bs] by simp
  ultimately show ?thesis
    using True by (simp add: cksum16_def cksum_sum_eq not_ucast_fold)
next
  case False
  then show ?thesis by (simp add: cksum16_def cksum_sum_eq)
qed

lemma inet_checksum_0: "inet_checksum n = 0 \<longleftrightarrow> 0 < n \<and> 65535 dvd n"
proof (cases n)
  case 0
  then show ?thesis by (simp add: inet_checksum_def ones_sum_def)
next
  case (Suc k)
  have "inet_checksum n = 0 \<longleftrightarrow> (65535 - ones_sum n) mod 65536 = 0"
    by (simp only: inet_checksum_def word_unat_eq_iff unat_mk unat_0)
  also have "\<dots> \<longleftrightarrow> ones_sum n = 65535"
    using ones_sum_le [of n] by auto
  also have "\<dots> \<longleftrightarrow> Suc k mod 65535 = 0"
    unfolding Suc ones_sum_def by (simp add: mod_Suc)
  finally show ?thesis
    using Suc by (simp add: dvd_eq_mod_eq_0)
qed

lemma sum16_append:
  "even (length xs) \<Longrightarrow> sum16 h (xs @ ys) = sum16 h xs + sum16 h ys"
  by (induction h xs rule: sum16.induct) auto

lemma sum16_store16 [simp]: "sum16 h (store16 h w) = unat w"
proof -
  obtain a b where "w = load16 h a b" by (rule load_exhaust)
  then show ?thesis by (simp add: store16_load16 del: load16.simps)
qed

lemma sum16_zeros [simp]: "sum16 h [0, 0] = 0"
  by (cases h) (simp_all add: mem_eval)

text \<open>Adding the checksum of a sum to it gives a sum that verifies.\<close>

lemma verify_sum: "0 < n + unat (inet_checksum n) \<and> 65535 dvd n + unat (inet_checksum n)"
proof (cases n)
  case 0
  then show ?thesis by (simp add: inet_checksum_def ones_sum_def)
next
  case (Suc k)
  have c: "unat (inet_checksum n) = 65535 - ones_sum n"
    by (simp add: inet_checksum_def)
  have o: "ones_sum n = k mod 65535 + 1"
    using Suc by (simp add: ones_sum_def)
  have "k mod 65535 < 65535" by simp
  then have "n + unat (inet_checksum n) = 65535 * (k div 65535) + 65535"
    using c o Suc div_mult_mod_eq [of k 65535] by linarith
  then show ?thesis
    using Suc by simp
qed

text \<open>A buffer with the 16 bit field at offset \<open>i\<close> set.\<close>

definition set16 :: "host \<Rightarrow> bytes \<Rightarrow> nat \<Rightarrow> u16 \<Rightarrow> bytes" where
  "set16 h bs i w = take i bs @ store16 h w @ drop (i + 2) bs"

lemma length_set16 [simp]: "i + 2 \<le> length bs \<Longrightarrow> length (set16 h bs i w) = length bs"
  by (simp add: set16_def)

lemma sum16_set16:
  assumes "even i" "i + 2 \<le> n" "n \<le> length bs"
  shows "sum16 h (take n (set16 h bs i w)) =
    unat w + (sum16 h (take i bs) + sum16 h (take (n - (i + 2)) (drop (i + 2) bs)))"
proof -
  have "take n (set16 h bs i w) =
      take i bs @ store16 h w @ take (n - (i + 2)) (drop (i + 2) bs)"
    using assms by (simp add: set16_def take_append min_absorb2)
  with assms show ?thesis
    by (simp add: sum16_append)
qed

lemmas cksum_eval = mem_eval cksum16_eq inet_checksum_def ones_sum_def set16_def

lemma mod_gap:
  fixes x y k :: nat
  assumes "65535 dvd x + k" "65535 dvd y + k" "x \<le> 65535" "y \<le> 65535"
  shows "x = y \<or> x = 0 \<and> y = 65535 \<or> x = 65535 \<and> y = 0"
proof -
  have "65535 dvd int x - int y"
    using assms(1,2) dvd_diff [of 65535 "int (x + k)" "int (y + k)"]
    by (metis (no_types, lifting) add_diff_cancel_right int_dvd_int_iff of_nat_add of_nat_numeral)
  then obtain q where q: "int x - int y = 65535 * q" by (elim dvdE)
  with assms(3,4) have "q = 0 \<or> q = 1 \<or> q = - 1" by linarith
  with q assms(3,4) show ?thesis by auto
qed

text \<open>The two byte orders: modulo 65535, swapping the bytes is multiplication by 256.\<close>

lemma sum16_swap:
  "even (length bs) \<Longrightarrow>
   (sum16 Big bs = 0 \<longleftrightarrow> sum16 Little bs = 0) \<and> (256 * sum16 Little bs) mod 65535 = sum16 Big bs mod 65535"
proof (induction Big bs rule: sum16.induct)
  case (3 a b bs)
  have load: "256 * unat (load16 Little a b) = unat (load16 Big a b) + 65535 * unat b"
    by (simp add: unat_load16 del: load16.simps)
  from 3 have IH: "(256 * sum16 Little bs) mod 65535 = sum16 Big bs mod 65535"
    and zero: "sum16 Big bs = 0 \<longleftrightarrow> sum16 Little bs = 0"
    by simp_all
  have "256 * sum16 Little (a # b # bs) =
      (unat (load16 Big a b) + 256 * sum16 Little bs) + 65535 * unat b"
    by (simp add: load distrib_left del: load16.simps)
  then have "(256 * sum16 Little (a # b # bs)) mod 65535 =
      (unat (load16 Big a b) + 256 * sum16 Little bs) mod 65535"
    by (simp only: mod_mult_self2)
  also have "\<dots> = (unat (load16 Big a b) + sum16 Big bs) mod 65535"
    using IH by (rule mod_add_cong [OF refl])
  finally show ?case
    using zero by (auto simp: unat_load16 simp del: load16.simps)
qed simp_all

lemma byteswap16_mod: "(256 * unat w) mod 65535 = unat (byteswap16 w) mod 65535"
proof -
  have "256 * unat w = unat (byteswap16 w) + 65535 * (unat w div 256)"
    using div_mult_mod_eq [of "unat w" 256] unat_byteswap16 [of w] by linarith
  then show ?thesis by simp
qed

lemma byteswap16_eq_0: "unat (byteswap16 w) = 0 \<longleftrightarrow> unat w = 0"
  using div_mult_mod_eq [of "unat w" 256] unat_byteswap16 [of w] by linarith

lemma byteswap16_complement:
  assumes "m \<le> 65535"
  shows "byteswap16 (mk16 (65535 - m)) = mk16 (65535 - unat (byteswap16 (mk16 m)))"
proof -
  let ?q = "m div 256" and ?r = "m mod 256"
  have "?q \<le> 255" "?r \<le> 255" "m = 256 * ?q + ?r"
    using assms by simp_all
  then have "65535 - m = (255 - ?r) + 256 * (255 - ?q)" "255 - ?r < 256"
    by linarith+
  moreover have "(p + 256 * x) div 256 = x \<and> (p + 256 * x) mod 256 = p" if "p < 256" for p x :: nat
    using that by simp
  ultimately have d: "(65535 - m) div 256 = 255 - ?q" and r: "(65535 - m) mod 256 = 255 - ?r"
    by presburger+
  have small: "(65535 - k) mod 65536 = 65535 - k" for k :: nat
    by (rule mod_less) simp
  have "?q + 256 * ?r \<le> 65535"
    using \<open>?q \<le> 255\<close> \<open>?r \<le> 255\<close> by linarith
  with \<open>?q \<le> 255\<close> \<open>?r \<le> 255\<close> have "(255 - ?q) + 256 * (255 - ?r) = 65535 - (?q + 256 * ?r)"
    by linarith
  with assms show ?thesis
    by (intro mk16_eqI) (simp only: unat_byteswap16 unat_mk small d r mod_less less_Suc_eq_le)
qed

lemma inet_checksum_swap:
  assumes "m = 0 \<longleftrightarrow> n = 0" and "(256 * m) mod 65535 = n mod 65535"
  shows "inet_checksum n = byteswap16 (inet_checksum m)"
proof -
  let ?w = "mk16 (ones_sum m)"
  have w: "unat ?w = ones_sum m"
    using ones_sum_le [of m] by simp
  have b: "unat (byteswap16 ?w) \<le> 65535"
    using unat_u16_less [of "byteswap16 ?w"] by simp
  have "unat (byteswap16 ?w) = ones_sum n"
  proof (cases "m = 0")
    case True
    with assms(1) show ?thesis by (simp add: ones_sum_def unat_byteswap16)
  next
    case False
    then have pos: "0 < ones_sum m"
      by (simp add: ones_sum_def)
    have "ones_sum m mod 65535 = m mod 65535"
      using False by (cases m) (simp_all add: ones_sum_def mod_Suc_eq)
    then have "unat (byteswap16 ?w) mod 65535 = n mod 65535"
      using byteswap16_mod [of ?w] assms(2) mod_mult_cong [OF refl, of "ones_sum m" 65535 m 256]
      unfolding w by simp
    moreover have "0 < unat (byteswap16 ?w)"
      using byteswap16_eq_0 [of ?w] w pos by simp
    ultimately have "ones_sum (unat (byteswap16 ?w)) = ones_sum n"
      using False assms(1) by (intro ones_sum_cong) auto
    then show ?thesis
      using ones_sum_small [OF b] by simp
  qed
  then show ?thesis
    by (simp add: inet_checksum_def byteswap16_complement ones_sum_le)
qed

section \<open>Properties\<close>

text \<open>
  C4. \<^verbatim>\<open>cksum16\<close> computes the Internet checksum of RFC 1071: with a start value below \<open>2 ^ 31\<close> (all
  callers pass 0 or a 16 bit partial sum) the 32 bit accumulator never wraps, whatever the
  length, and the result is the complement of the one's complement sum of the start value and
  the 16 bit words of the first \<open>n\<close> bytes, an odd last byte counting as itself; the read is out
  of bounds exactly when the buffer is shorter than \<open>n\<close>.
\<close>

theorem cksum16_rfc1071:
  assumes "unat init < 2147483648"
  shows "cksum16 h bs n init =
     (if unat n \<le> length bs
      then Some (mk16 (65535 - ones_sum (unat init + sum16 h (take (unat n) bs)))) else None)"
  using cksum16_eq [OF assms] by (simp add: inet_checksum_def)

theorem cksum16_rfc1071_witness:
  "cksum16 Little [0x45, 0, 0, 0x1c, 7] 5 0 =
     Some (mk16 (65535 - ones_sum (sum16 Little [0x45, 0, 0, 0x1c, 7])))"
  using cksum16_rfc1071 [of 0 Little "[0x45, 0, 0, 0x1c, 7]" 5] by simp

text \<open>
  Filling in and verifying: when \<^verbatim>\<open>cksum16\<close> of a buffer whose 16 bit field at an even offset
  is zero returns \<open>c\<close>, and \<open>c\<close> is then stored in that field, \<^verbatim>\<open>cksum16\<close> over the same bytes with
  the same start value returns 0.
\<close>

theorem cksum16_fill_verifies:
  assumes "unat init < 2147483648" and "even i" and "i + 2 \<le> unat n" and "unat n \<le> length bs"
    and "cksum16 h (set16 h bs i 0) n init = Some c"
  shows "cksum16 h (set16 h bs i c) n init = Some 0"
proof -
  let ?rest = "sum16 h (take i bs) + sum16 h (take (unat n - (i + 2)) (drop (i + 2) bs))"
  have "c = inet_checksum (unat init + ?rest)"
    using assms(5) cksum16_eq [OF assms(1)] assms(2-4) by (auto simp: sum16_set16 split: if_splits)
  then show ?thesis
    using verify_sum [of "unat init + ?rest"] cksum16_eq [OF assms(1)] assms(2-4)
    by (simp add: sum16_set16 inet_checksum_0 ac_simps)
qed

theorem cksum16_fill_verifies_witness:
  "cksum16 Big (set16 Big [8, 0, 0, 0, 1, 2] 2 0xf6fd) 6 0 = Some 0"
proof (rule cksum16_fill_verifies)
  show "cksum16 Big (set16 Big [8, 0, 0, 0, 1, 2] 2 0) 6 0 = Some 0xf6fd"
    by (simp add: cksum_eval)
qed simp_all

text \<open>
  Error detection: two buffers that differ in a single 16 bit word both verify only when the
  two words are the two representations \<open>0\<close> and \<open>0xffff\<close> of zero.
\<close>

lemma cksum16_detects_word:
  assumes "unat init < 2147483648" and "even i" and "i + 2 \<le> unat n" and "unat n \<le> length bs"
    and "cksum16 h (set16 h bs i x) n init = Some 0"
    and "cksum16 h (set16 h bs i y) n init = Some 0"
  shows "x = y \<or> x = 0 \<and> y = 0xffff \<or> x = 0xffff \<and> y = 0"
proof -
  let ?k = "unat init + (sum16 h (take i bs) + sum16 h (take (unat n - (i + 2)) (drop (i + 2) bs)))"
  have "65535 dvd unat x + ?k" "65535 dvd unat y + ?k"
    using assms(5,6) cksum16_eq [OF assms(1)] assms(2-4)
    by (simp_all add: sum16_set16 inet_checksum_0 ac_simps)
  moreover have "unat x \<le> 65535" "unat y \<le> 65535"
    using unat_u16_less [of x] unat_u16_less [of y] by simp_all
  ultimately have "unat x = unat y \<or> unat x = 0 \<and> unat y = 65535 \<or> unat x = 65535 \<and> unat y = 0"
    by (rule mod_gap)
  then show ?thesis
    by (simp add: word_unat_eq_iff)
qed

text \<open>
  Byte order independence: over an even number of bytes a little-endian host computes the
  byte-swapped value of what a big-endian host computes, so both store the same two bytes into
  the packet.
\<close>

theorem cksum16_byte_order:
  assumes "even (unat n)" and "cksum16 Little bs n 0 = Some cl" and "cksum16 Big bs n 0 = Some cb"
  shows "cb = byteswap16 cl \<and> store16 Little cl = store16 Big cb"
proof -
  have len: "unat n \<le> length bs"
    using assms(2) by (auto simp: cksum16_eq split: if_splits)
  then have "even (length (take (unat n) bs))"
    using assms(1) by (simp add: min_absorb2)
  then have "inet_checksum (sum16 Big (take (unat n) bs)) =
      byteswap16 (inet_checksum (sum16 Little (take (unat n) bs)))"
    using sum16_swap by (intro inet_checksum_swap) auto
  then have cb: "cb = byteswap16 cl"
    using assms(2,3) len by (simp add: cksum16_eq)
  then show ?thesis
    using store_hton(1) [of Little "byteswap16 cl"] by (simp only: conversion_cases host.case byteswap16_byteswap16)
qed

theorem cksum16_byte_order_witness:
  "cksum16 Big [8, 0, 1, 2] 4 0 = Some 0xf6fd \<and> cksum16 Little [8, 0, 1, 2] 4 0 = Some 0xfdf6 \<and>
   0xf6fd = byteswap16 0xfdf6 \<and> store16 Little 0xfdf6 = store16 Big 0xf6fd"
proof -
  have b: "cksum16 Big [8, 0, 1, 2] 4 0 = Some 0xf6fd" by (simp add: cksum_eval)
  have l: "cksum16 Little [8, 0, 1, 2] 4 0 = Some 0xfdf6" by (simp add: cksum_eval)
  show ?thesis
    using b l cksum16_byte_order [OF _ l b] by simp
qed

text \<open>Whether an even number of bytes verifies does not depend on the host.\<close>

lemma verifies_host:
  assumes "even (length bs)"
  shows "inet_checksum (sum16 h bs) = 0 \<longleftrightarrow> inet_checksum (sum16 h' bs) = 0"
proof -
  have "inet_checksum (sum16 Big bs) = byteswap16 (inet_checksum (sum16 Little bs))"
    using sum16_swap [OF assms] by (intro inet_checksum_swap) auto
  then have "inet_checksum (sum16 Big bs) = 0 \<longleftrightarrow> inet_checksum (sum16 Little bs) = 0"
    using byteswap16_eq_0 [of "inet_checksum (sum16 Little bs)"] by (simp add: word_unat_eq_iff)
  then show ?thesis by (cases h; cases h') simp_all
qed

end
