(* ===== verification/Ip.thy ===== *)
theory Ip
  imports Arp Ip_Addr Checksum
begin

text \<open>
  The internet protocol, \<^verbatim>\<open>ip.c\<close>: interfaces, the routing table, the protocol table, input with its
  validity checks, and output. The handlers in the protocol table are called through a function
  that the theory \<open>Stack\<close> provides; here it is the argument \<open>call\<close> of the input function.
\<close>

section \<open>Model\<close>

definition IP_VERSION_IPV4 :: nat where [simp]: "IP_VERSION_IPV4 = 4"
definition IP_HDR_SIZE_MIN :: nat where [simp]: "IP_HDR_SIZE_MIN = 20"
definition IP_HDR_SIZE_MAX :: nat where [simp]: "IP_HDR_SIZE_MAX = 60"
definition IP_TOTAL_SIZE_MAX :: nat where [simp]: "IP_TOTAL_SIZE_MAX = 65535"
definition IP_PAYLOAD_SIZE_MAX :: nat where [simp]: "IP_PAYLOAD_SIZE_MAX = IP_TOTAL_SIZE_MAX - IP_HDR_SIZE_MIN"
definition IP_PROTOCOL_ICMP :: u8 where [simp]: "IP_PROTOCOL_ICMP = 1"
definition IP_PROTOCOL_TCP :: u8 where [simp]: "IP_PROTOCOL_TCP = 6"
definition IP_PROTOCOL_UDP :: u8 where [simp]: "IP_PROTOCOL_UDP = 17"

datatype ip_handler = Icmp_input | Udp_input | Tcp_input

record ip_protocol =
  ip_type :: u8
  ip_handler :: ip_handler

record ip_route =
  network :: u32
  route_netmask :: u32
  nexthop :: u32
  route_iface :: ip_iface

record ip = arp +
  ip_ifaces :: "ip_iface list"
  ip_protocols :: "ip_protocol list"
  routes :: "ip_route list"
  ip_id :: u16

subsection \<open>Routes\<close>

definition ip_route_add ::
  "u32 \<Rightarrow> u32 \<Rightarrow> u32 \<Rightarrow> ip_iface \<Rightarrow> 'z ip_scheme \<Rightarrow> ip_route option \<times> 'z ip_scheme" where
  "ip_route_add net nm hop iface s =
     (let (ok, s) = memory_alloc s
      in if \<not> ok then (None, s)
         else let route = \<lparr>network = net, route_netmask = nm, nexthop = hop, route_iface = iface\<rparr>
              in (Some route, s\<lparr>routes := route # routes s\<rparr>))"

fun ip_route_loop :: "host \<Rightarrow> u32 \<Rightarrow> ip_route option \<Rightarrow> ip_route list \<Rightarrow> ip_route option" where
  "ip_route_loop h dst candidate [] = candidate"
| "ip_route_loop h dst candidate (route # rest) =
     (if dst AND route_netmask route = network route
      then case candidate of
             None \<Rightarrow> ip_route_loop h dst (Some route) rest
           | Some c \<Rightarrow> if ntoh32 h (route_netmask c) < ntoh32 h (route_netmask route)
                       then ip_route_loop h dst (Some route) rest
                       else ip_route_loop h dst candidate rest
      else ip_route_loop h dst candidate rest)"

definition ip_route_lookup :: "u32 \<Rightarrow> 'z ip_scheme \<Rightarrow> ip_route option" where
  "ip_route_lookup dst s = ip_route_loop (host_order s) dst None (routes s)"

definition ip_route_set_default_gateway :: "ip_iface \<Rightarrow> string \<Rightarrow> 'z ip_scheme \<Rightarrow> int \<times> 'z ip_scheme" where
  "ip_route_set_default_gateway iface gateway s =
     (let (r, gw) = ip_addr_pton (host_order s) gateway 0
      in if r = -1 then (-1, s)
         else let (route, s) = ip_route_add IP_ADDR_ANY IP_ADDR_ANY gw iface s
              in if route = None then (-1, s) else (0, s))"

definition ip_route_get_iface :: "u32 \<Rightarrow> 'z ip_scheme \<Rightarrow> ip_iface option" where
  "ip_route_get_iface dst s = map_option route_iface (ip_route_lookup dst s)"

subsection \<open>Interfaces and protocols\<close>

definition ip_iface_alloc :: "string \<Rightarrow> string \<Rightarrow> 'z ip_scheme \<Rightarrow> ip_iface option \<times> 'z ip_scheme" where
  "ip_iface_alloc uni nm s =
     (let (ok, s) = memory_alloc s
      in if \<not> ok then (None, s)
         else let (r, u) = ip_addr_pton (host_order s) uni 0
              in if r \<noteq> 0 then (None, s)
                 else let (r, m) = ip_addr_pton (host_order s) nm 0
                      in if r \<noteq> 0 then (None, s)
                         else (Some \<lparr>family = NET_IFACE_FAMILY_IP, iface_dev = 0, unicast = u, netmask = m,
                                     broadcast = (u AND m) OR (if m = 0 then 1 else 0)\<rparr>, s))"

definition ip_iface_register :: "dev_id \<Rightarrow> ip_iface \<Rightarrow> 'z ip_scheme \<Rightarrow> (int \<times> ip_iface \<times> 'z ip_scheme) option" where
  "ip_iface_register dev iface s = do {
     (r, iface, s) \<leftarrow> net_device_add_iface dev iface s;
     if r = -1 then Some (-1, iface, s)
     else do {
       let (route, s) = ip_route_add (unicast iface AND netmask iface) (netmask iface) IP_ADDR_ANY iface s;
       if route = None then Some (-1, iface, s)
       else Some (0, iface, s\<lparr>ip_ifaces := iface # ip_ifaces s\<rparr>)
     }
   }"

definition ip_iface_select :: "u32 \<Rightarrow> 'z ip_scheme \<Rightarrow> ip_iface option" where
  "ip_iface_select a s = find (\<lambda>iface. unicast iface = a) (ip_ifaces s)"

definition ip_protocol_register :: "u8 \<Rightarrow> ip_handler \<Rightarrow> 'z ip_scheme \<Rightarrow> int \<times> 'z ip_scheme" where
  "ip_protocol_register type handler s =
     (if \<exists>entry \<in> set (ip_protocols s). ip_type entry = type then (-1, s)
      else let (ok, s) = memory_alloc s
           in if \<not> ok then (-1, s)
              else (0, s\<lparr>ip_protocols := \<lparr>ip_type = type, ip_handler = handler\<rparr> # ip_protocols s\<rparr>))"

subsection \<open>Input\<close>

text \<open>
  The length \<^verbatim>\<open>total - hlen\<close> given to the handler is converted from \<^verbatim>\<open>int\<close> to \<^verbatim>\<open>size_t\<close>: a negative
  difference wraps around.
\<close>

definition ip_input ::
  "(ip_handler \<Rightarrow> bytes \<Rightarrow> nat \<Rightarrow> u32 \<Rightarrow> u32 \<Rightarrow> ip_iface \<Rightarrow> 'z ip_scheme \<Rightarrow> 'z ip_scheme option) \<Rightarrow>
   bytes \<Rightarrow> nat \<Rightarrow> dev_id \<Rightarrow> 'z ip_scheme \<Rightarrow> 'z ip_scheme option" where
  "ip_input call data len dev s =
     (if len < IP_HDR_SIZE_MIN then Some s
      else do {
        let h = host_order s;
        vhl \<leftarrow> rd8 data 0;
        if unat vhl div 16 \<noteq> IP_VERSION_IPV4 then Some s
        else do {
          let hl = (unat vhl mod 16) * 4;
          if len < hl then Some s
          else do {
            total \<leftarrow> rd16 h data 2;
            let total = ntoh16 h total;
            if len < unat total then Some s
            else do {
              sm \<leftarrow> cksum16 h data (mk16 hl) 0;
              if sm \<noteq> 0 then Some s
              else do {
                offset \<leftarrow> rd16 h data 6;
                let offset = ntoh16 h offset;
                if offset AND 0x2000 \<noteq> 0 \<or> offset AND 0x1fff \<noteq> 0 then Some s
                else do {
                  d \<leftarrow> dev_tab s dev;
                  case net_device_get_iface d NET_IFACE_FAMILY_IP of
                    None \<Rightarrow> Some s
                  | Some iface \<Rightarrow> do {
                      protocol \<leftarrow> rd8 data 9;
                      src \<leftarrow> rd32 h data 12;
                      dst \<leftarrow> rd32 h data 16;
                      if dst \<noteq> unicast iface \<and> dst \<noteq> IP_ADDR_BROADCAST \<and> dst \<noteq> broadcast iface then Some s
                      else case find (\<lambda>p. ip_type p = protocol) (ip_protocols s) of
                        None \<Rightarrow> Some s
                      | Some p \<Rightarrow> call (ip_handler p) (drop hl data) (size_of_int (int (unat total) - int hl))
                                    src dst iface s
                    }
                }
              }
            }
          }
        }
      })"

subsection \<open>Output\<close>

definition ip_output_device :: "ip_iface \<Rightarrow> bytes \<Rightarrow> nat \<Rightarrow> u32 \<Rightarrow> 'z ip_scheme \<Rightarrow> (int \<times> 'z ip_scheme) option" where
  "ip_output_device iface data len dst s = do {
     d \<leftarrow> dev_tab s (iface_dev iface);
     let hwaddr = replicate NET_DEVICE_ADDR_LEN 0;
     (ret, hwaddr, s) \<leftarrow>
       (if dev_flags d AND NET_DEVICE_FLAG_NEED_ARP \<noteq> 0
        then if dst = broadcast iface \<or> dst = IP_ADDR_BROADCAST
             then do {
               b \<leftarrow> rd_bytes (dev_broadcast d) 0 (unat (dev_alen d));
               hwaddr \<leftarrow> wr_bytes hwaddr 0 b;
               Some (ARP_RESOLVE_FOUND, hwaddr, s)
             }
             else arp_resolve iface dst hwaddr s
        else Some (ARP_RESOLVE_FOUND, hwaddr, s));
     if ret \<noteq> ARP_RESOLVE_FOUND then Some (ret, s)
     else net_device_output (iface_dev iface) NET_PROTOCOL_TYPE_IP data len hwaddr s
   }"

text \<open>The header as it is in memory, and the header with its checksum filled in.\<close>

definition ip_hdr :: "host \<Rightarrow> u8 \<Rightarrow> u16 \<Rightarrow> u16 \<Rightarrow> u16 \<Rightarrow> u16 \<Rightarrow> u32 \<Rightarrow> u32 \<Rightarrow> bytes" where
  "ip_hdr h protocol tot i offset sm src dst =
     [mk8 (IP_VERSION_IPV4 * 16 + IP_HDR_SIZE_MIN div 4), 0] @ store16 h (hton16 h tot) @
     store16 h (hton16 h i) @ store16 h (hton16 h offset) @ [255, protocol] @ store16 h sm @
     store32 h src @ store32 h dst"

definition ip_output_core ::
  "ip_iface \<Rightarrow> u8 \<Rightarrow> bytes \<Rightarrow> nat \<Rightarrow> u32 \<Rightarrow> u32 \<Rightarrow> u32 \<Rightarrow> u16 \<Rightarrow> u16 \<Rightarrow> 'z ip_scheme \<Rightarrow>
   (int \<times> 'z ip_scheme) option" where
  "ip_output_core iface protocol data len src dst hop i offset s = do {
     let h = host_order s;
     let total = mk16 (IP_HDR_SIZE_MIN + len);
     sm \<leftarrow> cksum16 h (ip_hdr h protocol total i offset 0 src dst) (mk16 IP_HDR_SIZE_MIN) 0;
     payload \<leftarrow> rd_bytes data 0 len;
     if IP_HDR_SIZE_MIN + len > IP_TOTAL_SIZE_MAX then None
     else ip_output_device iface (ip_hdr h protocol total i offset sm src dst @ payload) (unat total) hop s
   }"

definition ip_generate_id :: "'z ip_scheme \<Rightarrow> u16 \<times> 'z ip_scheme" where
  "ip_generate_id s = (ip_id s, s\<lparr>ip_id := ip_id s + 1\<rparr>)"

definition ip_output :: "u8 \<Rightarrow> bytes \<Rightarrow> nat \<Rightarrow> u32 \<Rightarrow> u32 \<Rightarrow> 'z ip_scheme \<Rightarrow> (int \<times> 'z ip_scheme) option" where
  "ip_output protocol data len src dst s =
     (if src = IP_ADDR_ANY \<and> dst = IP_ADDR_BROADCAST then Some (-1, s)
      else case ip_route_lookup dst s of
        None \<Rightarrow> Some (-1, s)
      | Some route \<Rightarrow> do {
          let iface = route_iface route;
          if src \<noteq> IP_ADDR_ANY \<and> src \<noteq> unicast iface then Some (-1, s)
          else do {
            let hop = (if nexthop route \<noteq> IP_ADDR_ANY then nexthop route else dst);
            d \<leftarrow> dev_tab s (iface_dev iface);
            if unat (mtu d) < IP_HDR_SIZE_MIN + len then Some (-1, s)
            else do {
              let (i, s) = ip_generate_id s;
              (r, s) \<leftarrow> ip_output_core iface protocol data len (unicast iface) dst hop i 0 s;
              if r = -1 then Some (-1, s) else Some (int len, s)
            }
          }
        })"

definition ip_init :: "'z ip_scheme \<Rightarrow> int \<times> 'z ip_scheme" where
  "ip_init s =
     (let (r, s) = net_protocol_register NET_PROTOCOL_TYPE_IP Ip_input s
      in if r = -1 then (-1, s) else (0, s))"

section \<open>Routing\<close>

definition route_matches :: "u32 \<Rightarrow> ip_route \<Rightarrow> bool" where
  "route_matches dst r \<longleftrightarrow> dst AND route_netmask r = network r"

definition route_rank :: "host \<Rightarrow> ip_route \<Rightarrow> nat" where
  "route_rank h r = unat (ntoh32 h (route_netmask r))"

text \<open>The route found is the first of the matching routes with the greatest mask.\<close>

definition best_route :: "host \<Rightarrow> u32 \<Rightarrow> ip_route list \<Rightarrow> ip_route \<Rightarrow> bool" where
  "best_route h dst rs r \<longleftrightarrow> (\<exists>pre post. rs = pre @ r # post \<and> route_matches dst r \<and>
     (\<forall>r' \<in> set pre. route_matches dst r' \<longrightarrow> route_rank h r' < route_rank h r) \<and>
     (\<forall>r' \<in> set post. route_matches dst r' \<longrightarrow> route_rank h r' \<le> route_rank h r))"

lemma best_route_Cons:
  assumes "best_route h dst rs r" "route_matches dst x \<Longrightarrow> route_rank h x < route_rank h r"
  shows "best_route h dst (x # rs) r"
proof -
  from assms(1) obtain pre post where "rs = pre @ r # post" "route_matches dst r"
    "\<forall>r' \<in> set pre. route_matches dst r' \<longrightarrow> route_rank h r' < route_rank h r"
    "\<forall>r' \<in> set post. route_matches dst r' \<longrightarrow> route_rank h r' \<le> route_rank h r"
    by (auto simp: best_route_def)
  then show ?thesis
    unfolding best_route_def using assms(2) by (intro exI [of _ "x # pre"] exI [of _ post]) auto
qed

lemma best_route_here:
  "route_matches dst r \<Longrightarrow> \<forall>r' \<in> set rs. route_matches dst r' \<longrightarrow> route_rank h r' \<le> route_rank h r \<Longrightarrow>
   best_route h dst (r # rs) r"
  unfolding best_route_def by (intro exI [of _ "[]"] exI [of _ rs]) auto

lemma ip_route_loop_some:
  assumes "ip_route_loop h dst (Some c) rs = r"
  shows "\<exists>r'. r = Some r' \<and> (r' = c \<and> (\<forall>x \<in> set rs. route_matches dst x \<longrightarrow> route_rank h x \<le> route_rank h c) \<or>
    best_route h dst rs r' \<and> route_rank h c < route_rank h r')"
  using assms
proof (induction rs arbitrary: c)
  case (Cons x rs)
  show ?case
  proof (cases "route_matches dst x \<and> route_rank h c < route_rank h x")
    case True
    then have "ip_route_loop h dst (Some x) rs = r"
      using Cons.prems by (simp add: route_matches_def route_rank_def word_less_nat_alt)
    from Cons.IH [OF this] show ?thesis using True by (auto intro: best_route_here best_route_Cons)
  next
    case False
    then have "ip_route_loop h dst (Some c) rs = r"
      using Cons.prems by (auto simp: route_matches_def route_rank_def word_less_nat_alt split: if_splits)
    from Cons.IH [OF this] show ?thesis using False by (auto intro!: best_route_Cons)
  qed
qed auto

lemma ip_route_loop_none:
  "case ip_route_loop h dst None rs of None \<Rightarrow> \<forall>x \<in> set rs. \<not> route_matches dst x | Some r \<Rightarrow> best_route h dst rs r"
proof (induction rs)
  case (Cons x rs)
  show ?case
  proof (cases "route_matches dst x")
    case True
    then have "ip_route_loop h dst None (x # rs) = ip_route_loop h dst (Some x) rs"
      by (simp add: route_matches_def)
    then show ?thesis
      using ip_route_loop_some [OF refl, of h dst x rs] True by (auto intro: best_route_here best_route_Cons)
  next
    case False
    then have "ip_route_loop h dst None (x # rs) = ip_route_loop h dst None rs"
      by (simp add: route_matches_def)
    then show ?thesis using Cons False by (auto intro: best_route_Cons split: option.splits)
  qed
qed simp

text \<open>The mask of a prefix of \<open>n\<close> bits.\<close>

definition prefix_mask :: "nat \<Rightarrow> u32" where
  "prefix_mask n = mk32 (2 ^ 32 - 2 ^ (32 - n))"

lemma prefix_mask_mono:
  assumes "m \<le> 32" "n \<le> 32"
  shows "unat (prefix_mask m) \<le> unat (prefix_mask n) \<longleftrightarrow> m \<le> n"
proof -
  have less: "2 ^ 32 - 2 ^ (32 - k) < (4294967296 :: nat)" for k by simp
  have "2 ^ (32 - n) \<le> (2 ^ 32 :: nat)" "2 ^ (32 - m) \<le> (2 ^ 32 :: nat)"
    by (simp_all only: power_increasing_iff diff_le_self)
  then have "unat (prefix_mask m) \<le> unat (prefix_mask n) \<longleftrightarrow> (2 :: nat) ^ (32 - n) \<le> 2 ^ (32 - m)"
    unfolding prefix_mask_def unat_mk mod_less [OF less] by linarith
  also have "\<dots> \<longleftrightarrow> 32 - n \<le> 32 - m" by simp
  finally show ?thesis using assms by linarith
qed

text \<open>
  C16. Longest prefix match. When the mask of every route is that of a prefix, the lookup finds no
  route only if none matches the destination; otherwise it finds a matching route of the table
  whose prefix is at least as long as that of any other matching route, and among those with the
  longest prefix the one added last.
\<close>

theorem ip_route_lookup_longest_prefix:
  assumes "\<forall>r \<in> set (routes s). plen r \<le> 32 \<and> ntoh32 (host_order s) (route_netmask r) = prefix_mask (plen r)"
  shows "case ip_route_lookup dst s of
      None \<Rightarrow> \<forall>r \<in> set (routes s). dst AND route_netmask r \<noteq> network r
    | Some r \<Rightarrow> \<exists>newer older. routes s = newer @ r # older \<and> dst AND route_netmask r = network r \<and>
        (\<forall>r' \<in> set newer. dst AND route_netmask r' = network r' \<longrightarrow> plen r' < plen r) \<and>
        (\<forall>r' \<in> set older. dst AND route_netmask r' = network r' \<longrightarrow> plen r' \<le> plen r)"
proof (cases "ip_route_lookup dst s")
  case None
  then show ?thesis
    using ip_route_loop_none [where h = "host_order s" and dst = dst and rs = "routes s"] by (simp add: ip_route_lookup_def route_matches_def)
next
  case (Some r)
  then have "best_route (host_order s) dst (routes s) r"
    using ip_route_loop_none [where h = "host_order s" and dst = dst and rs = "routes s"] by (simp add: ip_route_lookup_def)
  then obtain pre post where rs: "routes s = pre @ r # post" and m: "route_matches dst r"
    and pre: "\<forall>r' \<in> set pre. route_matches dst r' \<longrightarrow> route_rank (host_order s) r' < route_rank (host_order s) r"
    and post: "\<forall>r' \<in> set post. route_matches dst r' \<longrightarrow> route_rank (host_order s) r' \<le> route_rank (host_order s) r"
    by (auto simp: best_route_def)
  have rank: "route_rank (host_order s) x \<le> route_rank (host_order s) y \<longleftrightarrow> plen x \<le> plen y"
    if "x \<in> set (routes s)" "y \<in> set (routes s)" for x y
    using assms that by (simp add: route_rank_def prefix_mask_mono)
  have "plen x < plen r" if "x \<in> set pre" "route_matches dst x" for x
    using pre that rank [of r x] rs by (metis in_set_conv_decomp linorder_not_le Un_iff set_append)
  moreover have "plen x \<le> plen r" if "x \<in> set post" "route_matches dst x" for x
    using post that rank [of x r] rs by simp
  ultimately show ?thesis
    using Some rs m by (auto simp: route_matches_def)
qed

text \<open>A host with an interface, the route of its network and a default route, for evaluation.\<close>

definition net_route :: "u32 \<Rightarrow> ip_route" where
  "net_route a = \<lparr>network = a AND 0xffffff00, route_netmask = 0xffffff00, nexthop = 0, route_iface = host_iface a\<rparr>"

definition default_route :: "u32 \<Rightarrow> ip_route" where
  "default_route a = \<lparr>network = 0, route_netmask = 0, nexthop = 0xC0A80001, route_iface = host_iface a\<rparr>"

definition ip_example :: "u32 \<Rightarrow> ip" where
  "ip_example a = arp.extend (arp_example Big a)
     (ip.fields [host_iface a] [\<lparr>ip_type = IP_PROTOCOL_UDP, ip_handler = Udp_input\<rparr>]
        [default_route a, net_route a] 128)"

lemma ip_example_simps:
  "routes (ip_example a) = [default_route a, net_route a]" "host_order (ip_example a) = Big"
  "dev_tab (ip_example a) = [1 \<mapsto> host_dev a]" "ip_id (ip_example a) = 128"
  "ip_protocols (ip_example a) = [\<lparr>ip_type = IP_PROTOCOL_UDP, ip_handler = Udp_input\<rparr>]"
  "ip_ifaces (ip_example a) = [host_iface a]" "writes (ip_example a) = []"
  by (simp_all add: ip_example_def arp.defs ip.defs arp_example_def del: One_nat_def)

theorem ip_route_lookup_longest_prefix_witness:
  "ip_route_lookup 0xC0A80105 (ip_example 0xC0A80101) = Some (net_route 0xC0A80101) \<and>
   (\<exists>newer older. routes (ip_example 0xC0A80101) = newer @ net_route 0xC0A80101 # older)"
proof
  let ?plen = "\<lambda>r. if route_netmask r = 0 then 0 else 24 :: nat" and ?s = "ip_example 0xC0A80101"
  show found: "ip_route_lookup 0xC0A80105 ?s = Some (net_route 0xC0A80101)"
    by (simp add: ip_route_lookup_def ip_example_simps net_route_def default_route_def conversion_cases)
  have "\<forall>r \<in> set (routes ?s). ?plen r \<le> 32 \<and> ntoh32 (host_order ?s) (route_netmask r) = prefix_mask (?plen r)"
    by (simp add: ip_example_simps net_route_def default_route_def conversion_cases prefix_mask_def)
  from ip_route_lookup_longest_prefix [OF this, of "0xC0A80105"]
  show "\<exists>newer older. routes ?s = newer @ net_route 0xC0A80101 # older" using found by auto
qed

section \<open>Output\<close>

text \<open>
  The invariant the output relies on: tables, drivers and cache are well formed, the interface of
  every route belongs to a registered device, and hardware addresses fit their buffer.
\<close>

definition ip_ok :: "'z ip_scheme \<Rightarrow> bool" where
  "ip_ok s \<longleftrightarrow> net_ok s \<and> drvs_ok s \<and> arp_ok (caches s) \<and>
     (\<forall>r \<in> set (routes s). dev_tab s (iface_dev (route_iface r)) \<noteq> None) \<and>
     (\<forall>dev d. dev_tab s dev = Some d \<longrightarrow> unat (dev_alen d) \<le> 16)"

text \<open>What the output of a packet leaves alone: the tables of this layer and all state above it.\<close>

lemma arp_frame_ip:
  assumes "arp_frame (s :: 'z ip_scheme) s'"
  shows "routes s' = routes s" "ip_protocols s' = ip_protocols s" "ip_ifaces s' = ip_ifaces s"
    "ip_id s' = ip_id s" "ip.more s' = ip.more s" "host_order s' = host_order s" "protocols s' = protocols s"
  using assms by (cases s; cases s'; simp add: arp_frame_def output_frame_def)+

definition ip_frame :: "'z ip_scheme \<Rightarrow> 'z ip_scheme \<Rightarrow> bool" where
  "ip_frame s s' \<longleftrightarrow> arp_frame s (s'\<lparr>ip_id := ip_id s\<rparr>)"

lemma ip_frame_arp: "arp_frame (s :: 'z ip_scheme) s' \<Longrightarrow> ip_frame s s'"
  using arp_frame_ip(4) [of s s'] by (cases s') (simp add: ip_frame_def)

lemma ip_frame_refl [simp, intro]: "ip_frame s s"
  by (simp add: ip_frame_arp)

lemma ip_frame_trans [trans]: "ip_frame s s' \<Longrightarrow> ip_frame s' s'' \<Longrightarrow> ip_frame s s''"
  by (cases s; cases s'; cases s'') (simp add: ip_frame_def arp_frame_def output_frame_def)

lemma ip_frame_id: "ip_frame s (s\<lparr>ip_id := i\<rparr>)"
  by (cases s) (simp add: ip_frame_def)

lemma ip_frameD:
  assumes "ip_frame s s'"
  shows "routes s' = routes s" "ip_protocols s' = ip_protocols s" "ip_ifaces s' = ip_ifaces s"
    "ip.more s' = ip.more s" "host_order s' = host_order s" "protocols s' = protocols s"
  using assms by (cases s; cases s'; simp add: ip_frame_def arp_frame_def output_frame_def)+

lemma ip_ok_frame:
  assumes "arp_frame s s'" "ip_ok s" "drvs_ok s'" "arp_ok (caches s')"
  shows "ip_ok s'"
proof -
  have tab: "map_option dev_static (dev_tab s' i) = map_option dev_static (dev_tab s i)" for i
    using assms(1) by (rule arp_frame_static)
  then have none: "dev_tab s' i = None \<longleftrightarrow> dev_tab s i = None" for i
    by (metis option.map_disc_iff)
  have "unat (dev_alen d) \<le> 16" if d: "dev_tab s' i = Some d" for i d
  proof -
    obtain d0 where d0: "dev_tab s i = Some d0" using none [of i] d by (cases "dev_tab s i") simp_all
    then have "dev_alen d = dev_alen d0"
      using arp_frame_dev [OF assms(1) d0] d by (metis option.inject)
    then show ?thesis using d0 assms(2) by (simp add: ip_ok_def)
  qed
  then show ?thesis
    using assms arp_frame_net_ok [OF assms(1)] arp_frame_ip(1) [OF assms(1)] none by (simp add: ip_ok_def)
qed

lemma ip_okD:
  assumes "ip_ok s" "dev_tab s dev = Some d"
  shows "drv_ok d" "dev_ok dev d" "unat (dev_alen d) \<le> 16" "length (dev_broadcast d) = 16"
  using assms drvs_okD [of s dev d] net_okD(1) [of s dev d] by (auto simp: ip_ok_def dev_ok_def)

lemma net_output_ip_ok:
  assumes "ip_ok s" "dev_tab s dev = Some d" "len \<le> length data" "6 \<le> length dst"
  shows "\<exists>r s'. net_device_output dev type data len dst s = Some (r, s') \<and> r \<in> {0, -1} \<and> ip_ok s' \<and> arp_frame s s'"
proof -
  have "drvs_ok s" using assms(1) by (simp add: ip_ok_def)
  then obtain r s' where s': "net_device_output dev type data len dst s = Some (r, s')" "r \<in> {0, -1}" "drvs_ok s'"
    "output_frame s s'"
    using net_device_output_ok [OF _ assms(2-4), of type] by auto
  have "ip_ok s'"
    using ip_ok_frame [OF arp_frame_output [OF s'(4)] assms(1) s'(3)] output_frame_caches [OF s'(4)] assms(1)
    by (simp add: ip_ok_def)
  then show ?thesis using s' arp_frame_output by blast
qed

lemma ip_output_device_total:
  assumes ok: "ip_ok s" and d: "dev_tab s (iface_dev f) = Some d" and len: "len \<le> length data"
  shows "\<exists>r s'. ip_output_device f data len dst s = Some (r, s') \<and> r \<in> {-1, 0} \<and> ip_ok s' \<and> arp_frame s s'"
proof -
  note dok = ip_okD [OF ok d]
  have out: "\<exists>r s'. net_device_output (iface_dev f) 0x0800 data len hw s = Some (r, s') \<and> r \<in> {-1, 0} \<and> ip_ok s' \<and> arp_frame s s'"
    if "6 \<le> length hw" for hw
    using net_output_ip_ok [OF ok d len that, of "0x0800"] by auto
  consider (noarp) "dev_flags d AND 0x0100 = 0" | (bcast) "dev_flags d AND 0x0100 \<noteq> 0" "dst = broadcast f \<or> dst = IP_ADDR_BROADCAST"
    | (arp) "dev_flags d AND 0x0100 \<noteq> 0" "\<not> (dst = broadcast f \<or> dst = IP_ADDR_BROADCAST)" by blast
  then show ?thesis
  proof cases
    case noarp
    then show ?thesis using out [of "replicate 16 0"] d by (simp add: ip_output_device_def)
  next
    case bcast
    let ?b = "take (unat (dev_alen d)) (dev_broadcast d)"
    have "rd_bytes (dev_broadcast d) 0 (unat (dev_alen d)) = Some ?b"
      "wr_bytes (replicate 16 0) 0 ?b = Some (?b @ replicate (16 - unat (dev_alen d)) 0)"
      using dok(3,4) by (simp_all add: rd_bytes_def wr_bytes_def min_absorb2)
    then show ?thesis using bcast d dok(3,4) out [of "?b @ replicate (16 - unat (dev_alen d)) 0"]
      by (simp add: ip_output_device_def min_absorb2)
  next
    case arp
    from arp_resolve_total [of s f d "replicate 16 0" dst] ok d dok(4) obtain r ha s1
      where s1: "arp_resolve f dst (replicate 16 0) s = Some (r, ha, s1)" "arp_ok (caches s1)" "drvs_ok s1"
        "arp_frame s s1" "length ha = 16" "r \<in> {-1, 0, 1}" by (auto simp: ip_ok_def)
    have ok1: "ip_ok s1" using s1(4) ok s1(3,2) by (rule ip_ok_frame)
    obtain d1 where "dev_tab s1 (iface_dev f) = Some d1" using arp_frame_dev [OF s1(4) d] by blast
    then obtain r' s2 where "net_device_output (iface_dev f) 0x0800 data len ha s1 = Some (r', s2)" "r' \<in> {-1, 0}" "ip_ok s2"
      "arp_frame s1 s2"
      using net_output_ip_ok [OF ok1 _ len, of "iface_dev f" d1 ha "0x0800"] s1(5) by auto
    then show ?thesis using arp s1 d ok1 arp_frame_trans by (auto simp: ip_output_device_def)
  qed
qed

subsection \<open>Packets\<close>

text \<open>The checksum of a header with the checksum field \<open>0\<close>, and the packet that output builds.\<close>

lemma length_ip_hdr [simp]: "length (ip_hdr h protocol tot i offset sm src dst) = 20"
  by (simp add: ip_hdr_def)

lemma sum16_middle:
  "even (length xs) \<Longrightarrow> sum16 h (xs @ store16 h w @ ys) = unat w + sum16 h (xs @ store16 h 0 @ ys)"
  by (simp add: sum16_append)

lemma ip_hdr_split:
  "\<exists>xs ys. length xs = 10 \<and> (\<forall>sm. ip_hdr h protocol tot i offset sm src dst = xs @ store16 h sm @ ys)"
  unfolding ip_hdr_def
  by (intro exI [of _ "[mk8 (IP_VERSION_IPV4 * 16 + IP_HDR_SIZE_MIN div 4), 0] @ store16 h (hton16 h tot) @
     store16 h (hton16 h i) @ store16 h (hton16 h offset) @ [255, protocol]"] exI [of _ "store32 h src @ store32 h dst"]) simp

lemma sum16_ip_hdr:
  "sum16 h (ip_hdr h protocol tot i offset sm src dst) = unat sm + sum16 h (ip_hdr h protocol tot i offset 0 src dst)"
proof -
  obtain xs ys where l: "length xs = 10" and e: "\<And>sm. ip_hdr h protocol tot i offset sm src dst = xs @ store16 h sm @ ys"
    using ip_hdr_split [of h protocol tot i offset src dst] by blast
  show ?thesis unfolding e by (rule sum16_middle) (simp add: l)
qed

definition ip_hdr_sum :: "host \<Rightarrow> u8 \<Rightarrow> u16 \<Rightarrow> u16 \<Rightarrow> u16 \<Rightarrow> u32 \<Rightarrow> u32 \<Rightarrow> u16" where
  "ip_hdr_sum h protocol tot i offset src dst =
     inet_checksum (sum16 h (ip_hdr h protocol tot i offset 0 src dst))"

definition ip_packet :: "host \<Rightarrow> u8 \<Rightarrow> u16 \<Rightarrow> u32 \<Rightarrow> u32 \<Rightarrow> bytes \<Rightarrow> bytes" where
  "ip_packet h protocol i src dst payload =
     (let tot = mk16 (20 + length payload)
      in ip_hdr h protocol tot i 0 (ip_hdr_sum h protocol tot i 0 src dst) src dst @ payload)"

lemma ip_output_core_packet:
  assumes "len \<le> length data" "len \<le> 65515"
  shows "ip_output_core f protocol data len src dst hop i 0 s =
    ip_output_device f (ip_packet (host_order s) protocol i src dst (take len data)) (20 + len) hop s"
proof -
  have "cksum16 (host_order s) (ip_hdr (host_order s) protocol (mk16 (20 + len)) i 0 0 src dst) 20 0 =
      Some (ip_hdr_sum (host_order s) protocol (mk16 (20 + len)) i 0 src dst)"
    by (simp add: cksum16_eq ip_hdr_sum_def)
  then show ?thesis
    using assms by (simp add: ip_output_core_def rd_bytes_def ip_packet_def Let_def)
qed

lemma ip_output_packet:
  assumes "ip_route_lookup dst s = Some route" "dev_tab s (iface_dev (route_iface route)) = Some d"
    and "src = IP_ADDR_ANY \<and> dst \<noteq> IP_ADDR_BROADCAST \<or> src \<noteq> IP_ADDR_ANY \<and> src = unicast (route_iface route)"
    and "20 + len \<le> unat (mtu d)" "len \<le> length data"
  shows "ip_output protocol data len src dst s =
    map_option (\<lambda>(r, s'). (if r = -1 then -1 else int len, s'))
      (ip_output_device (route_iface route)
        (ip_packet (host_order s) protocol (ip_id s) (unicast (route_iface route)) dst (take len data)) (20 + len)
        (if nexthop route = IP_ADDR_ANY then dst else nexthop route) (s\<lparr>ip_id := ip_id s + 1\<rparr>))"
proof -
  have "len \<le> 65515" using assms(4) unat_u16_less [of "mtu d"] by linarith
  moreover have "\<not> (src = IP_ADDR_ANY \<and> dst = IP_ADDR_BROADCAST)"
    "\<not> (src \<noteq> IP_ADDR_ANY \<and> src \<noteq> unicast (route_iface route))" "\<not> unat (mtu d) < IP_HDR_SIZE_MIN + len"
    using assms(3,4) by auto
  ultimately show ?thesis
    using assms(1,2,5)
    by (cases "nexthop route = IP_ADDR_ANY"; cases "ip_output_device (route_iface route)
        (ip_packet (host_order s) protocol (ip_id s) (unicast (route_iface route)) dst (take len data)) (20 + len)
        (if nexthop route = IP_ADDR_ANY then dst else nexthop route) (s\<lparr>ip_id := ip_id s + 1\<rparr>)")
      (simp_all add: ip_output_def ip_generate_id_def ip_output_core_packet Let_def split_def if_not_P)
qed

lemma ip_route_lookup_in: "ip_route_lookup dst s = Some route \<Longrightarrow> route \<in> set (routes s)"
  using ip_route_loop_none [where h = "host_order s" and dst = dst and rs = "routes s"]
  by (auto simp: ip_route_lookup_def best_route_def)

lemma ip_output_ok:
  assumes ok: "ip_ok s" and len: "len \<le> length data"
  shows "\<exists>r s'. ip_output protocol data len src dst s = Some (r, s') \<and> r \<in> {-1, int len} \<and> ip_ok s' \<and> ip_frame s s' \<and>
    (src = IP_ADDR_ANY \<and> dst = IP_ADDR_BROADCAST \<or>
     (case ip_route_lookup dst s of
        None \<Rightarrow> True
      | Some route \<Rightarrow> src \<noteq> IP_ADDR_ANY \<and> src \<noteq> unicast (route_iface route) \<or>
          unat (mtu (the (dev_tab s (iface_dev (route_iface route))))) < 20 + len) \<longrightarrow> r = -1 \<and> s' = s)"
proof (cases "ip_route_lookup dst s")
  case None
  then show ?thesis using ok by (auto simp: ip_output_def)
next
  case (Some route)
  let ?f = "route_iface route" and ?hop = "if nexthop route = IP_ADDR_ANY then dst else nexthop route"
  obtain d where d: "dev_tab s (iface_dev ?f) = Some d"
    using ok ip_route_lookup_in [OF Some] by (auto simp: ip_ok_def)
  show ?thesis
  proof (cases "(src = IP_ADDR_ANY \<and> dst \<noteq> IP_ADDR_BROADCAST \<or> src \<noteq> IP_ADDR_ANY \<and> src = unicast ?f) \<and> 20 + len \<le> unat (mtu d)")
    case False
    then show ?thesis using ok Some d by (auto simp: ip_output_def Let_def)
  next
    case True
    let ?s1 = "s\<lparr>ip_id := ip_id s + 1\<rparr>"
    let ?p = "ip_packet (host_order s) protocol (ip_id s) (unicast ?f) dst (take len data)"
    have "ip_ok ?s1" using ok by (simp add: ip_ok_def net_ok_def drvs_ok_def)
    moreover have "20 + len \<le> length ?p" using len by (simp add: ip_packet_def Let_def)
    ultimately obtain r s' where "ip_output_device ?f ?p (20 + len) ?hop ?s1 = Some (r, s')" "r \<in> {-1, 0}" "ip_ok s'"
      "arp_frame ?s1 s'"
      using ip_output_device_total [of ?s1 ?f d "20 + len" ?p ?hop] d by auto
    moreover from this have "ip_frame s s'"
      using ip_frame_trans [OF ip_frame_id ip_frame_arp] by blast
    moreover from calculation have "ip_output protocol data len src dst s = Some (if r = -1 then -1 else int len, s')"
      using True len ip_output_packet [OF Some d, of src len data protocol] by simp
    ultimately show ?thesis using True Some d by auto
  qed
qed

lemma ip_output_total:
  assumes "ip_ok s" "len \<le> length data"
  obtains r s' where "ip_output protocol data len src dst s = Some (r, s')" "r \<in> {-1, int len}" "ip_ok s'" "ip_frame s s'"
  using ip_output_ok [OF assms, of protocol src dst] by blast

lemma ip_ok_example: "ip_ok (ip_example a)"
  using host_dev_simps(1,6) [of a] arp_ok_empty(1)
  by (auto simp: ip_ok_def net_ok_def drvs_ok_def ip_example_simps net_route_def default_route_def host_iface_def
      ip_example_def arp.defs ip.defs arp_example_def host_dev_def tap_dev_def ether_setup_helper_def)

section \<open>Input\<close>

text \<open>What a packet must satisfy to be taken in, apart from its destination.\<close>

definition ip_hlen :: "bytes \<Rightarrow> nat" where
  "ip_hlen data = unat (data ! 0) mod 16 * 4"

definition ip_total :: "host \<Rightarrow> bytes \<Rightarrow> nat" where
  "ip_total h data = unat (ntoh16 h (load16 h (data ! 2) (data ! 3)))"

definition ip_accept :: "host \<Rightarrow> bytes \<Rightarrow> nat \<Rightarrow> bool" where
  "ip_accept h data len \<longleftrightarrow> 20 \<le> len \<and> unat (data ! 0) div 16 = 4 \<and> ip_hlen data \<le> len \<and> ip_total h data \<le> len \<and>
     inet_checksum (sum16 h (take (ip_hlen data) data)) = 0 \<and>
     ntoh16 h (load16 h (data ! 6) (data ! 7)) AND 0x3fff = 0"

lemma or_zero_iff: "(x :: u16) OR y = 0 \<longleftrightarrow> x = 0 \<and> y = 0"
  by (auto simp: bit_eq_iff bit_or_iff)

lemma fragment_bits: "(w :: u16) AND 0x3fff = 0 \<longleftrightarrow> w AND 0x2000 = 0 \<and> w AND 0x1fff = 0"
proof -
  have "w AND 0x3fff = (w AND 0x2000) OR (w AND 0x1fff)"
    by (simp add: bit.conj_disj_distrib [symmetric])
  then show ?thesis by (simp add: or_zero_iff)
qed

lemma ip_input_cases:
  assumes "len \<le> length data" "dev_tab s dev = Some d" "h = host_order s"
    and "src = load32 h (data ! 12) (data ! 13) (data ! 14) (data ! 15)"
    and "dst = load32 h (data ! 16) (data ! 17) (data ! 18) (data ! 19)"
  shows "ip_input call data len dev s =
    (if \<not> ip_accept h data len then Some s
     else case net_device_get_iface d NET_IFACE_FAMILY_IP of
       None \<Rightarrow> Some s
     | Some f \<Rightarrow>
         if dst \<notin> {unicast f, IP_ADDR_BROADCAST, broadcast f} then Some s
         else case find (\<lambda>p. ip_type p = data ! 9) (ip_protocols s) of
           None \<Rightarrow> Some s
         | Some p \<Rightarrow> call (ip_handler p) (drop (ip_hlen data) data)
             (size_of_int (int (ip_total h data) - int (ip_hlen data))) src dst f s)"
proof (cases "20 \<le> len")
  case False
  then show ?thesis by (simp add: ip_input_def ip_accept_def)
next
  case True
  then have rd: "rd8 data 0 = Some (data ! 0)" "rd8 data 9 = Some (data ! 9)"
    "rd16 h data 2 = Some (load16 h (data ! 2) (data ! 3))" "rd16 h data 6 = Some (load16 h (data ! 6) (data ! 7))"
    "rd32 h data 12 = Some src" "rd32 h data 16 = Some dst"
    using assms(1,4,5) by (auto simp: rd8_def rd16_def rd32_def)
  have hl: "unat (mk16 (ip_hlen data)) = ip_hlen data" by (simp add: ip_hlen_def)
  then have ck: "cksum16 h data (mk16 (ip_hlen data)) 0 = Some (inet_checksum (sum16 h (take (ip_hlen data) data)))"
    if "ip_hlen data \<le> len"
    using that assms(1) by (subst cksum16_eq) simp_all
  show ?thesis
    using True rd ck assms(2,3)
    by (auto simp: ip_input_def ip_accept_def fragment_bits Let_def ip_total_def [symmetric]
        ip_hlen_def [symmetric] split: option.split)
qed

lemma ip_input_reaches:
  assumes "len \<le> length data" "dev_tab s dev = Some d"
  shows "ip_input call data len dev s = Some s \<or>
    (\<exists>f p n src dst. ip_accept (host_order s) data len \<and> net_device_get_iface d NET_IFACE_FAMILY_IP = Some f \<and>
       dst \<in> {unicast f, IP_ADDR_BROADCAST, broadcast f} \<and> p \<in> set (ip_protocols s) \<and> ip_type p = data ! 9 \<and>
       ip_input call data len dev s = call (ip_handler p) (drop (ip_hlen data) data) n src dst f s \<and>
       (ip_hlen data \<le> ip_total (host_order s) data \<longrightarrow>
          n = ip_total (host_order s) data - ip_hlen data \<and> n \<le> length (drop (ip_hlen data) data)))"
proof -
  let ?h = "host_order s" and ?n = "size_of_int (int (ip_total (host_order s) data) - int (ip_hlen data))"
  have total: "ip_total ?h data < 65536" by (simp add: ip_total_def unat_u16_less)
  then have n: "?n = ip_total ?h data - ip_hlen data" if "ip_hlen data \<le> ip_total ?h data"
    using that by (simp add: size_of_int_def nat_mod_distrib)
  have n_le: "?n \<le> length (drop (ip_hlen data) data)"
    if "ip_hlen data \<le> ip_total ?h data" "ip_accept ?h data len"
  proof -
    have "ip_total ?h data \<le> length data" using that(2) assms(1) by (simp add: ip_accept_def)
    then show ?thesis using n [OF that(1)] by simp
  qed
  note eq = ip_input_cases [OF assms refl refl refl, of call]
  show ?thesis
  proof (cases "ip_input call data len dev s = Some s")
    case False
    then have acc: "ip_accept ?h data len" using eq by (auto split: if_splits)
    from False eq acc obtain f where f: "net_device_get_iface d NET_IFACE_FAMILY_IP = Some f"
      by (cases "net_device_get_iface d NET_IFACE_FAMILY_IP") simp_all
    from False eq acc f obtain p where p: "find (\<lambda>p. ip_type p = data ! 9) (ip_protocols s) = Some p"
      by (cases "find (\<lambda>p. ip_type p = data ! 9) (ip_protocols s)") (simp_all split: if_splits)
    then have "p \<in> set (ip_protocols s)" "ip_type p = data ! 9" by (auto simp: find_Some_iff)
    moreover from False eq acc f p
    obtain src dst where "dst \<in> {unicast f, IP_ADDR_BROADCAST, broadcast f}"
      "ip_input call data len dev s = call (ip_handler p) (drop (ip_hlen data) data) ?n src dst f s"
      by (auto split: if_splits)
    ultimately show ?thesis using acc f n n_le by blast
  qed simp
qed


lemma ip_packet_fields:
  fixes hA hB :: host
  assumes "length payload \<le> 65515" "store32 hB src' = store32 hA src" "store32 hB dst' = store32 hA dst"
    and "data = ip_packet hA protocol i src dst payload @ pad"
  shows "data ! 0 = 0x45" "data ! 9 = protocol" "ip_total hB data = 20 + length payload"
    "load16 hB (data ! 6) (data ! 7) = 0"
    "load32 hB (data ! 12) (data ! 13) (data ! 14) (data ! 15) = src'"
    "load32 hB (data ! 16) (data ! 17) (data ! 18) (data ! 19) = dst'"
    "inet_checksum (sum16 hB (take 20 data)) = 0" "drop 20 data = payload @ pad"
proof -
  let ?tot = "mk16 (20 + length payload)"
  let ?sm = "ip_hdr_sum hA protocol ?tot i 0 src dst"
  have data: "data = [0x45, 0] @ store16 Big ?tot @ store16 Big i @ store16 Big 0 @ [255, protocol] @
      store16 hA ?sm @ store32 hB src' @ store32 hB dst' @ payload @ pad"
    using assms(2-4) by (simp add: ip_packet_def ip_hdr_def Let_def store_hton del: hton16_zero)
  have len: "20 \<le> length data" by (simp add: data)
  have rd: "rd8 data 0 = Some 0x45" "rd8 data 9 = Some protocol" "rd16 hB data 2 = Some (hton16 hB ?tot)"
    "rd16 hB data 6 = Some (hton16 hB 0)" "rd32 hB data 12 = Some src'" "rd32 hB data 16 = Some dst'"
    by (simp_all add: data byte_simps)
  then have tot: "load16 hB (data ! 2) (data ! 3) = hton16 hB ?tot"
    using len by (simp_all add: rd16_def)
  from rd len show "data ! 0 = 0x45" "data ! 9 = protocol" "load16 hB (data ! 6) (data ! 7) = 0"
    "load32 hB (data ! 12) (data ! 13) (data ! 14) (data ! 15) = src'"
    "load32 hB (data ! 16) (data ! 17) (data ! 18) (data ! 19) = dst'"
    by (simp_all add: rd8_def rd16_def rd32_def split: if_splits)
  show "ip_total hB data = 20 + length payload"
    using assms(1) by (simp add: ip_total_def tot)
  have hdr: "take 20 data = ip_hdr hA protocol ?tot i 0 ?sm src dst"
    using assms(4) by (simp add: ip_packet_def Let_def)
  have "inet_checksum (sum16 hA (take 20 data)) = 0"
    unfolding hdr sum16_ip_hdr [of hA protocol ?tot i 0 ?sm]
    using verify_sum [of "sum16 hA (ip_hdr hA protocol ?tot i 0 0 src dst)"]
    by (simp add: inet_checksum_0 ip_hdr_sum_def add.commute)
  then show "inet_checksum (sum16 hB (take 20 data)) = 0"
    using verifies_host [of "take 20 data" hA hB] len by simp
  show "drop 20 data = payload @ pad" using assms(4) by (simp add: ip_packet_def Let_def)
qed

lemma ip_packet_reaches:
  assumes "length payload \<le> IP_PAYLOAD_SIZE_MAX"
    and "store32 (host_order s) src' = store32 hA src" "store32 (host_order s) dst' = store32 hA dst"
    and "dev_tab s dev = Some d" "net_device_get_iface d NET_IFACE_FAMILY_IP = Some f"
    and "dst' \<in> {unicast f, IP_ADDR_BROADCAST, broadcast f}"
    and "find (\<lambda>p. ip_type p = protocol) (ip_protocols s) = Some p"
  shows "ip_input call (ip_packet hA protocol i src dst payload @ pad) (20 + length payload + length pad) dev s =
    call (ip_handler p) (payload @ pad) (length payload) src' dst' f s"
proof -
  define data where "data = ip_packet hA protocol i src dst payload @ pad"
  note flds = ip_packet_fields [OF _ assms(2,3) data_def]
  have len: "length data = 20 + length payload + length pad" by (simp add: data_def ip_packet_def Let_def)
  have hl: "ip_hlen data = 20" using flds(1) assms(1) by (simp add: ip_hlen_def)
  have "ntoh16 (host_order s) 0 = 0"
    using conversion_inverse(1) [of "host_order s" 0] by simp
  then have "ip_accept (host_order s) data (20 + length payload + length pad)"
    using flds assms(1) hl by (simp add: ip_accept_def)
  moreover have "size_of_int (int (ip_total (host_order s) data) - int (ip_hlen data)) = length payload"
    using flds(3) assms(1) hl by (simp add: size_of_int_def)
  ultimately show ?thesis
    unfolding data_def [symmetric]
    using ip_input_cases [where len = "20 + length payload + length pad" and data = data, OF _ assms(4) refl refl refl, of call]
      flds assms hl len by auto
qed




text \<open>
  C36. The total length is not compared with the header length. An acceptable packet whose total length is
  the smaller one makes the handler be called with a length that has wrapped around in \<^verbatim>\<open>size_t\<close>,
  far beyond the bytes there are.
\<close>

theorem ip_input_length_wraps:
  assumes "len \<le> length data" "length data < 2 ^ 63" "dev_tab s dev = Some d"
    and "ip_accept (host_order s) data len" "ip_total (host_order s) data < ip_hlen data"
    and "net_device_get_iface d NET_IFACE_FAMILY_IP = Some f"
    and "rd32 (host_order s) data 12 = Some src" "rd32 (host_order s) data 16 = Some (unicast f)"
    and "find (\<lambda>p. ip_type p = data ! 9) (ip_protocols s) = Some p"
  shows "\<exists>n. ip_input call data len dev s = call (ip_handler p) (drop (ip_hlen data) data) n src (unicast f) f s \<and>
    n = 2 ^ 64 - (ip_hlen data - ip_total (host_order s) data) \<and> length data < n"
proof -
  let ?h = "host_order s"
  define k where "k = ip_hlen data - ip_total ?h data"
  have "ip_hlen data \<le> 60" by (simp add: ip_hlen_def)
  then have k: "0 < k" "k \<le> 60" using assms(5) by (simp_all add: k_def)
  have "int (ip_total ?h data) - int (ip_hlen data) = - int k" using assms(5) by (simp add: k_def)
  moreover have "(- int k) mod 2 ^ 64 = 2 ^ 64 - int k"
    using k by (simp add: zmod_zminus1_eq_if)
  ultimately have n: "size_of_int (int (ip_total ?h data) - int (ip_hlen data)) = 2 ^ 64 - k"
    using k by (simp add: size_of_int_def nat_diff_distrib)
  have "20 \<le> length data" using assms(1,4) by (simp add: ip_accept_def)
  then have rd: "src = load32 ?h (data ! 12) (data ! 13) (data ! 14) (data ! 15)"
    "unicast f = load32 ?h (data ! 16) (data ! 17) (data ! 18) (data ! 19)"
    using assms(7,8) by (simp_all add: rd32_def)
  have "length data < 2 ^ 64 - k" using assms(2) k(2) by simp
  then show ?thesis
    using ip_input_cases [OF assms(1,3) refl rd, of call] assms(4,6,9) n by (simp add: k_def)
qed

definition wrap_packet :: bytes where
  "wrap_packet = [0x45, 0, 0, 0, 0, 0, 0, 0, 0, 17, 0xB0, 0xEC, 0, 0, 0, 0, 10, 0, 0, 2]"

theorem ip_input_length_wraps_witness:
  "ip_input (\<lambda>hd data n src dst f s. if hd = Udp_input \<and> data = [] \<and> n = 2 ^ 64 - 20 then Some (s\<lparr>ip_id := 7\<rparr>) else None)
     wrap_packet 20 1 (ip_example 0x0A000002) = Some ((ip_example 0x0A000002)\<lparr>ip_id := 7\<rparr>)"
proof -
  let ?s = "ip_example 0x0A000002"
  have acc: "ip_accept Big wrap_packet 20" "ip_total Big wrap_packet = 0" "ip_hlen wrap_packet = 20"
    by (simp_all add: wrap_packet_def ip_accept_def ip_total_def ip_hlen_def mem_eval conversion_cases inet_checksum_0)
  have "ip_input (\<lambda>hd data n src dst f s. if hd = Udp_input \<and> data = [] \<and> n = 2 ^ 64 - 20 then Some (s\<lparr>ip_id := 7\<rparr>) else None)
      wrap_packet 20 1 ?s = Some (?s\<lparr>ip_id := 7\<rparr>)"
    using ip_input_length_wraps [where data = wrap_packet and len = 20 and s = ?s and dev = 1 and d = "host_dev 0x0A000002"
        and f = "host_iface 0x0A000002" and src = 0 and p = "\<lparr>ip_type = 17, ip_handler = Udp_input\<rparr>"
        and call = "\<lambda>hd data n src dst f s. if hd = Udp_input \<and> data = [] \<and> n = 2 ^ 64 - 20 then Some (s\<lparr>ip_id := 7\<rparr>) else None"]
      acc
    by (simp add: ip_example_simps host_dev_simps arp_example_simps wrap_packet_def rd32_def load32.simps del: One_nat_def)
  then show ?thesis .
qed

end
