(* ===== verification/Icmp.thy ===== *)
theory Icmp
  imports Ip
begin

text \<open>
  The control message protocol, \<^verbatim>\<open>icmp.c\<close>: echo requests are answered, everything else is ignored.
\<close>

section \<open>Model\<close>

definition ICMP_HDR_SIZE :: nat where [simp]: "ICMP_HDR_SIZE = 8"
definition ICMP_BUFSIZ :: nat where [simp]: "ICMP_BUFSIZ = IP_PAYLOAD_SIZE_MAX"
definition ICMP_TYPE_ECHOREPLY :: u8 where [simp]: "ICMP_TYPE_ECHOREPLY = 0"
definition ICMP_TYPE_ECHO :: u8 where [simp]: "ICMP_TYPE_ECHO = 8"

definition icmp_hdr :: "host \<Rightarrow> u8 \<Rightarrow> u8 \<Rightarrow> u16 \<Rightarrow> u32 \<Rightarrow> bytes" where
  "icmp_hdr h type code sm vals = [type, code] @ store16 h sm @ store32 h vals"

text \<open>The message is built in a buffer of \<^verbatim>\<open>ICMP_BUFSIZ\<close> bytes; a longer one overflows it.\<close>

definition icmp_output ::
  "u8 \<Rightarrow> u8 \<Rightarrow> u32 \<Rightarrow> bytes \<Rightarrow> nat \<Rightarrow> u32 \<Rightarrow> u32 \<Rightarrow> 'z ip_scheme \<Rightarrow> (int \<times> 'z ip_scheme) option" where
  "icmp_output type code vals data len src dst s = do {
     let h = host_order s;
     payload \<leftarrow> rd_bytes data 0 len;
     if ICMP_HDR_SIZE + len > ICMP_BUFSIZ then None
     else do {
       let msg_len = ICMP_HDR_SIZE + len;
       sm \<leftarrow> cksum16 h (icmp_hdr h type code 0 vals @ payload) (mk16 msg_len) 0;
       ip_output IP_PROTOCOL_ICMP (icmp_hdr h type code sm vals @ payload) msg_len src dst s
     }
   }"

definition icmp_input ::
  "bytes \<Rightarrow> nat \<Rightarrow> u32 \<Rightarrow> u32 \<Rightarrow> ip_iface \<Rightarrow> 'z ip_scheme \<Rightarrow> 'z ip_scheme option" where
  "icmp_input data len src dst iface s =
     (if len < ICMP_HDR_SIZE then Some s
      else do {
        let h = host_order s;
        sm \<leftarrow> cksum16 h data (mk16 len) 0;
        if sm \<noteq> 0 then Some s
        else do {
          type \<leftarrow> rd8 data 0;
          if type = ICMP_TYPE_ECHO then do {
            code \<leftarrow> rd8 data 1;
            vals \<leftarrow> rd32 h data 4;
            map_option snd (icmp_output ICMP_TYPE_ECHOREPLY code vals (drop ICMP_HDR_SIZE data)
              (len - ICMP_HDR_SIZE) (unicast iface) src s)
          }
          else Some s
        }
      })"

definition icmp_init :: "'z ip_scheme \<Rightarrow> int \<times> 'z ip_scheme" where
  "icmp_init s =
     (let (r, s) = ip_protocol_register IP_PROTOCOL_ICMP Icmp_input s in if r = -1 then (-1, s) else (0, s))"

section \<open>Messages\<close>

definition icmp_message :: "host \<Rightarrow> u8 \<Rightarrow> u8 \<Rightarrow> u32 \<Rightarrow> bytes \<Rightarrow> bytes" where
  "icmp_message h type code vals payload =
     icmp_hdr h type code (inet_checksum (sum16 h (icmp_hdr h type code 0 vals @ payload))) vals @ payload"

lemma length_icmp_hdr [simp]: "length (icmp_hdr h type code sm vals) = 8"
  by (simp add: icmp_hdr_def)

lemma length_icmp_message [simp]: "length (icmp_message h type code vals payload) = 8 + length payload"
  by (simp add: icmp_message_def)

lemma icmp_message_verifies: "inet_checksum (sum16 h (icmp_message h type code vals payload)) = 0"
proof -
  have e: "icmp_hdr h type code sm vals @ payload = [type, code] @ store16 h sm @ (store32 h vals @ payload)" for sm
    by (simp add: icmp_hdr_def)
  let ?n = "sum16 h (icmp_hdr h type code 0 vals @ payload)"
  have "sum16 h (icmp_message h type code vals payload) = unat (inet_checksum ?n) + ?n"
    unfolding icmp_message_def e by (rule sum16_middle) simp
  then show ?thesis
    using verify_sum [of ?n] by (simp only: inet_checksum_0 add.commute [of ?n])
qed

lemma icmp_output_message:
  assumes "len \<le> length data" "len \<le> 65507"
  shows "icmp_output type code vals data len src dst s =
    ip_output IP_PROTOCOL_ICMP (icmp_message (host_order s) type code vals (take len data)) (8 + len) src dst s"
proof -
  have "unat (mk16 (8 + len)) = 8 + len" using assms(2) by simp
  then show ?thesis
    using assms by (simp add: icmp_output_def rd_bytes_def cksum16_eq icmp_message_def Let_def)
qed

lemma icmp_fields:
  "rd8 (icmp_message h type code vals payload @ pad) 0 = Some type"
  "rd8 (icmp_message h type code vals payload @ pad) 1 = Some code"
  "rd32 h (icmp_message h type code vals payload @ pad) 4 = Some vals"
  "drop 8 (icmp_message h type code vals payload @ pad) = payload @ pad"
  by (simp_all add: icmp_message_def icmp_hdr_def byte_simps)

lemma icmp_input_message:
  assumes "length payload \<le> 65507"
  shows "icmp_input (icmp_message (host_order s) type code vals payload @ pad) (8 + length payload) src dst f s =
    (if type = ICMP_TYPE_ECHO
     then map_option snd (icmp_output ICMP_TYPE_ECHOREPLY code vals (payload @ pad) (length payload) (unicast f) src s)
     else Some s)"
proof -
  have "unat (mk16 (8 + length payload)) = 8 + length payload" using assms by simp
  then have "cksum16 (host_order s) (icmp_message (host_order s) type code vals payload @ pad)
      (mk16 (8 + length payload)) 0 = Some 0"
    using icmp_message_verifies by (simp add: cksum16_eq)
  then show ?thesis using icmp_fields by (simp add: icmp_input_def Let_def)
qed

lemma icmp_echo_answers:
  assumes "length payload \<le> 65507"
  shows "icmp_input (icmp_message (host_order s) type code vals payload @ pad) (8 + length payload) src dst f s =
    (if type = ICMP_TYPE_ECHO
     then map_option snd (ip_output IP_PROTOCOL_ICMP (icmp_message (host_order s) ICMP_TYPE_ECHOREPLY code vals payload)
            (8 + length payload) (unicast f) src s)
     else Some s) \<and>
    inet_checksum (sum16 (host_order s) (icmp_message (host_order s) ICMP_TYPE_ECHOREPLY code vals payload)) = 0"
proof
  show "icmp_input (icmp_message (host_order s) type code vals payload @ pad) (8 + length payload) src dst f s =
    (if type = ICMP_TYPE_ECHO
     then map_option snd (ip_output IP_PROTOCOL_ICMP (icmp_message (host_order s) ICMP_TYPE_ECHOREPLY code vals payload)
            (8 + length payload) (unicast f) src s)
     else Some s)"
    unfolding icmp_input_message [OF assms]
    using icmp_output_message [of "length payload" "payload @ pad" _ code vals "unicast f" src s] assms by simp
qed (rule icmp_message_verifies)

lemma icmp_input_total:
  assumes ok: "ip_ok s" and len: "len \<le> length data" "len \<le> 65515"
  shows "\<exists>s'. icmp_input data len src dst f s = Some s' \<and> ip_ok s' \<and> ip_frame s s'"
proof (cases "8 \<le> len")
  case False
  then show ?thesis using ok by (simp add: icmp_input_def)
next
  case True
  let ?h = "host_order s"
  have "unat (mk16 len) = len" using len(2) by simp
  then have ck: "cksum16 ?h data (mk16 len) 0 = Some (inet_checksum (sum16 ?h (take len data)))"
    using len(1) by (simp add: cksum16_eq)
  have "data \<noteq> []" using True len(1) by auto
  obtain vals where "rd32 ?h data 4 = Some vals" using True len(1) rd_Some(3) [of 4 data ?h] by auto
  then have rd: "rd8 data 0 = Some (data ! 0)" "rd8 data 1 = Some (data ! 1)" "rd32 ?h data 4 = Some vals"
    using \<open>data \<noteq> []\<close> True len(1) by (simp_all add: rd_Some)
  let ?m = "icmp_message ?h 0 (data ! 1) vals (take (len - 8) (drop 8 data))"
  have out: "icmp_output 0 (data ! 1) vals (drop 8 data) (len - 8) (unicast f) src s = ip_output 1 ?m len (unicast f) src s"
    using icmp_output_message [of "len - 8" "drop 8 data" 0 "data ! 1" vals "unicast f" src s] True len by simp
  have "len \<le> length ?m" using True len by simp
  then obtain r s' where "ip_output 1 ?m len (unicast f) src s = Some (r, s')" "ip_ok s'" "ip_frame s s'"
    using ip_output_total [OF ok] by blast
  then show ?thesis
    using True ck rd ok out by (simp add: icmp_input_def Let_def)
qed

text \<open>
  Handling any message of at most 65515 readable bytes reads and writes nothing out of bounds,
  returns, and leaves all tables as they were.
\<close>

theorem icmp_input_safe:
  assumes "ip_ok s" "len \<le> length data" "len \<le> IP_PAYLOAD_SIZE_MAX"
  shows "\<exists>s'. icmp_input data len src dst f s = Some s' \<and> ip_ok s' \<and> ip_frame s s'"
  using assms icmp_input_total by simp

theorem icmp_input_safe_witness:
  "\<exists>s'. icmp_input (replicate 9 0xff) 9 1 2 (host_iface 2) (ip_example 0x0A000002) = Some s' \<and> ip_ok s'"
  using icmp_input_safe [OF ip_ok_example, of 9 "replicate 9 0xff" 1 2 "host_iface 2" "0x0A000002"] by auto

end
