(* ===== verification/Udp.thy ===== *)
theory Udp
  imports Ip
begin

text \<open>
  The user datagram protocol, \<^verbatim>\<open>udp.c\<close>: protocol control blocks with their receive queues, input,
  output and the user commands. A position in the array of control blocks stands for a pointer into
  it. A receive that has to wait is two steps, as \<^verbatim>\<open>sched_sleep\<close> is: the call up to the wait, and the
  rest from the wake-up on.
\<close>

section \<open>Model\<close>

definition UDP_PCB_SIZE :: nat where [simp]: "UDP_PCB_SIZE = 16"
definition UDP_PCB_STATE_FREE :: int where [simp]: "UDP_PCB_STATE_FREE = 0"
definition UDP_PCB_STATE_OPEN :: int where [simp]: "UDP_PCB_STATE_OPEN = 1"
definition UDP_PCB_STATE_CLOSING :: int where [simp]: "UDP_PCB_STATE_CLOSING = 2"
definition UDP_SOURCE_PORT_MIN :: nat where [simp]: "UDP_SOURCE_PORT_MIN = 49152"
definition UDP_SOURCE_PORT_MAX :: nat where [simp]: "UDP_SOURCE_PORT_MAX = 65535"
definition UDP_HDR_SIZE :: nat where [simp]: "UDP_HDR_SIZE = 8"

definition pseudo_hdr :: "host \<Rightarrow> u32 \<Rightarrow> u32 \<Rightarrow> u8 \<Rightarrow> u16 \<Rightarrow> bytes" where
  "pseudo_hdr h src dst protocol len =
     store32 h src @ store32 h dst @ [0, protocol] @ store16 h (hton16 h len)"

definition udp_hdr :: "host \<Rightarrow> u16 \<Rightarrow> u16 \<Rightarrow> u16 \<Rightarrow> u16 \<Rightarrow> bytes" where
  "udp_hdr h src dst len sm = store16 h src @ store16 h dst @ store16 h (hton16 h len) @ store16 h sm"

record udp_queue_entry =
  uq_foreign :: ip_endpoint
  uq_len :: u16
  uq_data :: bytes

record udp_pcb =
  ustate :: int
  ulocal :: ip_endpoint
  uqueue :: "udp_queue_entry list"
  uctx :: sched_ctx

record udp = ip +
  udp_pcbs :: "udp_pcb list"

definition set_udp_pcb :: "nat \<Rightarrow> udp_pcb \<Rightarrow> 'z udp_scheme \<Rightarrow> 'z udp_scheme" where
  "set_udp_pcb i pcb s = s\<lparr>udp_pcbs := (udp_pcbs s)[i := pcb]\<rparr>"

definition udp_pcb_alloc :: "'z udp_scheme \<Rightarrow> nat option \<times> 'z udp_scheme" where
  "udp_pcb_alloc s =
     (case find_pos (\<lambda>pcb. ustate pcb = UDP_PCB_STATE_FREE) (udp_pcbs s) of
        None \<Rightarrow> (None, s)
      | Some i \<Rightarrow> (Some i, set_udp_pcb i
          ((udp_pcbs s ! i)\<lparr>ustate := UDP_PCB_STATE_OPEN, uctx := sched_ctx_init\<rparr>) s))"

definition udp_pcb_release :: "nat \<Rightarrow> 'z udp_scheme \<Rightarrow> 'z udp_scheme" where
  "udp_pcb_release i s =
     (let pcb = (udp_pcbs s ! i)\<lparr>ustate := UDP_PCB_STATE_CLOSING\<rparr>;
          (r, s) = sched_ctx_destroy s
      in if r = -1 then set_udp_pcb i (pcb\<lparr>uctx := sched_wakeup (uctx pcb)\<rparr>) s
         else set_udp_pcb i (pcb\<lparr>ustate := UDP_PCB_STATE_FREE,
                ulocal := \<lparr>ep_addr = IP_ADDR_ANY, ep_port = 0\<rparr>, uqueue := []\<rparr>) s)"

definition udp_pcb_select :: "u32 \<Rightarrow> u16 \<Rightarrow> udp_pcb list \<Rightarrow> nat option" where
  "udp_pcb_select a port pcbs =
     find_pos (\<lambda>pcb. ustate pcb = UDP_PCB_STATE_OPEN \<and>
       (ep_addr (ulocal pcb) = IP_ADDR_ANY \<or> a = IP_ADDR_ANY \<or> ep_addr (ulocal pcb) = a) \<and>
       ep_port (ulocal pcb) = port) pcbs"

definition udp_pcb_get :: "int \<Rightarrow> 'z udp_scheme \<Rightarrow> nat option" where
  "udp_pcb_get i s =
     (if i < 0 \<or> i \<ge> int (length (udp_pcbs s)) then None
      else if ustate (udp_pcbs s ! nat i) \<noteq> UDP_PCB_STATE_OPEN then None
      else Some (nat i))"

subsection \<open>Input and output\<close>

definition udp_input :: "bytes \<Rightarrow> nat \<Rightarrow> u32 \<Rightarrow> u32 \<Rightarrow> ip_iface \<Rightarrow> 'z udp_scheme \<Rightarrow> 'z udp_scheme option" where
  "udp_input data len src dst iface s =
     (if len < UDP_HDR_SIZE then Some s
      else do {
        let h = host_order s;
        hdr_len \<leftarrow> rd16 h data 4;
        if len \<noteq> unat (ntoh16 h hdr_len) then Some s
        else do {
          psum \<leftarrow> cksum16 h (pseudo_hdr h src dst IP_PROTOCOL_UDP (mk16 len)) 12 0;
          sm \<leftarrow> cksum16 h data (mk16 len) (mk32 (unat (NOT psum)));
          if sm \<noteq> 0 then Some s
          else do {
            hdr_src \<leftarrow> rd16 h data 0;
            hdr_dst \<leftarrow> rd16 h data 2;
            let data_len = len - UDP_HDR_SIZE;
            case udp_pcb_select dst hdr_dst (udp_pcbs s) of
              None \<Rightarrow> Some s
            | Some i \<Rightarrow> do {
                let (ok, s) = memory_alloc s;
                if \<not> ok then Some s
                else do {
                  copy \<leftarrow> rd_bytes data UDP_HDR_SIZE data_len;
                  let entry = \<lparr>uq_foreign = \<lparr>ep_addr = src, ep_port = hdr_src\<rparr>, uq_len = mk16 data_len, uq_data = copy\<rparr>;
                  let (ok, s) = memory_alloc s;
                  let pcb = udp_pcbs s ! i;
                  let (r, q) = qpush ok (uqueue pcb) entry;
                  if r = None then Some s
                  else Some (set_udp_pcb i (pcb\<lparr>uqueue := q, uctx := sched_wakeup (uctx pcb)\<rparr>) s)
                }
              }
          }
        }
      })"

definition udp_output ::
  "ip_endpoint \<Rightarrow> ip_endpoint \<Rightarrow> bytes \<Rightarrow> nat \<Rightarrow> 'z udp_scheme \<Rightarrow> (int \<times> 'z udp_scheme) option" where
  "udp_output src dst data len s =
     (if len > IP_PAYLOAD_SIZE_MAX - UDP_HDR_SIZE then Some (-1, s)
      else do {
        let h = host_order s;
        let udp_len = mk16 (UDP_HDR_SIZE + len);
        psum \<leftarrow> cksum16 h (pseudo_hdr h (ep_addr src) (ep_addr dst) IP_PROTOCOL_UDP udp_len) 12 0;
        payload \<leftarrow> rd_bytes data 0 len;
        sm \<leftarrow> cksum16 h (udp_hdr h (ep_port src) (ep_port dst) udp_len 0 @ payload) udp_len (mk32 (unat (NOT psum)));
        (r, s) \<leftarrow> ip_output IP_PROTOCOL_UDP (udp_hdr h (ep_port src) (ep_port dst) udp_len sm @ payload)
          (unat udp_len) (ep_addr src) (ep_addr dst) s;
        if r = -1 then Some (-1, s) else Some (int len, s)
      })"

definition udp_event_handler :: "'z udp_scheme \<Rightarrow> 'z udp_scheme" where
  "udp_event_handler s =
     s\<lparr>udp_pcbs := map (\<lambda>pcb. if ustate pcb = UDP_PCB_STATE_OPEN
                              then pcb\<lparr>uctx := sched_interrupt (uctx pcb)\<rparr> else pcb) (udp_pcbs s)\<rparr>"

definition udp_init :: "'z udp_scheme \<Rightarrow> int \<times> 'z udp_scheme" where
  "udp_init s =
     (let (r, s) = ip_protocol_register IP_PROTOCOL_UDP Udp_input s
      in if r = -1 then (-1, s)
         else let (r, s) = net_event_subscribe Udp_event_handler s
              in if r = -1 then (-1, s) else (0, s))"

subsection \<open>User commands\<close>

definition udp_open :: "'z udp_scheme \<Rightarrow> int \<times> 'z udp_scheme" where
  "udp_open s = (case udp_pcb_alloc s of (None, s) \<Rightarrow> (-1, s) | (Some i, s) \<Rightarrow> (int i, s))"

definition udp_close :: "int \<Rightarrow> 'z udp_scheme \<Rightarrow> int \<times> 'z udp_scheme" where
  "udp_close i s = (case udp_pcb_get i s of None \<Rightarrow> (-1, s) | Some k \<Rightarrow> (0, udp_pcb_release k s))"

definition udp_bind :: "int \<Rightarrow> ip_endpoint \<Rightarrow> 'z udp_scheme \<Rightarrow> int \<times> 'z udp_scheme" where
  "udp_bind i local s =
     (case udp_pcb_get i s of
        None \<Rightarrow> (-1, s)
      | Some k \<Rightarrow>
          (case udp_pcb_select (ep_addr local) (ep_port local) (udp_pcbs s) of
             Some _ \<Rightarrow> (-1, s)
           | None \<Rightarrow> (0, set_udp_pcb k ((udp_pcbs s ! k)\<lparr>ulocal := local\<rparr>) s)))"

text \<open>The search of \<^verbatim>\<open>udp_sendto\<close> for a port that is not in use at an address.\<close>

definition udp_free_port :: "host \<Rightarrow> u32 \<Rightarrow> udp_pcb list \<Rightarrow> nat option" where
  "udp_free_port h a pcbs =
     find (\<lambda>p. udp_pcb_select a (hton16 h (mk16 p)) pcbs = None) [UDP_SOURCE_PORT_MIN ..< UDP_SOURCE_PORT_MAX + 1]"

definition udp_sendto ::
  "int \<Rightarrow> bytes \<Rightarrow> nat \<Rightarrow> ip_endpoint \<Rightarrow> 'z udp_scheme \<Rightarrow> (int \<times> 'z udp_scheme) option" where
  "udp_sendto i data len foreign s =
     (case udp_pcb_get i s of
        None \<Rightarrow> Some (-1, s)
      | Some k \<Rightarrow>
          let pcb = udp_pcbs s ! k; h = host_order s
          in case (if ep_addr (ulocal pcb) = IP_ADDR_ANY
                   then map_option unicast (ip_route_get_iface (ep_addr foreign) s)
                   else Some (ep_addr (ulocal pcb))) of
               None \<Rightarrow> Some (-1, s)
             | Some a \<Rightarrow>
                 if ep_port (ulocal pcb) = 0
                 then (case udp_free_port h a (udp_pcbs s) of
                         None \<Rightarrow> Some (-1, s)
                       | Some p \<Rightarrow>
                           let port = hton16 h (mk16 p);
                               s = set_udp_pcb k (pcb\<lparr>ulocal := (ulocal pcb)\<lparr>ep_port := port\<rparr>\<rparr>) s
                           in udp_output \<lparr>ep_addr = a, ep_port = port\<rparr> foreign data len s)
                 else udp_output \<lparr>ep_addr = a, ep_port = ep_port (ulocal pcb)\<rparr> foreign data len s)"

text \<open>
  \<^verbatim>\<open>udp_recvfrom\<close>: it returns a length with the bytes copied, the sender and the value that it assigns to \<^verbatim>\<open>errno\<close>, if it
  does, or sleeps. The loop starts again after a wake-up.
\<close>

definition EINTR :: int where [simp]: "EINTR = 4"

datatype 'r blocking = Returns 'r | Sleeps

type_synonym received = "int \<times> bytes \<times> ip_endpoint option \<times> int option"

definition udp_recv_loop :: "nat \<Rightarrow> nat \<Rightarrow> 'z udp_scheme \<Rightarrow> (received blocking \<times> 'z udp_scheme) option" where
  "udp_recv_loop k sz s =
     (let pcb = udp_pcbs s ! k
      in case qpop (uqueue pcb) of
           (Some entry, q) \<Rightarrow> do {
             let s = set_udp_pcb k (pcb\<lparr>uqueue := q\<rparr>) s;
             let len = min sz (unat (uq_len entry));
             b \<leftarrow> rd_bytes (uq_data entry) 0 len;
             Some (Returns (int len, b, Some (uq_foreign entry), None), s)
           }
         | (None, _) \<Rightarrow>
             (case sched_sleep_enter (uctx pcb) of
                (Some err, c) \<Rightarrow> Some (Returns (-1, [], None, Some EINTR), set_udp_pcb k (pcb\<lparr>uctx := c\<rparr>) s)
              | (None, c) \<Rightarrow> Some (Sleeps, set_udp_pcb k (pcb\<lparr>uctx := c\<rparr>) s)))"

definition udp_recvfrom :: "int \<Rightarrow> nat \<Rightarrow> 'z udp_scheme \<Rightarrow> (received blocking \<times> 'z udp_scheme) option" where
  "udp_recvfrom i sz s =
     (case udp_pcb_get i s of
        None \<Rightarrow> Some (Returns (-1, [], None, None), s)
      | Some k \<Rightarrow> udp_recv_loop k sz s)"

definition udp_recvfrom_resume ::
  "nat \<Rightarrow> int \<Rightarrow> nat \<Rightarrow> 'z udp_scheme \<Rightarrow> (received blocking \<times> 'z udp_scheme) option" where
  "udp_recvfrom_resume k ret sz s =
     (let pcb = udp_pcbs s ! k;
          (err, c) = sched_sleep_resume ret (uctx pcb);
          s = set_udp_pcb k (pcb\<lparr>uctx := c\<rparr>) s
      in if err \<noteq> 0 then Some (Returns (-1, [], None, Some EINTR), s)
         else if ustate pcb = UDP_PCB_STATE_CLOSING
              then Some (Returns (-1, [], None, None), udp_pcb_release k s)
              else udp_recv_loop k sz s)"

section \<open>Segments\<close>

lemma length_pseudo_hdr [simp]: "length (pseudo_hdr h src dst protocol len) = 12"
  by (simp add: pseudo_hdr_def)

lemma length_udp_hdr [simp]: "length (udp_hdr h src dst len sm) = 8"
  by (simp add: udp_hdr_def)

text \<open>
  The sum of the pseudo header as the code folds it into the checksum, and the segment that output
  builds.
\<close>

definition pseudo_sum :: "host \<Rightarrow> u32 \<Rightarrow> u32 \<Rightarrow> u8 \<Rightarrow> nat \<Rightarrow> nat" where
  "pseudo_sum h src dst protocol len = ones_sum (sum16 h (pseudo_hdr h src dst protocol (mk16 len)))"

lemma pseudo_cksum:
  "cksum16 h (pseudo_hdr h src dst protocol len) 12 0 =
    Some (inet_checksum (sum16 h (pseudo_hdr h src dst protocol len)))"
  by (simp add: cksum16_eq)

lemma unat_pseudo: "unat (mk32 (unat (NOT (inet_checksum n)))) = ones_sum n" "ones_sum n < 2147483648"
  using ones_sum_le [of n] by (simp_all add: unat_not_checksum)

definition udp_segment :: "host \<Rightarrow> ip_endpoint \<Rightarrow> ip_endpoint \<Rightarrow> bytes \<Rightarrow> bytes" where
  "udp_segment h src dst payload =
     (let len = mk16 (8 + length payload); hd = udp_hdr h (ep_port src) (ep_port dst) len
      in hd (inet_checksum (pseudo_sum h (ep_addr src) (ep_addr dst) IP_PROTOCOL_UDP (8 + length payload) +
               sum16 h (hd 0 @ payload))) @ payload)"

lemma length_udp_segment [simp]: "length (udp_segment h src dst payload) = 8 + length payload"
  by (simp add: udp_segment_def Let_def)

lemma udp_segment_verifies:
  "inet_checksum (pseudo_sum h (ep_addr src) (ep_addr dst) IP_PROTOCOL_UDP (8 + length payload) +
     sum16 h (udp_segment h src dst payload)) = 0"
proof -
  let ?len = "mk16 (8 + length payload)"
  have e: "udp_hdr h sp dp ?len sm @ payload =
      (store16 h sp @ store16 h dp @ store16 h (hton16 h ?len)) @ store16 h sm @ payload" for sp dp sm
    by (simp add: udp_hdr_def)
  let ?p = "pseudo_sum h (ep_addr src) (ep_addr dst) IP_PROTOCOL_UDP (8 + length payload)"
  let ?n = "sum16 h (udp_hdr h (ep_port src) (ep_port dst) ?len 0 @ payload)"
  have "sum16 h (udp_segment h src dst payload) = unat (inet_checksum (?p + ?n)) + ?n"
    unfolding udp_segment_def Let_def e by (rule sum16_middle) simp
  then show ?thesis
    using verify_sum [of "?p + ?n"] by (simp only: inet_checksum_0 ac_simps)
qed

lemma udp_output_segment:
  assumes "len \<le> length data" "len \<le> 65507"
  shows "udp_output src dst data len s =
    map_option (\<lambda>(r, s'). (if r = -1 then -1 else int len, s'))
      (ip_output IP_PROTOCOL_UDP (udp_segment (host_order s) src dst (take len data)) (8 + len) (ep_addr src) (ep_addr dst) s)"
proof -
  have l: "unat (mk16 (8 + len)) = 8 + len" using assms(2) by simp
  have "cksum16 (host_order s) (udp_hdr (host_order s) (ep_port src) (ep_port dst) (mk16 (8 + len)) 0 @ take len data)
      (mk16 (8 + len)) (mk32 (unat (NOT (inet_checksum n)))) =
      Some (inet_checksum (ones_sum n + sum16 (host_order s)
        (udp_hdr (host_order s) (ep_port src) (ep_port dst) (mk16 (8 + len)) 0 @ take len data)))" for n
    using assms l unat_pseudo by (subst cksum16_eq) simp_all
  then show ?thesis
    using assms l
    by (cases "ip_output IP_PROTOCOL_UDP (udp_segment (host_order s) src dst (take len data)) (8 + len) (ep_addr src) (ep_addr dst) s")
      (auto simp: udp_output_def pseudo_cksum rd_bytes_def Let_def udp_segment_def pseudo_sum_def min_absorb2)
qed

section \<open>Control blocks\<close>

definition uentry_ok :: "udp_queue_entry \<Rightarrow> bool" where
  "uentry_ok e \<longleftrightarrow> unat (uq_len e) = length (uq_data e)"

definition upcb_ok :: "udp_pcb \<Rightarrow> bool" where
  "upcb_ok pcb \<longleftrightarrow> ustate pcb \<in> {0, 1, 2} \<and> (\<forall>e \<in> set (uqueue pcb). uentry_ok e)"

definition udp_ok :: "'z udp_scheme \<Rightarrow> bool" where
  "udp_ok s \<longleftrightarrow> ip_ok s \<and> length (udp_pcbs s) = UDP_PCB_SIZE \<and> (\<forall>pcb \<in> set (udp_pcbs s). upcb_ok pcb)"

lemma ip_ok_set_udp_pcb [simp]: "ip_ok (set_udp_pcb i pcb s) = ip_ok s"
  by (simp add: set_udp_pcb_def ip_ok_def net_ok_def drvs_ok_def)

lemma ip_ok_allocs [simp]: "ip_ok (s\<lparr>allocs := a\<rparr>) = ip_ok s"
  by (simp add: ip_ok_def net_ok_def drvs_ok_def)

lemma udp_pcbs_set [simp]:
  "udp_pcbs (set_udp_pcb i pcb s) = (udp_pcbs s)[i := pcb]" "host_order (set_udp_pcb i pcb s) = host_order s"
  by (simp_all add: set_udp_pcb_def)

lemma udp_ok_set:
  assumes "udp_ok s" "upcb_ok pcb" "i < length (udp_pcbs s)"
  shows "udp_ok (set_udp_pcb i pcb s)"
  using assms set_update_subset_insert [of "udp_pcbs s" i pcb] by (auto simp: udp_ok_def)

lemma udp_okD:
  assumes "udp_ok s"
  shows "ip_ok s" "length (udp_pcbs s) = 16" "k < 16 \<Longrightarrow> upcb_ok (udp_pcbs s ! k)"
  using assms nth_mem [of k "udp_pcbs s"] by (auto simp: udp_ok_def)

lemma udp_pcb_get_Some:
  "udp_pcb_get i s = Some k \<longleftrightarrow> i = int k \<and> k < length (udp_pcbs s) \<and> ustate (udp_pcbs s ! k) = 1"
  by (auto simp: udp_pcb_get_def)

subsection \<open>Input\<close>

text \<open>The state after a datagram was queued at control block \<open>k\<close>, or memory ran out.\<close>

definition udp_enqueue :: "nat \<Rightarrow> udp_queue_entry \<Rightarrow> 'z udp_scheme \<Rightarrow> 'z udp_scheme" where
  "udp_enqueue k e s =
     (if \<not> allocs s 0 then s\<lparr>allocs := advance (allocs s)\<rparr>
      else if \<not> allocs s 1 then s\<lparr>allocs := advance (advance (allocs s))\<rparr>
      else set_udp_pcb k ((udp_pcbs s ! k)\<lparr>uqueue := uqueue (udp_pcbs s ! k) @ [e],
             uctx := sched_wakeup (uctx (udp_pcbs s ! k))\<rparr>) (s\<lparr>allocs := advance (advance (allocs s))\<rparr>))"

lemma udp_input_cases:
  assumes "len \<le> length data" "8 \<le> len" "h = host_order s"
    and "rd16 h data 0 = Some sp" "rd16 h data 2 = Some dp" "rd16 h data 4 = Some n"
  shows "udp_input data len src dst f s =
    (if len \<noteq> unat (ntoh16 h n) \<or>
        inet_checksum (pseudo_sum h src dst IP_PROTOCOL_UDP len + sum16 h (take len data)) \<noteq> 0 then Some s
     else case udp_pcb_select dst dp (udp_pcbs s) of
       None \<Rightarrow> Some s
     | Some k \<Rightarrow> Some (udp_enqueue k \<lparr>uq_foreign = \<lparr>ep_addr = src, ep_port = sp\<rparr>, uq_len = mk16 (len - 8),
                   uq_data = take (len - 8) (drop 8 data)\<rparr> s))"
proof (cases "len = unat (ntoh16 h n)")
  case False
  then show ?thesis using assms by (auto simp: udp_input_def)
next
  case True
  then have len: "unat (mk16 len) = len" using unat_u16_less [of "ntoh16 h n"] by simp
  have "cksum16 h data (mk16 len) (mk32 (unat (NOT (inet_checksum m)))) =
      Some (inet_checksum (ones_sum m + sum16 h (take len data)))" for m
    using assms(1) len unat_pseudo by (subst cksum16_eq) simp_all
  moreover have "rd_bytes data 8 (len - 8) = Some (take (len - 8) (drop 8 data))"
    using assms(1,2) by (simp add: rd_bytes_def)
  ultimately show ?thesis
    using assms True
    by (auto simp: udp_input_def Let_def pseudo_cksum pseudo_sum_def udp_enqueue_def platform_defs qpush_def
        advance_def set_udp_pcb_def split: option.split)
qed

lemma udp_enqueue_ok:
  assumes "udp_ok s" "uentry_ok e" "k < 16"
  shows "udp_ok (udp_enqueue k e s)"
proof -
  have al: "udp_ok (s\<lparr>allocs := a\<rparr>)" for a using assms(1) by (simp add: udp_ok_def)
  have "upcb_ok ((udp_pcbs s ! k)\<lparr>uqueue := uqueue (udp_pcbs s ! k) @ [e], uctx := c\<rparr>)" for c
    using udp_okD(3) [OF assms(1,3)] assms(2) by (auto simp: upcb_ok_def)
  then show ?thesis
    using al udp_okD(2) [OF assms(1)] assms(3) by (simp add: udp_enqueue_def udp_ok_set)
qed

lemma udp_select_SomeD:
  assumes "udp_pcb_select a port pcbs = Some k"
  shows "k < length pcbs" "ustate (pcbs ! k) = 1" "ep_port (ulocal (pcbs ! k)) = port"
    "ep_addr (ulocal (pcbs ! k)) = IP_ADDR_ANY \<or> a = IP_ADDR_ANY \<or> ep_addr (ulocal (pcbs ! k)) = a"
  using find_pos_SomeD(1,2) [OF assms [unfolded udp_pcb_select_def]] by auto

lemma udp_input_effect:
  assumes "udp_ok s" "len \<le> length data"
  shows "\<exists>s'. udp_input data len src dst f s = Some s' \<and> udp_ok s' \<and>
    (udp_pcbs s' = udp_pcbs s \<or>
     (\<exists>k sp. k < 16 \<and> ustate (udp_pcbs s ! k) = UDP_PCB_STATE_OPEN \<and>
        ep_addr (ulocal (udp_pcbs s ! k)) \<in> {IP_ADDR_ANY, dst} \<union> (if dst = IP_ADDR_ANY then UNIV else {}) \<and>
        rd16 (host_order s) data 2 = Some (ep_port (ulocal (udp_pcbs s ! k))) \<and> rd16 (host_order s) data 0 = Some sp \<and>
        inet_checksum (pseudo_sum (host_order s) src dst IP_PROTOCOL_UDP len + sum16 (host_order s) (take len data)) = 0 \<and>
        udp_pcbs s' = (udp_pcbs s)[k := (udp_pcbs s ! k)\<lparr>
          uqueue := uqueue (udp_pcbs s ! k) @ [\<lparr>uq_foreign = \<lparr>ep_addr = src, ep_port = sp\<rparr>,
            uq_len = mk16 (len - 8), uq_data = take (len - 8) (drop 8 data)\<rparr>],
          uctx := sched_wakeup (uctx (udp_pcbs s ! k))\<rparr>]))"
proof (cases "8 \<le> len")
  case False
  then show ?thesis using assms by (simp add: udp_input_def)
next
  case True
  let ?h = "host_order s"
  obtain sp dp n where rd: "rd16 ?h data 0 = Some sp" "rd16 ?h data 2 = Some dp" "rd16 ?h data 4 = Some n"
    using True assms(2) rd_Some(2) [of 0 data ?h] rd_Some(2) [of 2 data ?h] rd_Some(2) [of 4 data ?h] by auto
  let ?e = "\<lparr>uq_foreign = \<lparr>ep_addr = src, ep_port = sp\<rparr>, uq_len = mk16 (len - 8), uq_data = take (len - 8) (drop 8 data)\<rparr>"
  note eq = udp_input_cases [OF assms(2) True refl rd, of src dst f]
  show ?thesis
  proof (cases "udp_input data len src dst f s = Some s")
    case True
    then show ?thesis using assms by auto
  next
    case False
    then obtain k where k: "udp_pcb_select dst dp (udp_pcbs s) = Some k" "len = unat (ntoh16 ?h n)"
      "inet_checksum (pseudo_sum ?h src dst IP_PROTOCOL_UDP len + sum16 ?h (take len data)) = 0"
      "udp_input data len src dst f s = Some (udp_enqueue k ?e s)"
      using eq by (auto split: if_splits option.splits)
    note sel = udp_select_SomeD [OF k(1)]
    have "len < 65536" using k(2) unat_u16_less by simp
    then have "uentry_ok ?e" using assms(2) True by (simp add: uentry_ok_def)
    then have "udp_ok (udp_enqueue k ?e s)"
      using sel(1) udp_okD(2) [OF assms(1)] by (intro udp_enqueue_ok [OF assms(1)]) simp_all
    moreover have "udp_pcbs (udp_enqueue k ?e s) = udp_pcbs s \<or> udp_pcbs (udp_enqueue k ?e s) =
        (udp_pcbs s)[k := (udp_pcbs s ! k)\<lparr>uqueue := uqueue (udp_pcbs s ! k) @ [?e], uctx := sched_wakeup (uctx (udp_pcbs s ! k))\<rparr>]"
      by (simp add: udp_enqueue_def)
    ultimately show ?thesis
      using k sel rd udp_okD(2) [OF assms(1)] by (intro exI [of _ "udp_enqueue k ?e s"]) auto
  qed
qed

text \<open>
  C29. Whatever bytes arrive as a datagram, handling it reads nothing out of bounds. Either no control
  block changes, or the datagram verifies and exactly one block, open and bound to its destination,
  gets it appended to its queue, with its sender and all of its data, and its waiting readers are
  woken.
\<close>

theorem udp_input_safe:
  assumes "udp_ok s" "len \<le> length data"
  shows "\<exists>s'. udp_input data len src dst f s = Some s' \<and> udp_ok s' \<and>
    (udp_pcbs s' = udp_pcbs s \<or>
     (\<exists>k sp. k < 16 \<and> ustate (udp_pcbs s ! k) = UDP_PCB_STATE_OPEN \<and>
        ep_addr (ulocal (udp_pcbs s ! k)) \<in> {IP_ADDR_ANY, dst} \<union> (if dst = IP_ADDR_ANY then UNIV else {}) \<and>
        rd16 (host_order s) data 2 = Some (ep_port (ulocal (udp_pcbs s ! k))) \<and> rd16 (host_order s) data 0 = Some sp \<and>
        inet_checksum (pseudo_sum (host_order s) src dst IP_PROTOCOL_UDP len + sum16 (host_order s) (take len data)) = 0 \<and>
        udp_pcbs s' = (udp_pcbs s)[k := (udp_pcbs s ! k)\<lparr>
          uqueue := uqueue (udp_pcbs s ! k) @ [\<lparr>uq_foreign = \<lparr>ep_addr = src, ep_port = sp\<rparr>,
            uq_len = mk16 (len - 8), uq_data = take (len - 8) (drop 8 data)\<rparr>],
          uctx := sched_wakeup (uctx (udp_pcbs s ! k))\<rparr>]))"
  using assms by (rule udp_input_effect)

subsection \<open>Receiving\<close>

lemma udp_recv_loop_pop:
  assumes "uqueue (udp_pcbs s ! k) = e # q" "uentry_ok e"
  shows "udp_recv_loop k sz s =
    Some (Returns (int (min sz (length (uq_data e))), take sz (uq_data e), Some (uq_foreign e), None),
      set_udp_pcb k ((udp_pcbs s ! k)\<lparr>uqueue := q\<rparr>) s)"
proof -
  have "take (min sz (length (uq_data e))) (uq_data e) = take sz (uq_data e)" by (simp add: min_def)
  then show ?thesis using assms by (simp add: udp_recv_loop_def Let_def uentry_ok_def rd_bytes_def)
qed

lemma udp_recv_loop_total:
  assumes "udp_ok s" "k < 16"
  shows "\<exists>r s'. udp_recv_loop k sz s = Some (r, s') \<and> udp_ok s'"
proof -
  note pcb = udp_okD(3) [OF assms] and len = udp_okD(2) [OF assms(1)]
  show ?thesis
  proof (cases "uqueue (udp_pcbs s ! k)")
    case Nil
    have "udp_ok (set_udp_pcb k ((udp_pcbs s ! k)\<lparr>uctx := c\<rparr>) s)" for c
      using pcb len assms by (intro udp_ok_set) (simp_all add: upcb_ok_def)
    then show ?thesis using Nil by (auto simp: udp_recv_loop_def Let_def split: prod.split option.split)
  next
    case (Cons e q)
    then have "udp_ok (set_udp_pcb k ((udp_pcbs s ! k)\<lparr>uqueue := q\<rparr>) s)"
      using pcb len assms by (intro udp_ok_set) (simp_all add: upcb_ok_def)
    then show ?thesis using Cons pcb udp_recv_loop_pop [OF Cons, of sz] by (simp add: upcb_ok_def)
  qed
qed

lemma udp_datagram_delivered:
  assumes ok: "udp_ok s" and payload: "length payload \<le> 65507"
    and k: "udp_pcb_select (ep_addr dst) (ep_port dst) (udp_pcbs s) = Some k"
    and empty: "uqueue (udp_pcbs s ! k) = []" and mem: "allocs s 0" "allocs s 1"
  shows "\<exists>s1 s2. udp_input (udp_segment (host_order s) src dst payload @ pad) (8 + length payload)
      (ep_addr src) (ep_addr dst) f s = Some s1 \<and>
    udp_recvfrom (int k) sz s1 = Some (Returns (int (min sz (length payload)), take sz payload, Some src, None), s2) \<and>
    s2 = set_udp_pcb k ((udp_pcbs s ! k)\<lparr>uctx := sched_wakeup (uctx (udp_pcbs s ! k))\<rparr>) (s\<lparr>allocs := advance (advance (allocs s))\<rparr>)"
proof -
  let ?h = "host_order s" and ?len = "8 + length payload"
  let ?data = "udp_segment ?h src dst payload @ pad"
  let ?e = "\<lparr>uq_foreign = src, uq_len = mk16 (length payload), uq_data = payload\<rparr>"
  have rd: "rd16 ?h ?data 0 = Some (ep_port src)" "rd16 ?h ?data 2 = Some (ep_port dst)"
    "rd16 ?h ?data 4 = Some (hton16 ?h (mk16 ?len))"
    by (simp_all add: udp_segment_def udp_hdr_def Let_def rd_skip rd_here)
  have ep: "\<lparr>ep_addr = ep_addr src, ep_port = ep_port src\<rparr> = src" by simp
  have "drop 8 ?data = payload @ pad" by (simp add: udp_segment_def Let_def)
  then have "udp_input ?data ?len (ep_addr src) (ep_addr dst) f s = Some (udp_enqueue k ?e s)"
    using udp_input_cases [OF _ _ refl rd, of ?len "ep_addr src" "ep_addr dst" f] k payload udp_segment_verifies
    by (simp add: ep)
  moreover note sel = udp_select_SomeD [OF k] and len = udp_okD(2) [OF ok]
  let ?s1 = "udp_enqueue k ?e s" and ?c = "sched_wakeup (uctx (udp_pcbs s ! k))" and ?al = "s\<lparr>allocs := advance (advance (allocs s))\<rparr>"
  have s1: "?s1 = set_udp_pcb k ((udp_pcbs s ! k)\<lparr>uqueue := [?e], uctx := ?c\<rparr>) ?al"
    using mem empty by (simp add: udp_enqueue_def)
  then have pcb: "udp_pcbs ?s1 ! k = (udp_pcbs s ! k)\<lparr>uqueue := [?e], uctx := ?c\<rparr>" using sel(1) by simp
  then have get: "udp_pcb_get (int k) ?s1 = Some k" using sel len by (simp add: udp_pcb_get_Some s1)
  have "uentry_ok ?e" using payload by (simp add: uentry_ok_def)
  then have "udp_recvfrom (int k) sz ?s1 = Some (Returns (int (min sz (length payload)), take sz payload, Some src, None),
      set_udp_pcb k ((udp_pcbs ?s1 ! k)\<lparr>uqueue := []\<rparr>) ?s1)"
    using udp_recv_loop_pop [of ?s1 k ?e "[]" sz] pcb get by (simp add: udp_recvfrom_def)
  moreover have "(udp_pcbs ?s1 ! k)\<lparr>uqueue := []\<rparr> = (udp_pcbs s ! k)\<lparr>uctx := ?c\<rparr>" unfolding pcb using empty by (cases "udp_pcbs s ! k") simp
  then have "set_udp_pcb k ((udp_pcbs ?s1 ! k)\<lparr>uqueue := []\<rparr>) ?s1 = set_udp_pcb k ((udp_pcbs s ! k)\<lparr>uctx := ?c\<rparr>) ?al"
    by (simp add: s1 set_udp_pcb_def)
  ultimately show ?thesis by simp
qed

subsection \<open>Binding\<close>

text \<open>
  Two endpoints overlap when a datagram can be for both; a set of control blocks is exclusive when no
  two open ones with a port have overlapping endpoints.
\<close>

definition ep_overlap :: "ip_endpoint \<Rightarrow> ip_endpoint \<Rightarrow> bool" where
  "ep_overlap a b \<longleftrightarrow> (ep_addr a = IP_ADDR_ANY \<or> ep_addr b = IP_ADDR_ANY \<or> ep_addr a = ep_addr b) \<and> ep_port a = ep_port b"

definition exclusive :: "udp_pcb list \<Rightarrow> bool" where
  "exclusive pcbs \<longleftrightarrow> (\<forall>i < length pcbs. \<forall>j < length pcbs. i \<noteq> j \<longrightarrow>
     ustate (pcbs ! i) = UDP_PCB_STATE_OPEN \<longrightarrow> ustate (pcbs ! j) = UDP_PCB_STATE_OPEN \<longrightarrow>
     ep_port (ulocal (pcbs ! i)) \<noteq> 0 \<longrightarrow> \<not> ep_overlap (ulocal (pcbs ! i)) (ulocal (pcbs ! j)))"

lemma udp_select_None:
  "udp_pcb_select (ep_addr e) (ep_port e) pcbs = None \<longleftrightarrow>
   (\<forall>j < length pcbs. ustate (pcbs ! j) = 1 \<longrightarrow> \<not> ep_overlap (ulocal (pcbs ! j)) e)"
  by (auto simp: udp_pcb_select_def find_pos_None all_set_conv_all_nth ep_overlap_def)

lemma exclusive_update:
  assumes "exclusive pcbs" "k < length pcbs"
    and "ustate pcb = 1 \<and> ep_port (ulocal pcb) \<noteq> 0 \<longrightarrow>
      (\<forall>j < length pcbs. j \<noteq> k \<and> ustate (pcbs ! j) = 1 \<longrightarrow> \<not> ep_overlap (ulocal (pcbs ! j)) (ulocal pcb))"
  shows "exclusive (pcbs[k := pcb])"
proof -
  have sym: "ep_overlap a b = ep_overlap b a" for a b by (auto simp: ep_overlap_def)
  have port: "ep_overlap a b \<Longrightarrow> ep_port a = ep_port b" for a b by (simp add: ep_overlap_def)
  show ?thesis
    unfolding exclusive_def
  proof (intro allI impI notI)
    fix i j
    assume ij: "i < length (pcbs[k := pcb])" "j < length (pcbs[k := pcb])" "i \<noteq> j"
      "ustate (pcbs[k := pcb] ! i) = UDP_PCB_STATE_OPEN" "ustate (pcbs[k := pcb] ! j) = UDP_PCB_STATE_OPEN"
      "ep_port (ulocal (pcbs[k := pcb] ! i)) \<noteq> 0" "ep_overlap (ulocal (pcbs[k := pcb] ! i)) (ulocal (pcbs[k := pcb] ! j))"
    consider "i = k" | "j = k" | "i \<noteq> k" "j \<noteq> k" by blast
    then show False
    proof cases
      case 1
      then show ?thesis using ij assms(2,3) sym by auto
    next
      case 2
      then show ?thesis using ij assms(2,3) port [OF ij(7)] by auto
    next
      case 3
      then show ?thesis using ij assms(1) by (auto simp: exclusive_def)
    qed
  qed
qed

text \<open>
  C30. Exclusive binding: opening, binding and closing keep the open control blocks exclusive. A bind
  succeeds exactly when the identifier is open and no open block overlaps the endpoint; after it, datagrams to the
  endpoint go to that block and to no other.
\<close>

theorem udp_bind_exclusive:
  assumes "exclusive (udp_pcbs s)" "ep_port ep \<noteq> 0" "length (udp_pcbs s) = UDP_PCB_SIZE"
    and "\<forall>pcb \<in> set (udp_pcbs s). ustate pcb = UDP_PCB_STATE_FREE \<longrightarrow> ep_port (ulocal pcb) = 0"
  shows "exclusive (udp_pcbs (snd (udp_open s))) \<and> exclusive (udp_pcbs (snd (udp_close i s))) \<and>
    exclusive (udp_pcbs (snd (udp_bind i ep s))) \<and>
    (fst (udp_bind i ep s) = 0 \<longleftrightarrow> udp_pcb_get i s \<noteq> None \<and>
       (\<forall>j < 16. ustate (udp_pcbs s ! j) = UDP_PCB_STATE_OPEN \<longrightarrow> \<not> ep_overlap (ulocal (udp_pcbs s ! j)) ep)) \<and>
    (fst (udp_bind i ep s) = 0 \<longrightarrow>
       udp_pcb_select (ep_addr ep) (ep_port ep) (udp_pcbs (snd (udp_bind i ep s))) = Some (nat i))"
proof (intro conjI)
  show "exclusive (udp_pcbs (snd (udp_open s)))"
  proof (cases "find_pos (\<lambda>pcb. ustate pcb = 0) (udp_pcbs s)")
    case None
    then show ?thesis using assms(1) by (simp add: udp_open_def udp_pcb_alloc_def)
  next
    case (Some k)
    note k = find_pos_SomeD [OF Some]
    then have "ep_port (ulocal (udp_pcbs s ! k)) = 0" using assms(4) by simp
    then show ?thesis using Some k(1) assms(1)
      by (simp add: udp_open_def udp_pcb_alloc_def exclusive_update)
  qed
  show "exclusive (udp_pcbs (snd (udp_close i s)))"
    using assms(1) by (auto simp: udp_close_def udp_pcb_release_def Let_def platform_defs udp_pcb_get_Some
        intro!: exclusive_update split: option.split)
  show bind: "exclusive (udp_pcbs (snd (udp_bind i ep s)))"
    using assms(1) by (auto simp: udp_bind_def udp_pcb_get_Some udp_select_None
        intro!: exclusive_update split: option.split)
  show iff: "fst (udp_bind i ep s) = 0 \<longleftrightarrow> udp_pcb_get i s \<noteq> None \<and>
       (\<forall>j < 16. ustate (udp_pcbs s ! j) = UDP_PCB_STATE_OPEN \<longrightarrow> \<not> ep_overlap (ulocal (udp_pcbs s ! j)) ep)"
    using assms(3) udp_select_None [of ep "udp_pcbs s"]
    by (auto simp: udp_bind_def split: option.split)
  show "fst (udp_bind i ep s) = 0 \<longrightarrow>
       udp_pcb_select (ep_addr ep) (ep_port ep) (udp_pcbs (snd (udp_bind i ep s))) = Some (nat i)"
  proof
    assume "fst (udp_bind i ep s) = 0"
    then obtain k where k: "udp_pcb_get i s = Some k" "udp_pcb_select (ep_addr ep) (ep_port ep) (udp_pcbs s) = None"
      by (auto simp: udp_bind_def split: option.splits)
    then have ki: "k < length (udp_pcbs s)" "i = int k" "ustate (udp_pcbs s ! k) = 1" by (simp_all add: udp_pcb_get_Some)
    have "\<not> (ustate (udp_pcbs s ! j) = 1 \<and> ep_overlap (ulocal (udp_pcbs s ! j)) ep)" if "j < k" for j
      using k(2) ki(1) that by (auto simp: udp_select_None)
    then show "udp_pcb_select (ep_addr ep) (ep_port ep) (udp_pcbs (snd (udp_bind i ep s))) = Some (nat i)"
      using k ki by (auto simp: udp_bind_def udp_pcb_select_def find_pos_Some_iff ep_overlap_def)
  qed
qed

subsection \<open>Sending\<close>

lemma ip_frame_udp: "ip_frame s s' \<Longrightarrow> udp_pcbs s' = udp_pcbs s"
  by (cases s; cases s') (auto dest: ip_frameD(4))

lemma udp_ok_frame: "udp_ok s \<Longrightarrow> ip_frame s s' \<Longrightarrow> ip_ok s' \<Longrightarrow> udp_ok s'"
  by (simp add: udp_ok_def ip_frame_udp)

lemma udp_output_total:
  assumes "udp_ok s" "len \<le> length data"
  shows "\<exists>r s'. udp_output src dst data len s = Some (r, s') \<and> r \<in> {-1, int len} \<and> udp_ok s' \<and> ip_frame s s'"
proof (cases "len \<le> 65507")
  case False
  then show ?thesis using assms by (simp add: udp_output_def)
next
  case True
  let ?m = "udp_segment (host_order s) src dst (take len data)"
  have "8 + len \<le> length ?m" using assms(2) by simp
  then obtain r s' where "ip_output 17 ?m (8 + len) (ep_addr src) (ep_addr dst) s = Some (r, s')" "ip_ok s'" "ip_frame s s'"
    using ip_output_total [OF udp_okD(1) [OF assms(1)]] by blast
  then show ?thesis
    using udp_output_segment [OF assms(2) True, of src dst s] udp_ok_frame [OF assms(1)] by auto
qed

lemma find_upt:
  assumes "find P [lo ..< hi] = Some p"
  shows "lo \<le> p \<and> p < hi \<and> P p"
  using assms by (auto simp: find_Some_iff)

lemma udp_free_port_Some:
  assumes "udp_free_port h a pcbs = Some p"
  shows "49152 \<le> p \<and> p \<le> 65535 \<and> udp_pcb_select a (hton16 h (mk16 p)) pcbs = None"
proof -
  from assms have "find (\<lambda>p. udp_pcb_select a (hton16 h (mk16 p)) pcbs = None)
      [UDP_SOURCE_PORT_MIN ..< UDP_SOURCE_PORT_MAX + 1] = Some p"
    unfolding udp_free_port_def .
  from find_upt [OF this] show ?thesis unfolding UDP_SOURCE_PORT_MIN_def UDP_SOURCE_PORT_MAX_def by simp
qed

text \<open>
  Sending never leaves a buffer and returns the length or -1. When it does not fail, the control block
  has a port: the one it had, or, if it had none, a port from the dynamic range that no open block
  used at the address the datagram is sent from.
\<close>

lemma udp_sendto_port:
  assumes ok: "udp_ok s" and k: "udp_pcb_get i s = Some k" and len: "len \<le> length data"
  shows "\<exists>r s'. udp_sendto i data len foreign s = Some (r, s') \<and> r \<in> {-1, int len} \<and> udp_ok s' \<and>
    (r \<noteq> -1 \<longrightarrow>
      (let old = ulocal (udp_pcbs s ! k); new = ulocal (udp_pcbs s' ! k)
       in ep_addr new = ep_addr old \<and>
          (if ep_port old \<noteq> 0 then ep_port new = ep_port old
           else 49152 \<le> unat (ntoh16 (host_order s) (ep_port new)) \<and>
             (\<exists>a. udp_pcb_select a (ep_port new) (udp_pcbs s) = None \<and>
                (ep_addr old = a \<or> ep_addr old = IP_ADDR_ANY \<and>
                   map_option unicast (ip_route_get_iface (ep_addr foreign) s) = Some a)))))"
proof -
  let ?pcb = "udp_pcbs s ! k" and ?h = "host_order s"
  let ?a = "if ep_addr (ulocal ?pcb) = IP_ADDR_ANY then map_option unicast (ip_route_get_iface (ep_addr foreign) s)
            else Some (ep_addr (ulocal ?pcb))"
  have ki: "k < 16" "k < length (udp_pcbs s)" using k udp_okD(2) [OF ok] by (simp_all add: udp_pcb_get_Some)
  show ?thesis
  proof (cases ?a)
    case None
    then show ?thesis using ok k by (simp add: udp_sendto_def)
  next
    case (Some a)
    then have a: "ep_addr (ulocal ?pcb) = a \<or> ep_addr (ulocal ?pcb) = IP_ADDR_ANY \<and>
        map_option unicast (ip_route_get_iface (ep_addr foreign) s) = Some a"
      by (simp split: if_splits)
    consider (bound) "ep_port (ulocal ?pcb) \<noteq> 0" | (none) "ep_port (ulocal ?pcb) = 0" "udp_free_port ?h a (udp_pcbs s) = None"
      | (free) p where "ep_port (ulocal ?pcb) = 0" "udp_free_port ?h a (udp_pcbs s) = Some p" by fastforce
    then show ?thesis
    proof cases
      case bound
      obtain r s' where "udp_output \<lparr>ep_addr = a, ep_port = ep_port (ulocal ?pcb)\<rparr> foreign data len s = Some (r, s')"
        "r \<in> {-1, int len}" "udp_ok s'" "ip_frame s s'"
        using udp_output_total [OF ok len] by blast
      then show ?thesis using k Some bound by (auto simp: udp_sendto_def Let_def ip_frame_udp)
    next
      case none
      then show ?thesis using ok k Some by (simp add: udp_sendto_def Let_def)
    next
      case free
      let ?port = "hton16 ?h (mk16 p)"
      let ?s1 = "set_udp_pcb k (?pcb\<lparr>ulocal := (ulocal ?pcb)\<lparr>ep_port := ?port\<rparr>\<rparr>) s"
      have "udp_ok ?s1" using udp_okD(3) [OF ok ki(1)] ki by (intro udp_ok_set [OF ok]) (simp_all add: upcb_ok_def)
      then obtain r s' where "udp_output \<lparr>ep_addr = a, ep_port = ?port\<rparr> foreign data len ?s1 = Some (r, s')"
        "r \<in> {-1, int len}" "udp_ok s'" "ip_frame ?s1 s'"
        using udp_output_total [of ?s1 len data] len by blast
      moreover have "49152 \<le> unat (mk16 p)" "udp_pcb_select a ?port (udp_pcbs s) = None"
        using udp_free_port_Some [OF free(2)] by simp_all
      ultimately show ?thesis
        using k Some free ki a by (auto simp: udp_sendto_def Let_def ip_frame_udp)
    qed
  qed
qed

section \<open>Examples\<close>

definition free_pcb :: udp_pcb where
  "free_pcb = \<lparr>ustate = 0, ulocal = \<lparr>ep_addr = 0, ep_port = 0\<rparr>, uqueue = [], uctx = sched_ctx_init\<rparr>"

definition open_pcb :: "u32 \<Rightarrow> u16 \<Rightarrow> udp_pcb" where
  "open_pcb a port = free_pcb\<lparr>ustate := 1, ulocal := \<lparr>ep_addr = a, ep_port = port\<rparr>\<rparr>"

definition udp_example :: "u32 \<Rightarrow> udp_pcb list \<Rightarrow> udp" where
  "udp_example a pcbs = ip.extend (ip_example a) (udp.fields (pcbs @ replicate (16 - length pcbs) free_pcb))"

lemma udp_example_simps:
  "udp_pcbs (udp_example a pcbs) = pcbs @ replicate (16 - length pcbs) free_pcb"
  "host_order (udp_example a pcbs) = Big" "allocs (udp_example a pcbs) n" "routes (udp_example a pcbs) = routes (ip_example a)"
  by (simp_all add: udp_example_def ip.defs udp.defs ip_example_def arp.defs arp_example_def)

lemma ip_ok_udp_example: "ip_ok (udp_example a pcbs)"
  using ip_ok_example [of a]
  by (simp add: ip_ok_def net_ok_def drvs_ok_def udp_example_def ip.defs udp.defs ip_example_def arp.defs)

lemma udp_ok_example: "length pcbs \<le> 16 \<Longrightarrow> \<forall>pcb \<in> set pcbs. upcb_ok pcb \<Longrightarrow> udp_ok (udp_example a pcbs)"
  by (auto simp: udp_ok_def ip_ok_udp_example udp_example_simps free_pcb_def upcb_ok_def)

lemma upcb_ok_open: "upcb_ok (open_pcb a port)"
  by (simp add: open_pcb_def free_pcb_def upcb_ok_def)

lemma udp_ok_one: "udp_ok (udp_example a [open_pcb 0 7])"
  by (rule udp_ok_example) (simp_all add: upcb_ok_open)

theorem udp_input_safe_witness:
  "udp_ok (udp_example 0x0A000002 [open_pcb 0 7]) \<and>
   (\<exists>s'. udp_input [1, 2, 3, 4, 5, 6, 7, 8, 9] 9 1 2 (host_iface 2) (udp_example 0x0A000002 [open_pcb 0 7]) = Some s' \<and> udp_ok s')"
  using udp_input_safe [OF udp_ok_one, of 9 "[1, 2, 3, 4, 5, 6, 7, 8, 9]" 1 2 "host_iface 2" "0x0A000002"] udp_ok_one
  by auto

theorem udp_bind_exclusive_witness:
  "exclusive (udp_pcbs (snd (udp_bind 0 \<lparr>ep_addr = 0, ep_port = 7\<rparr> (udp_example 0x0A000002 [open_pcb 0 0])))) \<and>
   fst (udp_bind 0 \<lparr>ep_addr = 0, ep_port = 7\<rparr> (udp_example 0x0A000002 [open_pcb 0 0])) = 0"
proof -
  let ?s = "udp_example 0x0A000002 [open_pcb 0 0]"
  have nth: "udp_pcbs ?s ! j = (if j = 0 then open_pcb 0 0 else free_pcb)" if "j < 16" for j
    using that by (cases j) (simp_all add: udp_example_simps)
  have len: "length (udp_pcbs ?s) = 16" by (simp add: udp_example_simps)
  then have "exclusive (udp_pcbs ?s)"
    using nth by (auto simp: exclusive_def open_pcb_def free_pcb_def)
  moreover have "\<forall>pcb \<in> set (udp_pcbs ?s). ustate pcb = UDP_PCB_STATE_FREE \<longrightarrow> ep_port (ulocal pcb) = 0"
    by (simp add: udp_example_simps open_pcb_def free_pcb_def)
  moreover have "\<forall>j < 16. ustate (udp_pcbs ?s ! j) = UDP_PCB_STATE_OPEN \<longrightarrow>
      \<not> ep_overlap (ulocal (udp_pcbs ?s ! j)) \<lparr>ep_addr = 0, ep_port = 7\<rparr>"
    using nth by (simp add: open_pcb_def free_pcb_def ep_overlap_def)
  moreover have "udp_pcb_get 0 ?s \<noteq> None" by (simp add: udp_pcb_get_def udp_example_simps open_pcb_def)
  ultimately show ?thesis
    using udp_bind_exclusive [of ?s "\<lparr>ep_addr = 0, ep_port = 7\<rparr>" 0] len by simp
qed

end
