(* ===== verification/Tcp.thy ===== *)
theory Tcp
  imports Udp
begin

text \<open>
  The transmission control protocol, \<^verbatim>\<open>tcp.c\<close>: control blocks with their receive buffer and
  retransmission queue, output of segments, the processing of an arriving segment, the timer and the
  user commands. A position in the array of control blocks stands for a pointer into it. Sequence
  numbers are 32 bit words and are compared as the code compares them, as numbers and not modulo
  the sequence space. A user command that waits is split at \<^verbatim>\<open>sched_sleep\<close>; what survives the wait in
  local variables is carried by the value that stands for waiting.
\<close>

section \<open>Model\<close>

definition TCP_FLG_FIN :: u8 where [simp]: "TCP_FLG_FIN = 0x01"
definition TCP_FLG_SYN :: u8 where [simp]: "TCP_FLG_SYN = 0x02"
definition TCP_FLG_RST :: u8 where [simp]: "TCP_FLG_RST = 0x04"
definition TCP_FLG_PSH :: u8 where [simp]: "TCP_FLG_PSH = 0x08"
definition TCP_FLG_ACK :: u8 where [simp]: "TCP_FLG_ACK = 0x10"

definition TCP_FLG_ISSET :: "u8 \<Rightarrow> u8 \<Rightarrow> bool" where
  "TCP_FLG_ISSET x y \<longleftrightarrow> (x AND 0x3f) AND y \<noteq> 0"

definition TCP_PCB_SIZE :: nat where [simp]: "TCP_PCB_SIZE = 16"
definition TCP_PCB_STATE_FREE :: int where [simp]: "TCP_PCB_STATE_FREE = 0"
definition TCP_PCB_STATE_CLOSED :: int where [simp]: "TCP_PCB_STATE_CLOSED = 1"
definition TCP_PCB_STATE_LISTEN :: int where [simp]: "TCP_PCB_STATE_LISTEN = 2"
definition TCP_PCB_STATE_SYN_SENT :: int where [simp]: "TCP_PCB_STATE_SYN_SENT = 3"
definition TCP_PCB_STATE_SYN_RECEIVED :: int where [simp]: "TCP_PCB_STATE_SYN_RECEIVED = 4"
definition TCP_PCB_STATE_ESTABLISHED :: int where [simp]: "TCP_PCB_STATE_ESTABLISHED = 5"
definition TCP_PCB_STATE_FIN_WAIT1 :: int where [simp]: "TCP_PCB_STATE_FIN_WAIT1 = 6"
definition TCP_PCB_STATE_FIN_WAIT2 :: int where [simp]: "TCP_PCB_STATE_FIN_WAIT2 = 7"
definition TCP_PCB_STATE_CLOSING :: int where [simp]: "TCP_PCB_STATE_CLOSING = 8"
definition TCP_PCB_STATE_TIME_WAIT :: int where [simp]: "TCP_PCB_STATE_TIME_WAIT = 9"
definition TCP_PCB_STATE_CLOSE_WAIT :: int where [simp]: "TCP_PCB_STATE_CLOSE_WAIT = 10"
definition TCP_PCB_STATE_LAST_ACK :: int where [simp]: "TCP_PCB_STATE_LAST_ACK = 11"

definition TCP_DEFAULT_RTO :: u32 where "TCP_DEFAULT_RTO = 200000"
definition TCP_RETRANSMIT_DEADLINE :: int where "TCP_RETRANSMIT_DEADLINE = 12"

text \<open>\<^verbatim>\<open>sizeof(struct tcp_hdr)\<close> and \<^verbatim>\<open>sizeof(pcb->buf)\<close>.\<close>

definition TCP_HDR_SIZE :: nat where [simp]: "TCP_HDR_SIZE = 20"
definition TCP_BUF_SIZE :: nat where "TCP_BUF_SIZE = 65535"

text \<open>The bytes of a header; ports are as they are in memory, the other fields in host byte order.\<close>

definition tcp_hdr :: "host \<Rightarrow> u16 \<Rightarrow> u16 \<Rightarrow> u32 \<Rightarrow> u32 \<Rightarrow> u8 \<Rightarrow> u8 \<Rightarrow> u16 \<Rightarrow> u16 \<Rightarrow> u16 \<Rightarrow> bytes" where
  "tcp_hdr h src dst sq ak off flg wnd sm up =
     store16 h src @ store16 h dst @ store32 h (hton32 h sq) @ store32 h (hton32 h ak) @ [off, flg] @
     store16 h (hton16 h wnd) @ store16 h sm @ store16 h up"

record tcp_segment_info =
  seg_seq :: u32
  seg_ack :: u32
  seg_len :: u16
  seg_wnd :: u16
  seg_up :: u16

record tcp_queue_entry =
  q_first :: timeval
  q_last :: timeval
  q_rto :: u32
  q_seq :: u32
  q_flg :: u8
  q_len :: nat
  q_data :: bytes

record tcp_pcb =
  tstate :: int
  tlocal :: ip_endpoint
  tforeign :: ip_endpoint
  snd_nxt :: u32
  snd_una :: u32
  snd_wnd :: u16
  snd_up :: u16
  snd_wl1 :: u32
  snd_wl2 :: u32
  iss :: u32
  rcv_nxt :: u32
  rcv_wnd :: u16
  rcv_up :: u16
  irs :: u32
  tmtu :: u16
  tmss :: u16
  tbuf :: bytes
  tctx :: sched_ctx
  tqueue :: "tcp_queue_entry list"

record tcp = udp +
  tcp_pcbs :: "tcp_pcb list"

definition set_tcp_pcb :: "nat \<Rightarrow> tcp_pcb \<Rightarrow> 'z tcp_scheme \<Rightarrow> 'z tcp_scheme" where
  "set_tcp_pcb i pcb s = s\<lparr>tcp_pcbs := (tcp_pcbs s)[i := pcb]\<rparr>"

text \<open>An assignment to fields of the control block that a pointer refers to.\<close>

definition upd_tcp_pcb :: "nat \<Rightarrow> (tcp_pcb \<Rightarrow> tcp_pcb) \<Rightarrow> 'z tcp_scheme \<Rightarrow> 'z tcp_scheme" where
  "upd_tcp_pcb i f s = set_tcp_pcb i (f (tcp_pcbs s ! i)) s"

definition tcp_wakeup :: "nat \<Rightarrow> 'z tcp_scheme \<Rightarrow> 'z tcp_scheme" where
  "tcp_wakeup i s = upd_tcp_pcb i (\<lambda>pcb. pcb\<lparr>tctx := sched_wakeup (tctx pcb)\<rparr>) s"

subsection \<open>Control blocks\<close>

definition tcp_pcb_alloc :: "'z tcp_scheme \<Rightarrow> nat option \<times> 'z tcp_scheme" where
  "tcp_pcb_alloc s =
     (case find_pos (\<lambda>pcb. tstate pcb = TCP_PCB_STATE_FREE) (tcp_pcbs s) of
        None \<Rightarrow> (None, s)
      | Some i \<Rightarrow> (Some i, upd_tcp_pcb i (\<lambda>pcb. pcb\<lparr>tstate := TCP_PCB_STATE_CLOSED, tctx := sched_ctx_init\<rparr>) s))"

text \<open>A control block of zero bytes.\<close>

definition zero_tcp_pcb :: tcp_pcb where
  "zero_tcp_pcb =
     \<lparr>tstate = 0, tlocal = \<lparr>ep_addr = 0, ep_port = 0\<rparr>, tforeign = \<lparr>ep_addr = 0, ep_port = 0\<rparr>,
      snd_nxt = 0, snd_una = 0, snd_wnd = 0, snd_up = 0, snd_wl1 = 0, snd_wl2 = 0, iss = 0,
      rcv_nxt = 0, rcv_wnd = 0, rcv_up = 0, irs = 0, tmtu = 0, tmss = 0,
      tbuf = replicate TCP_BUF_SIZE 0, tctx = \<lparr>broadcasts = 0, interrupted = False, wc = 0\<rparr>, tqueue = []\<rparr>"

definition tcp_pcb_release :: "nat \<Rightarrow> 'z tcp_scheme \<Rightarrow> 'z tcp_scheme" where
  "tcp_pcb_release i s =
     (let (r, s) = sched_ctx_destroy s
      in if r = -1 then tcp_wakeup i s else set_tcp_pcb i zero_tcp_pcb s)"

fun tcp_select_loop :: "ip_endpoint \<Rightarrow> ip_endpoint option \<Rightarrow> nat option \<Rightarrow> nat \<Rightarrow> tcp_pcb list \<Rightarrow> nat option" where
  "tcp_select_loop local foreign listen_pcb i [] = listen_pcb"
| "tcp_select_loop local foreign listen_pcb i (pcb # rest) =
     (if (ep_addr (tlocal pcb) = IP_ADDR_ANY \<or> ep_addr (tlocal pcb) = ep_addr local) \<and>
         ep_port (tlocal pcb) = ep_port local
      then case foreign of
             None \<Rightarrow> Some i
           | Some f \<Rightarrow>
               if ep_addr (tforeign pcb) = ep_addr f \<and> ep_port (tforeign pcb) = ep_port f then Some i
               else if tstate pcb = TCP_PCB_STATE_LISTEN \<and>
                       ep_addr (tforeign pcb) = IP_ADDR_ANY \<and> ep_port (tforeign pcb) = 0
               then tcp_select_loop local foreign (Some i) (Suc i) rest
               else tcp_select_loop local foreign listen_pcb (Suc i) rest
      else tcp_select_loop local foreign listen_pcb (Suc i) rest)"

definition tcp_pcb_select :: "ip_endpoint \<Rightarrow> ip_endpoint option \<Rightarrow> tcp_pcb list \<Rightarrow> nat option" where
  "tcp_pcb_select local foreign pcbs = tcp_select_loop local foreign None 0 pcbs"

definition tcp_pcb_get :: "int \<Rightarrow> 'z tcp_scheme \<Rightarrow> nat option" where
  "tcp_pcb_get i s =
     (if i < 0 \<or> i \<ge> int (length (tcp_pcbs s)) then None
      else if tstate (tcp_pcbs s ! nat i) = TCP_PCB_STATE_FREE then None
      else Some (nat i))"

subsection \<open>Output and retransmission\<close>

definition tcp_output_segment ::
  "u32 \<Rightarrow> u32 \<Rightarrow> u8 \<Rightarrow> u16 \<Rightarrow> bytes \<Rightarrow> nat \<Rightarrow> ip_endpoint \<Rightarrow> ip_endpoint \<Rightarrow> 'z tcp_scheme \<Rightarrow>
   (int \<times> 'z tcp_scheme) option" where
  "tcp_output_segment sq ak flg wnd data len local foreign s = do {
     let h = host_order s;
     let tot = mk16 (TCP_HDR_SIZE + len);
     psum \<leftarrow> cksum16 h (pseudo_hdr h (ep_addr local) (ep_addr foreign) IP_PROTOCOL_TCP tot) 12 0;
     payload \<leftarrow> rd_bytes data 0 len;
     if TCP_HDR_SIZE + len > IP_PAYLOAD_SIZE_MAX then None
     else do {
       let hd = tcp_hdr h (ep_port local) (ep_port foreign) sq ak (mk8 (TCP_HDR_SIZE div 4 * 16)) flg wnd;
       sm \<leftarrow> cksum16 h (hd 0 0 @ payload) tot (mk32 (unat (NOT psum)));
       (r, s) \<leftarrow> ip_output IP_PROTOCOL_TCP (hd sm 0 @ payload) (unat tot) (ep_addr local) (ep_addr foreign) s;
       if r = -1 then Some (-1, s) else Some (int len, s)
     }
   }"

definition tcp_retransmit_queue_add ::
  "nat \<Rightarrow> u32 \<Rightarrow> u8 \<Rightarrow> bytes \<Rightarrow> nat \<Rightarrow> 'z tcp_scheme \<Rightarrow> (int \<times> 'z tcp_scheme) option" where
  "tcp_retransmit_queue_add i sq flg data len s =
     (let (ok, s) = memory_alloc s
      in if \<not> ok then Some (-1, s)
         else do {
           copy \<leftarrow> rd_bytes data 0 len;
           let (now, s) = gettimeofday s;
           let entry = \<lparr>q_first = now, q_last = now, q_rto = TCP_DEFAULT_RTO, q_seq = sq, q_flg = flg,
                        q_len = len, q_data = copy\<rparr>;
           let (ok, s) = memory_alloc s;
           let (r, q) = qpush ok (tqueue (tcp_pcbs s ! i)) entry;
           if r = None then Some (-1, s)
           else Some (0, upd_tcp_pcb i (\<lambda>pcb. pcb\<lparr>tqueue := q\<rparr>) s)
         })"

fun tcp_cleanup_loop :: "u32 \<Rightarrow> tcp_queue_entry list \<Rightarrow> tcp_queue_entry list" where
  "tcp_cleanup_loop una [] = []"
| "tcp_cleanup_loop una (entry # q) = (if q_seq entry \<ge> una then entry # q else tcp_cleanup_loop una q)"

definition tcp_retransmit_queue_cleanup :: "nat \<Rightarrow> 'z tcp_scheme \<Rightarrow> 'z tcp_scheme" where
  "tcp_retransmit_queue_cleanup i s =
     upd_tcp_pcb i (\<lambda>pcb. pcb\<lparr>tqueue := tcp_cleanup_loop (snd_una pcb) (tqueue pcb)\<rparr>) s"

text \<open>\<^verbatim>\<open>tcp_retransmit_queue_emit\<close> on the entry at position \<open>j\<close> of the queue of control block \<open>i\<close>.\<close>

definition tcp_retransmit_queue_emit :: "nat \<Rightarrow> nat \<Rightarrow> 'z tcp_scheme \<Rightarrow> 'z tcp_scheme option" where
  "tcp_retransmit_queue_emit i j s =
     (let pcb = tcp_pcbs s ! i; entry = tqueue pcb ! j; (now, s) = gettimeofday s
      in if tv_sec (timersub now (q_first entry)) \<ge> TCP_RETRANSMIT_DEADLINE
         then Some (tcp_wakeup i (upd_tcp_pcb i (\<lambda>pcb. pcb\<lparr>tstate := TCP_PCB_STATE_CLOSED\<rparr>) s))
         else if timercmp_less (timeval_add_usec (q_last entry) (unat (q_rto entry))) now
         then do {
           (_, s) \<leftarrow> tcp_output_segment (q_seq entry) (rcv_nxt pcb) (q_flg entry) (rcv_wnd pcb) (q_data entry)
             (q_len entry) (tlocal pcb) (tforeign pcb) s;
           Some (upd_tcp_pcb i (\<lambda>pcb. pcb\<lparr>tqueue := (tqueue pcb)[j := entry\<lparr>q_last := now, q_rto := q_rto entry * 2\<rparr>]\<rparr>) s)
         }
         else Some s)"

definition tcp_output :: "nat \<Rightarrow> u8 \<Rightarrow> bytes \<Rightarrow> nat \<Rightarrow> 'z tcp_scheme \<Rightarrow> (int \<times> 'z tcp_scheme) option" where
  "tcp_output i flg data len s = do {
     let pcb = tcp_pcbs s ! i;
     let sq = (if TCP_FLG_ISSET flg TCP_FLG_SYN then iss pcb else snd_nxt pcb);
     (_, s) \<leftarrow> (if TCP_FLG_ISSET flg (TCP_FLG_SYN OR TCP_FLG_FIN) \<or> len \<noteq> 0
               then tcp_retransmit_queue_add i sq flg data len s else Some (0, s));
     tcp_output_segment sq (rcv_nxt pcb) flg (rcv_wnd pcb) data len (tlocal pcb) (tforeign pcb) s
   }"

subsection \<open>Timer, events and initialisation\<close>

text \<open>\<^verbatim>\<open>queue_foreach\<close> with \<^verbatim>\<open>tcp_retransmit_queue_emit\<close>: the positions of the queue in order.\<close>

fun tcp_emit_all :: "nat \<Rightarrow> nat list \<Rightarrow> 'z tcp_scheme \<Rightarrow> 'z tcp_scheme option" where
  "tcp_emit_all i [] s = Some s"
| "tcp_emit_all i (j # js) s = do { s \<leftarrow> tcp_retransmit_queue_emit i j s; tcp_emit_all i js s }"

fun tcp_timer_loop :: "nat list \<Rightarrow> 'z tcp_scheme \<Rightarrow> 'z tcp_scheme option" where
  "tcp_timer_loop [] s = Some s"
| "tcp_timer_loop (i # is) s =
     (if tstate (tcp_pcbs s ! i) = TCP_PCB_STATE_FREE then tcp_timer_loop is s
      else do { s \<leftarrow> tcp_emit_all i [0 ..< length (tqueue (tcp_pcbs s ! i))] s; tcp_timer_loop is s })"

definition tcp_timer :: "'z tcp_scheme \<Rightarrow> 'z tcp_scheme option" where
  "tcp_timer s = tcp_timer_loop [0 ..< length (tcp_pcbs s)] s"

definition tcp_event_handler :: "'z tcp_scheme \<Rightarrow> 'z tcp_scheme" where
  "tcp_event_handler s =
     s\<lparr>tcp_pcbs := map (\<lambda>pcb. if tstate pcb \<noteq> TCP_PCB_STATE_FREE
                              then pcb\<lparr>tctx := sched_interrupt (tctx pcb)\<rparr> else pcb) (tcp_pcbs s)\<rparr>"

definition tcp_init :: "'z tcp_scheme \<Rightarrow> int \<times> 'z tcp_scheme" where
  "tcp_init s =
     (let (r, s) = ip_protocol_register IP_PROTOCOL_TCP Tcp_input s
      in if r = -1 then (-1, s)
         else let (r, s) = net_timer_register \<lparr>tv_sec = 0, tv_usec = 100000\<rparr> Tcp_timer s
              in if r = -1 then (-1, s) else (0, snd (net_event_subscribe Tcp_event_handler s)))"

section \<open>Segments\<close>

lemma length_tcp_hdr [simp]: "length (tcp_hdr h src dst sq ak off flg wnd sm up) = 20"
  by (simp add: tcp_hdr_def)

text \<open>The segment that output builds: the checksum is filled in over pseudo header, header and data.\<close>

definition tcp_segment :: "host \<Rightarrow> u32 \<Rightarrow> u32 \<Rightarrow> u8 \<Rightarrow> u16 \<Rightarrow> bytes \<Rightarrow> ip_endpoint \<Rightarrow> ip_endpoint \<Rightarrow> bytes" where
  "tcp_segment h sq ak flg wnd payload src dst =
     (let hd = tcp_hdr h (ep_port src) (ep_port dst) sq ak 0x50 flg wnd
      in hd (inet_checksum (pseudo_sum h (ep_addr src) (ep_addr dst) IP_PROTOCOL_TCP (20 + length payload) +
               sum16 h (hd 0 0 @ payload))) 0 @ payload)"

lemma length_tcp_segment [simp]: "length (tcp_segment h sq ak flg wnd payload src dst) = 20 + length payload"
  by (simp add: tcp_segment_def Let_def)

lemma tcp_segment_verifies:
  "inet_checksum (pseudo_sum h (ep_addr src) (ep_addr dst) IP_PROTOCOL_TCP (20 + length payload) +
     sum16 h (tcp_segment h sq ak flg wnd payload src dst)) = 0"
proof -
  have e: "tcp_hdr h sp dp sq ak 0x50 flg wnd sm 0 @ payload =
      (store16 h sp @ store16 h dp @ store32 h (hton32 h sq) @ store32 h (hton32 h ak) @ [0x50, flg] @
       store16 h (hton16 h wnd)) @ store16 h sm @ (store16 h 0 @ payload)" for sp dp sm
    by (simp add: tcp_hdr_def)
  let ?p = "pseudo_sum h (ep_addr src) (ep_addr dst) IP_PROTOCOL_TCP (20 + length payload)"
  let ?n = "sum16 h (tcp_hdr h (ep_port src) (ep_port dst) sq ak 0x50 flg wnd 0 0 @ payload)"
  have "sum16 h (tcp_segment h sq ak flg wnd payload src dst) = unat (inet_checksum (?p + ?n)) + ?n"
    unfolding tcp_segment_def Let_def e by (rule sum16_middle) simp
  then show ?thesis
    using verify_sum [of "?p + ?n"] by (simp only: inet_checksum_0 ac_simps)
qed

lemma tcp_output_segment_eq:
  assumes "len \<le> length data" "len \<le> 65495"
  shows "tcp_output_segment sq ak flg wnd data len src dst s =
    map_option (\<lambda>(r, s'). (if r = -1 then -1 else int len, s'))
      (ip_output IP_PROTOCOL_TCP (tcp_segment (host_order s) sq ak flg wnd (take len data) src dst) (20 + len)
        (ep_addr src) (ep_addr dst) s)"
proof -
  let ?hd = "tcp_hdr (host_order s) (ep_port src) (ep_port dst) sq ak 0x50 flg wnd"
  have l: "unat (mk16 (20 + len)) = 20 + len" using assms(2) by simp
  have "cksum16 (host_order s) (?hd 0 0 @ take len data) (mk16 (20 + len)) (mk32 (unat (NOT (inet_checksum n)))) =
      Some (inet_checksum (ones_sum n + sum16 (host_order s) (?hd 0 0 @ take len data)))" for n
    using assms l unat_pseudo by (subst cksum16_eq) simp_all
  then show ?thesis
    using assms l
    by (cases "ip_output IP_PROTOCOL_TCP (tcp_segment (host_order s) sq ak flg wnd (take len data) src dst) (20 + len)
        (ep_addr src) (ep_addr dst) s")
      (auto simp: tcp_output_segment_def pseudo_cksum rd_bytes_def Let_def tcp_segment_def pseudo_sum_def min_absorb2)
qed

section \<open>The invariant, and what output changes\<close>

text \<open>
  There are 16 control blocks in one of the states of the protocol, each with its buffer; a
  retransmission entry holds as many bytes as it says and fits a packet.
\<close>

definition tentry_ok :: "tcp_queue_entry \<Rightarrow> bool" where
  "tentry_ok e \<longleftrightarrow> q_len e = length (q_data e) \<and> q_len e \<le> 65495"

definition tpcb_ok :: "tcp_pcb \<Rightarrow> bool" where
  "tpcb_ok pcb \<longleftrightarrow> 0 \<le> tstate pcb \<and> tstate pcb \<le> 11 \<and> length (tbuf pcb) = TCP_BUF_SIZE \<and>
     (\<forall>e \<in> set (tqueue pcb). tentry_ok e)"

definition tcp_ok :: "'z tcp_scheme \<Rightarrow> bool" where
  "tcp_ok s \<longleftrightarrow> udp_ok s \<and> length (tcp_pcbs s) = TCP_PCB_SIZE \<and> (\<forall>pcb \<in> set (tcp_pcbs s). tpcb_ok pcb)"

lemma tcp_okD:
  assumes "tcp_ok s"
  shows "udp_ok s" "ip_ok s" "length (tcp_pcbs s) = 16" "k < 16 \<Longrightarrow> tpcb_ok (tcp_pcbs s ! k)"
  using assms nth_mem [of k "tcp_pcbs s"] by (auto simp: tcp_ok_def udp_ok_def)

text \<open>Two states that differ in the control blocks and in the feeds of the platform only.\<close>

definition same_below :: "'z tcp_scheme \<Rightarrow> 'z tcp_scheme \<Rightarrow> bool" where
  "same_below s s' \<longleftrightarrow> s' = s\<lparr>allocs := allocs s', clock := clock s', randoms := randoms s',
     cond_results := cond_results s', tcp_pcbs := tcp_pcbs s'\<rparr>"

lemma same_below_refl [simp, intro]: "same_below s s"
  by (simp add: same_below_def)

lemma same_below_trans [trans]: "same_below s s' \<Longrightarrow> same_below s' s'' \<Longrightarrow> same_below s s''"
  by (cases s; cases s'; cases s'') (simp add: same_below_def)

lemma same_below_sym: "same_below s s' \<Longrightarrow> same_below s' s"
  by (cases s; cases s') (simp add: same_below_def)

lemma same_below_updates [simp]:
  "same_below s (s\<lparr>allocs := al\<rparr>)" "same_below s (s\<lparr>clock := cl\<rparr>)" "same_below s (s\<lparr>randoms := rn\<rparr>)"
  "same_below s (s\<lparr>cond_results := cr\<rparr>)" "same_below s (set_tcp_pcb i pcb s)"
  "same_below s (upd_tcp_pcb i f s)" "same_below s (tcp_wakeup i s)"
  by (simp_all add: same_below_def set_tcp_pcb_def upd_tcp_pcb_def tcp_wakeup_def)

lemma same_belowD:
  assumes "same_below s s'"
  shows "host_order s' = host_order s" "udp_ok s' = udp_ok s" "routes s' = routes s" "dev_tab s' = dev_tab s"
  by (subst assms [unfolded same_below_def]; simp add: udp_ok_def ip_ok_def net_ok_def drvs_ok_def)+

lemma tcp_ok_same_below:
  assumes "tcp_ok s" "same_below s s'" "length (tcp_pcbs s') = 16" "\<forall>pcb \<in> set (tcp_pcbs s'). tpcb_ok pcb"
  shows "tcp_ok s'"
  using assms same_belowD(2) [OF assms(2)] by (simp add: tcp_ok_def)

text \<open>
  What the handling of a segment, of a timer and of a user command leaves alone: everything but the
  control blocks of the transport protocols, the feeds, the contents of device queues and what the
  output of packets changes.
\<close>

definition stack_frame :: "'z tcp_scheme \<Rightarrow> 'z tcp_scheme \<Rightarrow> bool" where
  "stack_frame s s' \<longleftrightarrow> ip_frame s (s'\<lparr>randoms := randoms s, cond_results := cond_results s,
     udp_pcbs := udp_pcbs s, tcp_pcbs := tcp_pcbs s\<rparr>)"

lemma stack_frame_refl [simp, intro]: "stack_frame s s"
  by (simp add: stack_frame_def)

lemma stack_frame_trans [trans]: "stack_frame s s' \<Longrightarrow> stack_frame s' s'' \<Longrightarrow> stack_frame s s''"
  by (cases s; cases s'; cases s'') (simp add: stack_frame_def ip_frame_def arp_frame_def output_frame_def)

lemma stack_frame_ip: "ip_frame s s' \<Longrightarrow> stack_frame s s'"
  by (cases s; cases s') (simp add: stack_frame_def ip_frame_def arp_frame_def output_frame_def)

lemma stack_frame_same_below: "same_below s s' \<Longrightarrow> stack_frame s s'"
  by (cases s; cases s') (simp add: stack_frame_def same_below_def ip_frame_def arp_frame_def output_frame_def)

lemma stack_frameD:
  assumes "stack_frame s s'"
  shows "host_order s' = host_order s" "protocols s' = protocols s" "timers s' = timers s" "events s' = events s"
    "irqs s' = irqs s" "routes s' = routes s" "ip_protocols s' = ip_protocols s" "devices s' = devices s"
  using assms by (cases s; cases s'; simp add: stack_frame_def ip_frame_def arp_frame_def output_frame_def)+

lemma ip_frame_tcp: "ip_frame s s' \<Longrightarrow> tcp_pcbs s' = tcp_pcbs s"
  by (cases s; cases s') (auto dest: ip_frameD(4))

text \<open>Exactly one packet with the bytes of a segment is handed to the layer below.\<close>

definition tcp_emits :: "bytes \<Rightarrow> ip_endpoint \<Rightarrow> ip_endpoint \<Rightarrow> 'z tcp_scheme \<Rightarrow> 'z tcp_scheme \<Rightarrow> bool" where
  "tcp_emits seg src dst s s' \<longleftrightarrow>
     (\<exists>s0 r s1. same_below s s0 \<and>
        ip_output IP_PROTOCOL_TCP seg (length seg) (ep_addr src) (ep_addr dst) s0 = Some (r, s1) \<and> same_below s1 s')"

lemma tcp_emits_same_below:
  "same_below s s0 \<Longrightarrow> tcp_emits seg src dst s0 s1 \<Longrightarrow> same_below s1 s' \<Longrightarrow> tcp_emits seg src dst s s'"
  unfolding tcp_emits_def by (meson same_below_trans)

lemma tcp_output_segment_ok:
  assumes ok: "tcp_ok s" and len: "len \<le> length data" "len \<le> 65495"
  shows "\<exists>r s'. tcp_output_segment sq ak flg wnd data len src dst s = Some (r, s') \<and> r \<in> {-1, int len} \<and>
    tcp_ok s' \<and> ip_frame s s' \<and>
    tcp_emits (tcp_segment (host_order s) sq ak flg wnd (take len data) src dst) src dst s s'"
proof -
  let ?m = "tcp_segment (host_order s) sq ak flg wnd (take len data) src dst"
  have l: "length ?m = 20 + len" using len by simp
  then have "20 + len \<le> length ?m" by simp
  from ip_output_total [OF tcp_okD(2) [OF ok] this] obtain r s'
    where s': "ip_output 6 ?m (20 + len) (ep_addr src) (ep_addr dst) s = Some (r, s')" "ip_ok s'" "ip_frame s s'"
    by blast
  have "tcp_ok s'"
    using ok udp_ok_frame [OF tcp_okD(1) [OF ok] s'(3,2)] ip_frame_tcp [OF s'(3)] by (simp add: tcp_ok_def)
  moreover have "tcp_emits ?m src dst s s'"
    unfolding tcp_emits_def l using s'(1) by (intro exI [of _ s] exI [of _ r] exI [of _ s']) simp
  ultimately show ?thesis
    using s' tcp_output_segment_eq [OF len, of sq ak flg wnd src dst s] by auto
qed

subsection \<open>Updates of a control block\<close>

lemma tcp_pcbs_upd [simp]:
  "tcp_pcbs (set_tcp_pcb i pcb s) = (tcp_pcbs s)[i := pcb]"
  "tcp_pcbs (upd_tcp_pcb i f s) = (tcp_pcbs s)[i := f (tcp_pcbs s ! i)]"
  "tcp_pcbs (tcp_wakeup i s) = (tcp_pcbs s)[i := (tcp_pcbs s ! i)\<lparr>tctx := sched_wakeup (tctx (tcp_pcbs s ! i))\<rparr>]"
  by (simp_all add: set_tcp_pcb_def upd_tcp_pcb_def tcp_wakeup_def)

lemma tcp_feeds_upd [simp]:
  "host_order (upd_tcp_pcb i f s) = host_order s" "host_order (tcp_wakeup i s) = host_order s"
  "allocs (upd_tcp_pcb i f s) = allocs s" "clock (upd_tcp_pcb i f s) = clock s"
  "randoms (upd_tcp_pcb i f s) = randoms s"
  by (simp_all add: set_tcp_pcb_def upd_tcp_pcb_def tcp_wakeup_def)

lemma tcp_ok_set:
  assumes "tcp_ok s" "tpcb_ok pcb"
  shows "tcp_ok (set_tcp_pcb i pcb s)"
  using assms set_update_subset_insert [of "tcp_pcbs s" i pcb] tcp_okD(3) [OF assms(1)]
  by (intro tcp_ok_same_below [OF assms(1)]) (auto simp: tcp_ok_def)

lemma tcp_ok_upd:
  assumes "tcp_ok s" "i < 16" "tpcb_ok (f (tcp_pcbs s ! i))"
  shows "tcp_ok (upd_tcp_pcb i f s)"
  using tcp_ok_set [OF assms(1,3)] by (simp add: upd_tcp_pcb_def)

lemma tcp_ok_wakeup: "tcp_ok s \<Longrightarrow> i < 16 \<Longrightarrow> tcp_ok (tcp_wakeup i s)"
  unfolding tcp_wakeup_def by (rule tcp_ok_upd) (auto dest: tcp_okD(4) simp: tpcb_ok_def)

lemma tcp_ok_feeds [simp]:
  "tcp_ok (s\<lparr>allocs := al\<rparr>) = tcp_ok s" "tcp_ok (s\<lparr>clock := cl\<rparr>) = tcp_ok s"
  "tcp_ok (s\<lparr>randoms := rn\<rparr>) = tcp_ok s" "tcp_ok (s\<lparr>cond_results := cr\<rparr>) = tcp_ok s"
  by (simp_all add: tcp_ok_def udp_ok_def ip_ok_def net_ok_def drvs_ok_def)

lemma zero_tcp_pcb_ok: "tpcb_ok zero_tcp_pcb"
  by (simp add: zero_tcp_pcb_def tpcb_ok_def)

lemma tcp_pcb_release_ok:
  assumes "tcp_ok s" "i < 16"
  shows "tcp_ok (tcp_pcb_release i s) \<and> same_below s (tcp_pcb_release i s) \<and>
    tcp_pcbs (tcp_pcb_release i s) ! i =
      (if cond_results s 0 = -1 then (tcp_pcbs s ! i)\<lparr>tctx := sched_wakeup (tctx (tcp_pcbs s ! i))\<rparr> else zero_tcp_pcb)"
proof -
  let ?s = "s\<lparr>cond_results := advance (cond_results s)\<rparr>"
  have "same_below s (tcp_wakeup i ?s)" "same_below s (set_tcp_pcb i zero_tcp_pcb ?s)"
    by (rule same_below_trans [of _ ?s]; simp)+
  then show ?thesis
    using tcp_ok_wakeup [of ?s i] tcp_ok_set [of ?s zero_tcp_pcb i] assms tcp_okD(3) [OF assms(1)] zero_tcp_pcb_ok
    by (simp add: tcp_pcb_release_def sched_ctx_destroy_def)
qed

subsection \<open>Output with retransmission\<close>

text \<open>The entries that an output adds to the retransmission queue: one when the segment takes up sequence
  numbers and memory lasts.\<close>

definition tcp_entry :: "timeval \<Rightarrow> u32 \<Rightarrow> u8 \<Rightarrow> bytes \<Rightarrow> tcp_queue_entry" where
  "tcp_entry now sq flg d = \<lparr>q_first = now, q_last = now, q_rto = TCP_DEFAULT_RTO, q_seq = sq, q_flg = flg,
     q_len = length d, q_data = d\<rparr>"

definition tcp_new_entries :: "u32 \<Rightarrow> u8 \<Rightarrow> bytes \<Rightarrow> 'z tcp_scheme \<Rightarrow> tcp_queue_entry list" where
  "tcp_new_entries sq flg d s =
     (if (TCP_FLG_ISSET flg (TCP_FLG_SYN OR TCP_FLG_FIN) \<or> d \<noteq> []) \<and> allocs s 0 \<and> allocs s 1
      then [tcp_entry (clock s 0) sq flg d] else [])"

lemma tcp_new_entries_upd [simp]:
  "tcp_new_entries sq flg d (upd_tcp_pcb i f s) = tcp_new_entries sq flg d s"
  "tcp_new_entries sq flg d (s\<lparr>randoms := rn\<rparr>) = tcp_new_entries sq flg d s"
  by (simp_all add: tcp_new_entries_def)

definition tcp_out_seq :: "u8 \<Rightarrow> tcp_pcb \<Rightarrow> u32" where
  "tcp_out_seq flg pcb = (if TCP_FLG_ISSET flg TCP_FLG_SYN then iss pcb else snd_nxt pcb)"

lemma upd_tcp_pcb_id: "(\<lambda>pcb. f pcb) (tcp_pcbs s ! i) = tcp_pcbs s ! i \<Longrightarrow> upd_tcp_pcb i f s = s"
  by (simp add: upd_tcp_pcb_def set_tcp_pcb_def)

lemma tcp_queue_add_ok:
  assumes "tcp_ok s" "i < 16" "len \<le> length data" "len \<le> 65495" "TCP_FLG_ISSET flg (TCP_FLG_SYN OR TCP_FLG_FIN) \<or> len \<noteq> 0"
  shows "\<exists>r s'. tcp_retransmit_queue_add i sq flg data len s = Some (r, s') \<and> tcp_ok s' \<and> same_below s s' \<and>
    tcp_pcbs s' = (tcp_pcbs s)[i := (tcp_pcbs s ! i)\<lparr>tqueue := tqueue (tcp_pcbs s ! i) @ tcp_new_entries sq flg (take len data) s\<rparr>]"
proof -
  let ?pcb = "tcp_pcbs s ! i" and ?d = "take len data"
  let ?q = "\<lambda>pcb. pcb\<lparr>tqueue := tqueue ?pcb @ [tcp_entry (clock s 0) sq flg ?d]\<rparr>"
  let ?s1 = "s\<lparr>allocs := advance (allocs s)\<rparr>"
  let ?s2 = "s\<lparr>clock := advance (clock s), allocs := advance (advance (allocs s))\<rparr>"
  have d: "rd_bytes data 0 len = Some ?d" "length ?d = len" using assms(3) by (simp_all add: rd_bytes_def)
  have ne: "?d \<noteq> [] \<longleftrightarrow> len \<noteq> 0" using assms(3) by auto
  have below: "same_below s ?s2" by (simp add: same_below_def)
  have "tpcb_ok (?q ?pcb)" using tcp_okD(4) [OF assms(1,2)] d assms(4) by (auto simp: tpcb_ok_def tentry_ok_def tcp_entry_def)
  then have "tcp_ok (upd_tcp_pcb i ?q ?s2)" using assms(1,2) by (intro tcp_ok_upd) simp_all
  moreover have "same_below s (upd_tcp_pcb i ?q ?s2)" using below same_below_updates(6) by (rule same_below_trans)
  moreover have "tcp_retransmit_queue_add i sq flg data len s =
      (if \<not> allocs s 0 then Some (-1, ?s1) else if \<not> allocs s 1 then Some (-1, ?s2) else Some (0, upd_tcp_pcb i ?q ?s2))"
    using d by (simp add: tcp_retransmit_queue_add_def platform_defs Let_def qpush_def advance_def tcp_entry_def)
  moreover have "tcp_new_entries sq flg ?d s = (if allocs s 0 \<and> allocs s 1 then [tcp_entry (clock s 0) sq flg ?d] else [])"
    unfolding tcp_new_entries_def using assms(5) ne by meson
  ultimately show ?thesis
    using assms(1) below by (cases "allocs s 0"; cases "allocs s 1") simp_all
qed

lemma tcp_output_ok:
  fixes flg
  assumes ok: "tcp_ok s" "i < 16" and len: "len \<le> length data" "len \<le> 65495"
  defines "pcb \<equiv> tcp_pcbs s ! i"
  defines "sq \<equiv> tcp_out_seq flg pcb"
  shows "\<exists>r s'. tcp_output i flg data len s = Some (r, s') \<and> r \<in> {-1, int len} \<and> tcp_ok s' \<and> stack_frame s s' \<and>
    tcp_pcbs s' = (tcp_pcbs s)[i := pcb\<lparr>tqueue := tqueue pcb @ tcp_new_entries sq flg (take len data) s\<rparr>] \<and>
    tcp_emits (tcp_segment (host_order s) sq (rcv_nxt pcb) flg (rcv_wnd pcb) (take len data) (tlocal pcb) (tforeign pcb))
      (tlocal pcb) (tforeign pcb) s s'"
proof -
  let ?b = "TCP_FLG_ISSET flg (TCP_FLG_SYN OR TCP_FLG_FIN) \<or> len \<noteq> 0"
  have "\<exists>r s1. (if ?b then tcp_retransmit_queue_add i sq flg data len s else Some (0, s)) = Some (r, s1) \<and>
      tcp_ok s1 \<and> same_below s s1 \<and>
      tcp_pcbs s1 = (tcp_pcbs s)[i := pcb\<lparr>tqueue := tqueue pcb @ tcp_new_entries sq flg (take len data) s\<rparr>]"
  proof (cases ?b)
    case True
    then show ?thesis using tcp_queue_add_ok [OF ok len True, of sq] by (simp add: pcb_def)
  next
    case False
    then show ?thesis using ok by (simp add: tcp_new_entries_def pcb_def)
  qed
  then obtain r1 s1 where s1: "(if ?b then tcp_retransmit_queue_add i sq flg data len s else Some (0, s)) = Some (r1, s1)"
      "tcp_ok s1" "same_below s s1"
      "tcp_pcbs s1 = (tcp_pcbs s)[i := pcb\<lparr>tqueue := tqueue pcb @ tcp_new_entries sq flg (take len data) s\<rparr>]"
    by blast
  obtain r s' where s': "tcp_output_segment sq (rcv_nxt pcb) flg (rcv_wnd pcb) data len (tlocal pcb) (tforeign pcb) s1 = Some (r, s')"
      "r \<in> {-1, int len}" "tcp_ok s'" "ip_frame s1 s'"
      "tcp_emits (tcp_segment (host_order s1) sq (rcv_nxt pcb) flg (rcv_wnd pcb) (take len data) (tlocal pcb) (tforeign pcb))
        (tlocal pcb) (tforeign pcb) s1 s'"
    using tcp_output_segment_ok [OF s1(2) len] by blast
  have "stack_frame s s'"
    using stack_frame_same_below [OF s1(3)] stack_frame_ip [OF s'(4)] by (rule stack_frame_trans)
  moreover have "tcp_emits (tcp_segment (host_order s) sq (rcv_nxt pcb) flg (rcv_wnd pcb) (take len data) (tlocal pcb) (tforeign pcb))
      (tlocal pcb) (tforeign pcb) s s'"
    using tcp_emits_same_below [OF s1(3) s'(5) same_below_refl] same_belowD(1) [OF s1(3)] by simp
  moreover have "tcp_output i flg data len s =
      (if ?b then tcp_retransmit_queue_add i sq flg data len s else Some (0, s)) \<bind>
        (\<lambda>(_, s). tcp_output_segment sq (rcv_nxt pcb) flg (rcv_wnd pcb) data len (tlocal pcb) (tforeign pcb) s)"
    unfolding tcp_output_def Let_def sq_def tcp_out_seq_def pcb_def ..
  then have "tcp_output i flg data len s = Some (r, s')" using s'(1) by (simp only: s1(1) bind.bind_lunit prod.case)
  ultimately show ?thesis
    using s'(2,3) s1(4) ip_frame_tcp [OF s'(4)] by auto
qed

text \<open>Segments without data that are not retransmitted: acknowledgments and resets.\<close>

lemma tcp_output_ack:
  assumes "tcp_ok s" "i < 16"
  shows "\<exists>r s'. tcp_output i TCP_FLG_ACK [] 0 s = Some (r, s') \<and> tcp_ok s' \<and> stack_frame s s' \<and> tcp_pcbs s' = tcp_pcbs s \<and>
    tcp_emits (tcp_segment (host_order s) (snd_nxt (tcp_pcbs s ! i)) (rcv_nxt (tcp_pcbs s ! i)) TCP_FLG_ACK
      (rcv_wnd (tcp_pcbs s ! i)) [] (tlocal (tcp_pcbs s ! i)) (tforeign (tcp_pcbs s ! i)))
      (tlocal (tcp_pcbs s ! i)) (tforeign (tcp_pcbs s ! i)) s s'"
  using tcp_output_ok [OF assms, of 0 "[]" TCP_FLG_ACK]
  by (auto simp: tcp_new_entries_def tcp_out_seq_def TCP_FLG_ISSET_def)

section \<open>Steps of one control block\<close>

text \<open>A step that may change one control block and leaves the others as they are.\<close>

definition tcp_step :: "nat \<Rightarrow> 'z tcp_scheme \<Rightarrow> 'z tcp_scheme \<Rightarrow> bool" where
  "tcp_step i s s' \<longleftrightarrow> tcp_ok s' \<and> stack_frame s s' \<and> (\<forall>j. j \<noteq> i \<longrightarrow> tcp_pcbs s' ! j = tcp_pcbs s ! j)"

lemma tcp_step_refl: "tcp_ok s \<Longrightarrow> tcp_step i s s"
  by (simp add: tcp_step_def)

lemma tcp_step_trans [trans]: "tcp_step i s s' \<Longrightarrow> tcp_step i s' s'' \<Longrightarrow> tcp_step i s s''"
  unfolding tcp_step_def using stack_frame_trans by metis

lemma tcp_step_ok: "tcp_step i s s' \<Longrightarrow> tcp_ok s'"
  by (simp add: tcp_step_def)

lemma tcp_step_upd:
  assumes "tcp_ok s" "i < 16" "tpcb_ok (f (tcp_pcbs s ! i))"
  shows "tcp_step i s (upd_tcp_pcb i f s)"
  using tcp_ok_upd [OF assms(1,2), of f] assms(3) stack_frame_same_below [OF same_below_updates(6)] by (simp add: tcp_step_def)

lemma tcp_step_wakeup:
  assumes "tcp_ok s" "i < 16"
  shows "tcp_step i s (tcp_wakeup i s)"
  using tcp_ok_wakeup [OF assms] stack_frame_same_below [OF same_below_updates(7)] by (simp add: tcp_step_def)

lemma tcp_step_release:
  assumes "tcp_ok s" "i < 16"
  shows "tcp_step i s (tcp_pcb_release i s)"
proof -
  have "tcp_pcbs (tcp_pcb_release i s) ! j = tcp_pcbs s ! j" if "j \<noteq> i" for j
    using that by (simp add: tcp_pcb_release_def sched_ctx_destroy_def)
  then show ?thesis
    using tcp_pcb_release_ok [OF assms] stack_frame_same_below by (auto simp: tcp_step_def)
qed

lemma tcp_step_same_pcbs: "tcp_ok s' \<Longrightarrow> stack_frame s s' \<Longrightarrow> tcp_pcbs s' = tcp_pcbs s \<Longrightarrow> tcp_step i s s'"
  by (simp add: tcp_step_def)

lemma set_cleanup: "set (tcp_cleanup_loop una q) \<subseteq> set q"
  by (induction q) auto

lemma tpcb_ok_cleanup: "tpcb_ok pcb \<Longrightarrow> tpcb_ok (pcb\<lparr>tqueue := tcp_cleanup_loop una (tqueue pcb)\<rparr>)"
  using set_cleanup [of una "tqueue pcb"] by (auto simp: tpcb_ok_def)

lemma tcp_step_upd_nth:
  assumes "tcp_ok s" "i < 16"
  shows "tcp_pcbs (upd_tcp_pcb i f s) ! i = f (tcp_pcbs s ! i)"
  using assms tcp_okD(3) [OF assms(1)] by simp

text \<open>Fields of the control block are assigned, then a segment goes out.\<close>

lemma tcp_step_output:
  fixes flg
  assumes ok: "tcp_ok s" "i < 16" "tpcb_ok (f (tcp_pcbs s ! i))" and len: "len \<le> length data" "len \<le> 65495"
  defines "pcb \<equiv> f (tcp_pcbs s ! i)"
  defines "sq \<equiv> tcp_out_seq flg pcb"
  shows "\<exists>r s'. tcp_output i flg data len (upd_tcp_pcb i f s) = Some (r, s') \<and> r \<in> {-1, int len} \<and> tcp_step i s s' \<and>
    tcp_pcbs s' ! i = pcb\<lparr>tqueue := tqueue pcb @ tcp_new_entries sq flg (take len data) s\<rparr> \<and>
    tcp_emits (tcp_segment (host_order s) sq (rcv_nxt pcb) flg (rcv_wnd pcb) (take len data) (tlocal pcb) (tforeign pcb))
      (tlocal pcb) (tforeign pcb) s s'"
proof -
  let ?s1 = "upd_tcp_pcb i f s"
  have s1: "tcp_step i s ?s1" using ok by (rule tcp_step_upd)
  have nth: "tcp_pcbs ?s1 ! i = pcb" using tcp_step_upd_nth [OF ok(1,2)] by (simp only: pcb_def)
  obtain r s' where s': "tcp_output i flg data len ?s1 = Some (r, s')" "r \<in> {-1, int len}" "tcp_ok s'" "stack_frame ?s1 s'"
      "tcp_pcbs s' = (tcp_pcbs ?s1)[i := pcb\<lparr>tqueue := tqueue pcb @ tcp_new_entries sq flg (take len data) s\<rparr>]"
      "tcp_emits (tcp_segment (host_order s) sq (rcv_nxt pcb) flg (rcv_wnd pcb) (take len data) (tlocal pcb) (tforeign pcb))
        (tlocal pcb) (tforeign pcb) ?s1 s'"
    using tcp_output_ok [OF tcp_step_ok [OF s1] ok(2) len, of flg] unfolding nth sq_def tcp_new_entries_upd tcp_feeds_upd
    by blast
  have "tcp_step i ?s1 s'" using s'(3,4,5) by (simp add: tcp_step_def)
  with s1 have "tcp_step i s s'" by (rule tcp_step_trans)
  moreover have "tcp_emits (tcp_segment (host_order s) sq (rcv_nxt pcb) flg (rcv_wnd pcb) (take len data) (tlocal pcb) (tforeign pcb))
      (tlocal pcb) (tforeign pcb) s s'"
    using same_below_updates(6) s'(6) same_below_refl by (rule tcp_emits_same_below)
  ultimately show ?thesis using s'(1,2,5) ok(2) tcp_okD(3) [OF tcp_step_ok [OF s1]] by auto
qed

lemma tcp_step_ack:
  fixes f
  assumes "tcp_ok s" "i < 16" "tpcb_ok (f (tcp_pcbs s ! i))"
  defines "pcb \<equiv> f (tcp_pcbs s ! i)"
  shows "\<exists>r s'. tcp_output i TCP_FLG_ACK [] 0 (upd_tcp_pcb i f s) = Some (r, s') \<and> tcp_step i s s' \<and> tcp_pcbs s' ! i = pcb \<and>
    tcp_emits (tcp_segment (host_order s) (snd_nxt pcb) (rcv_nxt pcb) TCP_FLG_ACK (rcv_wnd pcb) [] (tlocal pcb) (tforeign pcb))
      (tlocal pcb) (tforeign pcb) s s'"
proof -
  have "tcp_new_entries sq TCP_FLG_ACK [] s = []" "tcp_out_seq TCP_FLG_ACK p = snd_nxt p" for sq p
    by (simp_all add: tcp_new_entries_def tcp_out_seq_def TCP_FLG_ISSET_def)
  then show ?thesis
    using tcp_step_output [where f = f, OF assms(1-3), of 0 "[]" TCP_FLG_ACK] unfolding pcb_def by auto
qed

text \<open>
  Which control block a segment is for: the first one with its endpoints, else the last one that
  listens at its destination for any sender.
\<close>

definition tcp_at :: "ip_endpoint \<Rightarrow> tcp_pcb \<Rightarrow> bool" where
  "tcp_at local pcb \<longleftrightarrow>
     (ep_addr (tlocal pcb) = IP_ADDR_ANY \<or> ep_addr (tlocal pcb) = ep_addr local) \<and> ep_port (tlocal pcb) = ep_port local"

definition tcp_listens :: "ip_endpoint \<Rightarrow> tcp_pcb \<Rightarrow> bool" where
  "tcp_listens local pcb \<longleftrightarrow> tcp_at local pcb \<and> tstate pcb = TCP_PCB_STATE_LISTEN \<and>
     tforeign pcb = \<lparr>ep_addr = IP_ADDR_ANY, ep_port = 0\<rparr>"

lemma ep_eq_iff: "a = b \<longleftrightarrow> ep_addr a = ep_addr b \<and> ep_port a = ep_port (b :: ip_endpoint)"
  by (cases a; cases b) simp

lemma tcp_select_loop_Cons:
  "tcp_select_loop local (Some f) lst i (pcb # rest) =
     (if tcp_at local pcb \<and> tforeign pcb = f then Some i
      else tcp_select_loop local (Some f) (if tcp_listens local pcb then Some i else lst) (Suc i) rest)"
proof (cases "tcp_at local pcb")
  case False
  then have "\<not> tcp_listens local pcb" by (simp add: tcp_listens_def)
  then show ?thesis
    using False unfolding tcp_at_def by (simp only: tcp_select_loop.simps if_False simp_thms)
next
  case True
  then have "tcp_select_loop local (Some f) lst i (pcb # rest) =
      (if tforeign pcb = f then Some i
       else if tcp_listens local pcb then tcp_select_loop local (Some f) (Some i) (Suc i) rest
       else tcp_select_loop local (Some f) lst (Suc i) rest)"
    unfolding tcp_select_loop.simps tcp_at_def tcp_listens_def ep_eq_iff by simp
  then show ?thesis using True by simp
qed

lemma tcp_select_loop_cases:
  assumes "tcp_select_loop local (Some f) lst i pcbs = Some k"
  shows "lst = Some k \<or> i \<le> k \<and> k < i + length pcbs \<and> tcp_at local (pcbs ! (k - i)) \<and>
    (tforeign (pcbs ! (k - i)) = f \<or> tcp_listens local (pcbs ! (k - i)))"
  using assms
proof (induction pcbs arbitrary: lst i)
  case (Cons pcb rest)
  show ?case
  proof (cases "tcp_at local pcb \<and> tforeign pcb = f")
    case True
    then have "k = i" using Cons.prems unfolding tcp_select_loop_Cons by simp
    then show ?thesis using True by simp
  next
    case False
    then have "tcp_select_loop local (Some f) (if tcp_listens local pcb then Some i else lst) (Suc i) rest = Some k"
      using Cons.prems by (simp only: tcp_select_loop_Cons if_False)
    from Cons.IH [OF this] show ?thesis by (auto simp: tcp_listens_def nth_Cons' split: if_splits)
  qed
qed simp

lemma tcp_select_SomeD:
  assumes "tcp_pcb_select local (Some f) pcbs = Some k"
  shows "k < length pcbs" "tcp_at local (pcbs ! k)" "tforeign (pcbs ! k) = f \<or> tcp_listens local (pcbs ! k)"
  using tcp_select_loop_cases [OF assms [unfolded tcp_pcb_select_def]] by auto

text \<open>The choice depends on the endpoints and on which blocks listen only.\<close>

definition same_key :: "tcp_pcb \<Rightarrow> tcp_pcb \<Rightarrow> bool" where
  "same_key p q \<longleftrightarrow> tlocal p = tlocal q \<and> tforeign p = tforeign q \<and>
     (tstate p = TCP_PCB_STATE_LISTEN \<longleftrightarrow> tstate q = TCP_PCB_STATE_LISTEN)"

lemma tcp_select_loop_cong:
  "list_all2 same_key ps qs \<Longrightarrow> tcp_select_loop local (Some f) lst i ps = tcp_select_loop local (Some f) lst i qs"
proof (induction arbitrary: lst i rule: list_all2_induct)
  case (Cons p ps q qs)
  then have "tcp_at local p = tcp_at local q" "tcp_listens local p = tcp_listens local q" "tforeign p = tforeign q"
    by (auto simp: same_key_def tcp_at_def tcp_listens_def)
  then show ?case using Cons.IH unfolding tcp_select_loop_Cons by simp
qed simp

lemma tcp_select_step:
  assumes "tcp_ok s" "tcp_step i s s'" "same_key (tcp_pcbs s ! i) (tcp_pcbs s' ! i)"
  shows "tcp_pcb_select local (Some f) (tcp_pcbs s') = tcp_pcb_select local (Some f) (tcp_pcbs s)"
proof -
  have "same_key (tcp_pcbs s ! j) (tcp_pcbs s' ! j)" for j
    using assms(2,3) by (cases "j = i") (auto simp: tcp_step_def same_key_def)
  then have "list_all2 same_key (tcp_pcbs s) (tcp_pcbs s')"
    using tcp_okD(3) [OF assms(1)] tcp_okD(3) [OF tcp_step_ok [OF assms(2)]] by (simp add: list_all2_conv_all_nth)
  then show ?thesis unfolding tcp_pcb_select_def by (rule tcp_select_loop_cong [symmetric])
qed

text \<open>A host for evaluation, with some control blocks in use.\<close>

definition tcp_example :: "u32 \<Rightarrow> tcp_pcb list \<Rightarrow> tcp" where
  "tcp_example a pcbs = udp.extend (udp_example a []) (tcp.fields (pcbs @ replicate (16 - length pcbs) zero_tcp_pcb))"

definition pcb_example :: "int \<Rightarrow> ip_endpoint \<Rightarrow> ip_endpoint \<Rightarrow> tcp_pcb" where
  "pcb_example st local foreign = zero_tcp_pcb\<lparr>tstate := st, tlocal := local, tforeign := foreign, rcv_wnd := 1000, snd_wnd := 100\<rparr>"

abbreviation "ep_a \<equiv> \<lparr>ep_addr = 0x0A000001, ep_port = 9\<rparr>"
abbreviation "ep_b \<equiv> \<lparr>ep_addr = 0x0A000002, ep_port = 7\<rparr>"

lemma tcp_example_simps:
  "tcp_pcbs (tcp_example a pcbs) = pcbs @ replicate (16 - length pcbs) zero_tcp_pcb"
  "host_order (tcp_example a pcbs) = Big" "allocs (tcp_example a pcbs) n" "routes (tcp_example a pcbs) = routes (ip_example a)"
  "dev_tab (tcp_example a pcbs) = [1 \<mapsto> host_dev a]" "randoms (tcp_example a pcbs) n = 0"
  "clock (tcp_example a pcbs) n = \<lparr>tv_sec = 100, tv_usec = 0\<rparr>"
  by (simp_all add: tcp_example_def udp.defs tcp.defs udp_example_def ip.defs ip_example_def arp.defs arp_example_def del: One_nat_def)

lemma pcb_example_simps [simp]:
  "tstate (pcb_example st local foreign) = st" "tlocal (pcb_example st local foreign) = local"
  "tforeign (pcb_example st local foreign) = foreign" "rcv_wnd (pcb_example st local foreign) = 1000"
  "snd_wnd (pcb_example st local foreign) = 100" "snd_una (pcb_example st local foreign) = 0"
  "snd_nxt (pcb_example st local foreign) = 0" "rcv_nxt (pcb_example st local foreign) = 0"
  "tqueue (pcb_example st local foreign) = []" "interrupted (tctx (pcb_example st local foreign)) = False"
  by (simp_all add: pcb_example_def zero_tcp_pcb_def)

lemma tpcb_ok_pcb_example: "0 \<le> st \<Longrightarrow> st \<le> 11 \<Longrightarrow> tpcb_ok (pcb_example st local foreign)"
  using zero_tcp_pcb_ok by (simp add: pcb_example_def tpcb_ok_def)

lemma udp_ok_extend: "udp_ok (udp.extend s z) = udp_ok s"
  by (simp add: udp_ok_def ip_ok_def net_ok_def drvs_ok_def udp.defs)

lemma tcp_ok_example: "length pcbs \<le> 16 \<Longrightarrow> \<forall>pcb \<in> set pcbs. tpcb_ok pcb \<Longrightarrow> tcp_ok (tcp_example a pcbs)"
  using udp_ok_example [of "[]" a] zero_tcp_pcb_ok udp_ok_extend [of "udp_example a []"]
  by (auto simp: tcp_ok_def tcp_example_simps(1)) (simp add: tcp_example_def)

lemma tcp_ok_one: "0 \<le> st \<Longrightarrow> st \<le> 11 \<Longrightarrow> tcp_ok (tcp_example a [pcb_example st local foreign])"
  by (rule tcp_ok_example) (simp_all add: tpcb_ok_pcb_example)

lemma tcp_example_nth [simp]: "tcp_pcbs (tcp_example a (pcb # pcbs)) ! 0 = pcb"
  by (simp add: tcp_example_simps)

lemma tcp_example_select:
  "tcp_pcb_select local (Some foreign) (tcp_pcbs (tcp_example a [pcb_example st local foreign])) = Some 0"
  by (simp add: tcp_example_simps tcp_pcb_select_def)

end
