(* ===== verification/Tcp_Input.thy ===== *)
theory Tcp_Input
  imports Tcp
begin

text \<open>
  Arriving segments: \<^verbatim>\<open>tcp_segment_arrives\<close> and \<^verbatim>\<open>tcp_input\<close> of \<^verbatim>\<open>tcp.c\<close>. The steps of the event processing
  of RFC 793 are definitions of their own, in the order of the code, and \<^verbatim>\<open>tcp_segment_arrives\<close> composes
  them; a step that can end the processing returns whether it goes on.
\<close>

section \<open>Model\<close>

text \<open>The reset sent in answer to a segment with an acknowledgment.\<close>

definition tcp_reset :: "tcp_segment_info \<Rightarrow> ip_endpoint \<Rightarrow> ip_endpoint \<Rightarrow> 'z tcp_scheme \<Rightarrow> 'z tcp_scheme option" where
  "tcp_reset seg local foreign s = map_option snd (tcp_output_segment (seg_ack seg) 0 TCP_FLG_RST 0 [] 0 local foreign s)"

definition tcp_arrives_closed ::
  "tcp_segment_info \<Rightarrow> u8 \<Rightarrow> ip_endpoint \<Rightarrow> ip_endpoint \<Rightarrow> 'z tcp_scheme \<Rightarrow> 'z tcp_scheme option" where
  "tcp_arrives_closed seg flags local foreign s =
     (if TCP_FLG_ISSET flags TCP_FLG_RST then Some s
      else if \<not> TCP_FLG_ISSET flags TCP_FLG_ACK
      then map_option snd (tcp_output_segment 0 (seg_seq seg + ucast (seg_len seg)) (TCP_FLG_RST OR TCP_FLG_ACK) 0 [] 0
             local foreign s)
      else tcp_reset seg local foreign s)"

definition tcp_arrives_listen ::
  "nat \<Rightarrow> tcp_segment_info \<Rightarrow> u8 \<Rightarrow> ip_endpoint \<Rightarrow> ip_endpoint \<Rightarrow> 'z tcp_scheme \<Rightarrow> 'z tcp_scheme option" where
  "tcp_arrives_listen i seg flags local foreign s =
     (if TCP_FLG_ISSET flags TCP_FLG_RST then Some s
      else if TCP_FLG_ISSET flags TCP_FLG_ACK then tcp_reset seg local foreign s
      else if TCP_FLG_ISSET flags TCP_FLG_SYN then do {
        let (r, s) = random_u32 s;
        let s = upd_tcp_pcb i (\<lambda>pcb. pcb\<lparr>tlocal := local, tforeign := foreign, rcv_wnd := mk16 TCP_BUF_SIZE,
                  rcv_nxt := seg_seq seg + 1, irs := seg_seq seg, iss := r\<rparr>) s;
        (_, s) \<leftarrow> tcp_output i (TCP_FLG_SYN OR TCP_FLG_ACK) [] 0 s;
        Some (upd_tcp_pcb i (\<lambda>pcb. pcb\<lparr>snd_nxt := iss pcb + 1, snd_una := iss pcb,
                               tstate := TCP_PCB_STATE_SYN_RECEIVED\<rparr>) s)
      }
      else Some s)"

definition tcp_arrives_syn_sent ::
  "nat \<Rightarrow> tcp_segment_info \<Rightarrow> u8 \<Rightarrow> ip_endpoint \<Rightarrow> ip_endpoint \<Rightarrow> 'z tcp_scheme \<Rightarrow> 'z tcp_scheme option" where
  "tcp_arrives_syn_sent i seg flags local foreign s =
     (let pcb = tcp_pcbs s ! i in
      if TCP_FLG_ISSET flags TCP_FLG_ACK \<and> (seg_ack seg \<le> iss pcb \<or> seg_ack seg > snd_nxt pcb)
      then tcp_reset seg local foreign s
      else if TCP_FLG_ISSET flags TCP_FLG_SYN then do {
        let acceptable = (TCP_FLG_ISSET flags TCP_FLG_ACK \<and> snd_una pcb \<le> seg_ack seg \<and> seg_ack seg \<le> snd_nxt pcb);
        let s = upd_tcp_pcb i (\<lambda>pcb. pcb\<lparr>rcv_nxt := seg_seq seg + 1, irs := seg_seq seg\<rparr>) s;
        let s = (if acceptable
                 then tcp_retransmit_queue_cleanup i (upd_tcp_pcb i (\<lambda>pcb. pcb\<lparr>snd_una := seg_ack seg\<rparr>) s) else s);
        if snd_una (tcp_pcbs s ! i) > iss (tcp_pcbs s ! i) then do {
          let s = upd_tcp_pcb i (\<lambda>pcb. pcb\<lparr>tstate := TCP_PCB_STATE_ESTABLISHED\<rparr>) s;
          (_, s) \<leftarrow> tcp_output i TCP_FLG_ACK [] 0 s;
          Some (tcp_wakeup i (upd_tcp_pcb i (\<lambda>pcb. pcb\<lparr>snd_wnd := seg_wnd seg, snd_wl1 := seg_seq seg,
                                               snd_wl2 := seg_ack seg\<rparr>) s))
        }
        else do {
          let s = upd_tcp_pcb i (\<lambda>pcb. pcb\<lparr>tstate := TCP_PCB_STATE_SYN_RECEIVED\<rparr>) s;
          map_option snd (tcp_output i (TCP_FLG_SYN OR TCP_FLG_ACK) [] 0 s)
        }
      }
      else Some s)"

text \<open>The first check of the other states: whether the segment is in the receive window.\<close>

definition tcp_in_window :: "u32 \<Rightarrow> tcp_pcb \<Rightarrow> bool" where
  "tcp_in_window sq pcb \<longleftrightarrow> rcv_nxt pcb \<le> sq \<and> sq < rcv_nxt pcb + ucast (rcv_wnd pcb)"

definition tcp_acceptable :: "tcp_pcb \<Rightarrow> tcp_segment_info \<Rightarrow> bool" where
  "tcp_acceptable pcb seg =
     (if tstate pcb \<in> {TCP_PCB_STATE_SYN_RECEIVED, TCP_PCB_STATE_ESTABLISHED, TCP_PCB_STATE_FIN_WAIT1,
                       TCP_PCB_STATE_FIN_WAIT2, TCP_PCB_STATE_CLOSE_WAIT, TCP_PCB_STATE_LAST_ACK}
      then if seg_len seg = 0
           then if rcv_wnd pcb = 0 then seg_seq seg = rcv_nxt pcb else tcp_in_window (seg_seq seg) pcb
           else if rcv_wnd pcb = 0 then False
           else tcp_in_window (seg_seq seg) pcb \<or> tcp_in_window (seg_seq seg + ucast (seg_len seg) - 1) pcb
      else False)"

text \<open>The acknowledgment in the states that carry data.\<close>

definition tcp_ack_data :: "nat \<Rightarrow> tcp_segment_info \<Rightarrow> 'z tcp_scheme \<Rightarrow> (bool \<times> 'z tcp_scheme) option" where
  "tcp_ack_data i seg s =
     (let pcb = tcp_pcbs s ! i;
          fin_wait = (\<lambda>s. if tstate (tcp_pcbs s ! i) = TCP_PCB_STATE_FIN_WAIT1 \<and> seg_ack seg = snd_nxt (tcp_pcbs s ! i)
                          then upd_tcp_pcb i (\<lambda>pcb. pcb\<lparr>tstate := TCP_PCB_STATE_FIN_WAIT2\<rparr>) s else s)
      in if snd_una pcb < seg_ack seg \<and> seg_ack seg \<le> snd_nxt pcb
         then let s = tcp_retransmit_queue_cleanup i (upd_tcp_pcb i (\<lambda>pcb. pcb\<lparr>snd_una := seg_ack seg\<rparr>) s);
                  s = (if snd_wl1 pcb < seg_seq seg \<or> (snd_wl1 pcb = seg_seq seg \<and> snd_wl2 pcb \<le> seg_ack seg)
                       then upd_tcp_pcb i (\<lambda>pcb. pcb\<lparr>snd_wnd := seg_wnd seg, snd_wl1 := seg_seq seg,
                                                snd_wl2 := seg_ack seg\<rparr>) s else s)
              in Some (True, fin_wait (tcp_wakeup i s))
         else if seg_ack seg < snd_una pcb then Some (True, fin_wait s)
         else if seg_ack seg > snd_nxt pcb
         then map_option (\<lambda>(_, s). (False, s)) (tcp_output i TCP_FLG_ACK [] 0 s)
         else Some (True, fin_wait s))"

definition tcp_arrives_ack ::
  "nat \<Rightarrow> tcp_segment_info \<Rightarrow> ip_endpoint \<Rightarrow> ip_endpoint \<Rightarrow> 'z tcp_scheme \<Rightarrow> (bool \<times> 'z tcp_scheme) option" where
  "tcp_arrives_ack i seg local foreign s =
     (let pcb = tcp_pcbs s ! i in
      if tstate pcb = TCP_PCB_STATE_SYN_RECEIVED
      then if snd_una pcb \<le> seg_ack seg \<and> seg_ack seg \<le> snd_nxt pcb
           then tcp_ack_data i seg (tcp_wakeup i (upd_tcp_pcb i (\<lambda>pcb. pcb\<lparr>tstate := TCP_PCB_STATE_ESTABLISHED\<rparr>) s))
           else map_option (\<lambda>s. (False, s)) (tcp_reset seg local foreign s)
      else if tstate pcb \<in> {TCP_PCB_STATE_ESTABLISHED, TCP_PCB_STATE_FIN_WAIT1, TCP_PCB_STATE_FIN_WAIT2,
                            TCP_PCB_STATE_CLOSE_WAIT}
      then tcp_ack_data i seg s
      else if tstate pcb = TCP_PCB_STATE_LAST_ACK
      then Some (False, if seg_ack seg = snd_nxt pcb
                        then tcp_pcb_release i (upd_tcp_pcb i (\<lambda>pcb. pcb\<lparr>tstate := TCP_PCB_STATE_CLOSED\<rparr>) s) else s)
      else Some (True, s))"

text \<open>The text of the segment. A \<^verbatim>\<open>memcpy\<close> that leaves the receive buffer is undefined.\<close>

definition tcp_arrives_text ::
  "nat \<Rightarrow> tcp_segment_info \<Rightarrow> bytes \<Rightarrow> nat \<Rightarrow> 'z tcp_scheme \<Rightarrow> 'z tcp_scheme option" where
  "tcp_arrives_text i seg data len s =
     (let pcb = tcp_pcbs s ! i in
      if tstate pcb \<in> {TCP_PCB_STATE_ESTABLISHED, TCP_PCB_STATE_FIN_WAIT1, TCP_PCB_STATE_FIN_WAIT2} \<and> len \<noteq> 0
      then do {
        d \<leftarrow> rd_bytes data 0 len;
        buf \<leftarrow> wr_bytes (tbuf pcb) (TCP_BUF_SIZE - unat (rcv_wnd pcb)) d;
        let s = upd_tcp_pcb i (\<lambda>pcb. pcb\<lparr>tbuf := buf, rcv_nxt := seg_seq seg + ucast (seg_len seg),
                                     rcv_wnd := rcv_wnd pcb - mk16 len\<rparr>) s;
        (_, s) \<leftarrow> tcp_output i TCP_FLG_ACK [] 0 s;
        Some (tcp_wakeup i s)
      }
      else Some s)"

definition tcp_arrives_fin :: "nat \<Rightarrow> tcp_segment_info \<Rightarrow> u8 \<Rightarrow> 'z tcp_scheme \<Rightarrow> 'z tcp_scheme option" where
  "tcp_arrives_fin i seg flags s =
     (if \<not> TCP_FLG_ISSET flags TCP_FLG_FIN then Some s
      else if tstate (tcp_pcbs s ! i) \<in> {TCP_PCB_STATE_CLOSED, TCP_PCB_STATE_LISTEN} then Some s
      else do {
        let s = upd_tcp_pcb i (\<lambda>pcb. pcb\<lparr>rcv_nxt := seg_seq seg + 1\<rparr>) s;
        (_, s) \<leftarrow> tcp_output i TCP_FLG_ACK [] 0 s;
        let pcb = tcp_pcbs s ! i;
        let enter = (\<lambda>st. upd_tcp_pcb i (\<lambda>pcb. pcb\<lparr>tstate := st\<rparr>) s);
        if tstate pcb \<in> {TCP_PCB_STATE_SYN_RECEIVED, TCP_PCB_STATE_ESTABLISHED}
        then Some (tcp_wakeup i (enter TCP_PCB_STATE_CLOSE_WAIT))
        else if tstate pcb = TCP_PCB_STATE_FIN_WAIT1
        then Some (enter (if seg_ack seg = snd_nxt pcb then TCP_PCB_STATE_TIME_WAIT else TCP_PCB_STATE_CLOSING))
        else if tstate pcb = TCP_PCB_STATE_FIN_WAIT2 then Some (enter TCP_PCB_STATE_TIME_WAIT)
        else Some s
      })"

definition tcp_arrives_other ::
  "nat \<Rightarrow> tcp_segment_info \<Rightarrow> u8 \<Rightarrow> bytes \<Rightarrow> nat \<Rightarrow> ip_endpoint \<Rightarrow> ip_endpoint \<Rightarrow> 'z tcp_scheme \<Rightarrow> 'z tcp_scheme option" where
  "tcp_arrives_other i seg flags data len local foreign s =
     (if \<not> tcp_acceptable (tcp_pcbs s ! i) seg
      then if \<not> TCP_FLG_ISSET flags TCP_FLG_RST then map_option snd (tcp_output i TCP_FLG_ACK [] 0 s) else Some s
      else if \<not> TCP_FLG_ISSET flags TCP_FLG_ACK then Some s
      else do {
        (go, s) \<leftarrow> tcp_arrives_ack i seg local foreign s;
        if go then do { s \<leftarrow> tcp_arrives_text i seg data len s; tcp_arrives_fin i seg flags s } else Some s
      })"

definition tcp_segment_arrives ::
  "tcp_segment_info \<Rightarrow> u8 \<Rightarrow> bytes \<Rightarrow> nat \<Rightarrow> ip_endpoint \<Rightarrow> ip_endpoint \<Rightarrow> 'z tcp_scheme \<Rightarrow> 'z tcp_scheme option" where
  "tcp_segment_arrives seg flags data len local foreign s =
     (case tcp_pcb_select local (Some foreign) (tcp_pcbs s) of
        None \<Rightarrow> tcp_arrives_closed seg flags local foreign s
      | Some i \<Rightarrow>
          if tstate (tcp_pcbs s ! i) = TCP_PCB_STATE_CLOSED then tcp_arrives_closed seg flags local foreign s
          else if tstate (tcp_pcbs s ! i) = TCP_PCB_STATE_LISTEN then tcp_arrives_listen i seg flags local foreign s
          else if tstate (tcp_pcbs s ! i) = TCP_PCB_STATE_SYN_SENT then tcp_arrives_syn_sent i seg flags local foreign s
          else tcp_arrives_other i seg flags data len local foreign s)"

definition tcp_input :: "bytes \<Rightarrow> nat \<Rightarrow> u32 \<Rightarrow> u32 \<Rightarrow> ip_iface \<Rightarrow> 'z tcp_scheme \<Rightarrow> 'z tcp_scheme option" where
  "tcp_input data len src dst iface s =
     (if len < TCP_HDR_SIZE then Some s
      else do {
        let h = host_order s;
        psum \<leftarrow> cksum16 h (pseudo_hdr h src dst IP_PROTOCOL_TCP (mk16 len)) 12 0;
        sm \<leftarrow> cksum16 h data (mk16 len) (mk32 (unat (NOT psum)));
        if sm \<noteq> 0 then Some s
        else if src = IP_ADDR_BROADCAST \<or> src = broadcast iface \<or> dst = IP_ADDR_BROADCAST \<or> dst = broadcast iface
        then Some s
        else do {
          hdr_src \<leftarrow> rd16 h data 0;
          hdr_dst \<leftarrow> rd16 h data 2;
          hdr_seq \<leftarrow> rd32 h data 4;
          hdr_ack \<leftarrow> rd32 h data 8;
          off \<leftarrow> rd8 data 12;
          flg \<leftarrow> rd8 data 13;
          wnd \<leftarrow> rd16 h data 14;
          up \<leftarrow> rd16 h data 18;
          let hl = unat off div 16 * 4;
          let data_len = size_of_int (int len - int hl);
          let slen = mk16 data_len + (if TCP_FLG_ISSET flg TCP_FLG_SYN then 1 else 0) +
                     (if TCP_FLG_ISSET flg TCP_FLG_FIN then 1 else 0);
          let seg = \<lparr>seg_seq = ntoh32 h hdr_seq, seg_ack = ntoh32 h hdr_ack, seg_len = slen,
                     seg_wnd = ntoh16 h wnd, seg_up = ntoh16 h up\<rparr>;
          tcp_segment_arrives seg flg (drop hl data) data_len \<lparr>ep_addr = dst, ep_port = hdr_dst\<rparr>
            \<lparr>ep_addr = src, ep_port = hdr_src\<rparr> s
        }
      })"

section \<open>What the steps do\<close>

lemma tcp_reset_ok:
  assumes "tcp_ok s"
  shows "\<exists>s'. tcp_reset seg local foreign s = Some s' \<and> tcp_ok s' \<and> stack_frame s s' \<and> tcp_pcbs s' = tcp_pcbs s \<and>
    tcp_emits (tcp_segment (host_order s) (seg_ack seg) 0 TCP_FLG_RST 0 [] local foreign) local foreign s s'"
  using tcp_output_segment_ok [OF assms, of 0 "[]" "seg_ack seg" 0 TCP_FLG_RST 0 local foreign]
  by (auto simp: tcp_reset_def stack_frame_ip ip_frame_tcp)

lemma tcp_arrives_closed_ok:
  assumes "tcp_ok s"
  shows "\<exists>s'. tcp_arrives_closed seg flags local foreign s = Some s' \<and> tcp_ok s' \<and> stack_frame s s' \<and> tcp_pcbs s' = tcp_pcbs s"
  using tcp_reset_ok [OF assms, of seg local foreign] assms
    tcp_output_segment_ok [OF assms, of 0 "[]" 0 "seg_seq seg + ucast (seg_len seg)" "TCP_FLG_RST OR TCP_FLG_ACK" 0 local foreign]
  by (auto simp: tcp_arrives_closed_def stack_frame_ip ip_frame_tcp)

text \<open>A control block that listens, when a connection is requested.\<close>

definition pcb_requested :: "u32 \<Rightarrow> tcp_segment_info \<Rightarrow> ip_endpoint \<Rightarrow> ip_endpoint \<Rightarrow> tcp_pcb \<Rightarrow> tcp_pcb" where
  "pcb_requested r seg local foreign pcb = pcb\<lparr>tlocal := local, tforeign := foreign, rcv_wnd := mk16 TCP_BUF_SIZE,
     rcv_nxt := seg_seq seg + 1, irs := seg_seq seg, iss := r\<rparr>"

lemma tcp_arrives_listen_syn:
  assumes ok: "tcp_ok s" "i < 16"
    and flags: "\<not> TCP_FLG_ISSET flags TCP_FLG_RST" "\<not> TCP_FLG_ISSET flags TCP_FLG_ACK" "TCP_FLG_ISSET flags TCP_FLG_SYN"
  shows "\<exists>s'. tcp_arrives_listen i seg flags local foreign s = Some s' \<and> tcp_step i s s' \<and>
    tcp_pcbs s' ! i = (pcb_requested (randoms s 0) seg local foreign (tcp_pcbs s ! i))
      \<lparr>tqueue := tqueue (tcp_pcbs s ! i) @ tcp_new_entries (randoms s 0) (TCP_FLG_SYN OR TCP_FLG_ACK) [] s,
       snd_nxt := randoms s 0 + 1, snd_una := randoms s 0, tstate := TCP_PCB_STATE_SYN_RECEIVED\<rparr> \<and>
    tcp_emits (tcp_segment (host_order s) (randoms s 0) (seg_seq seg + 1) (TCP_FLG_SYN OR TCP_FLG_ACK) (mk16 TCP_BUF_SIZE) []
      local foreign) local foreign s s'"
proof -
  let ?s0 = "s\<lparr>randoms := advance (randoms s)\<rparr>"
  let ?f = "pcb_requested (randoms s 0) seg local foreign"
  let ?g = "\<lambda>pcb. pcb\<lparr>snd_nxt := iss pcb + 1, snd_una := iss pcb, tstate := TCP_PCB_STATE_SYN_RECEIVED\<rparr>"
  have s0: "tcp_ok ?s0" "tcp_step i s ?s0" "same_below s ?s0"
    using ok stack_frame_same_below [OF same_below_updates(3)] by (simp_all add: tcp_step_def)
  have "tpcb_ok (?f (tcp_pcbs ?s0 ! i))" using tcp_okD(4) [OF ok] by (simp add: tpcb_ok_def pcb_requested_def)
  from tcp_step_output [where f = ?f, OF s0(1) ok(2) this, of 0 "[]" "TCP_FLG_SYN OR TCP_FLG_ACK"]
  obtain r s2 where s2: "tcp_output i (TCP_FLG_SYN OR TCP_FLG_ACK) [] 0 (upd_tcp_pcb i ?f ?s0) = Some (r, s2)" "tcp_step i ?s0 s2"
      "tcp_pcbs s2 ! i = (?f (tcp_pcbs s ! i))\<lparr>tqueue := tqueue (tcp_pcbs s ! i) @
         tcp_new_entries (randoms s 0) (TCP_FLG_SYN OR TCP_FLG_ACK) [] s\<rparr>"
      "tcp_emits (tcp_segment (host_order s) (randoms s 0) (seg_seq seg + 1) (TCP_FLG_SYN OR TCP_FLG_ACK) (mk16 TCP_BUF_SIZE) []
        local foreign) local foreign ?s0 s2"
    by (auto simp: tcp_out_seq_def TCP_FLG_ISSET_def pcb_requested_def)
  note ok2 = tcp_step_ok [OF s2(2)]
  have "tcp_step i s2 (upd_tcp_pcb i ?g s2)"
    using tcp_okD(4) [OF ok2 ok(2)] ok(2) ok2 by (intro tcp_step_upd) (simp_all add: tpcb_ok_def)
  with s0(2) s2(2) have "tcp_step i s (upd_tcp_pcb i ?g s2)" using tcp_step_trans by blast
  moreover have "tcp_arrives_listen i seg flags local foreign s = Some (upd_tcp_pcb i ?g s2)"
    using flags s2(1) by (simp add: tcp_arrives_listen_def random_u32_def pcb_requested_def [abs_def] Let_def)
  moreover have "tcp_emits (tcp_segment (host_order s) (randoms s 0) (seg_seq seg + 1) (TCP_FLG_SYN OR TCP_FLG_ACK)
      (mk16 TCP_BUF_SIZE) [] local foreign) local foreign s (upd_tcp_pcb i ?g s2)"
    using s0(3) s2(4) same_below_updates(6) by (rule tcp_emits_same_below)
  ultimately show ?thesis using s2(3) tcp_okD(3) [OF ok2] ok(2) by (auto simp: pcb_requested_def)
qed

text \<open>A control block that has sent its request, after the answer.\<close>

definition pcb_synced :: "tcp_segment_info \<Rightarrow> bool \<Rightarrow> tcp_pcb \<Rightarrow> tcp_pcb" where
  "pcb_synced seg acceptable pcb =
     (let pcb = pcb\<lparr>rcv_nxt := seg_seq seg + 1, irs := seg_seq seg\<rparr>
      in if acceptable then pcb\<lparr>snd_una := seg_ack seg, tqueue := tcp_cleanup_loop (seg_ack seg) (tqueue pcb)\<rparr> else pcb)"

lemma tpcb_ok_synced: "tpcb_ok pcb \<Longrightarrow> tpcb_ok (pcb_synced seg b pcb)"
  using set_cleanup [of "seg_ack seg" "tqueue pcb"] by (auto simp: tpcb_ok_def pcb_synced_def Let_def)

lemma upd_tcp_pcb_twice: "upd_tcp_pcb i g (upd_tcp_pcb i f s) = upd_tcp_pcb i (\<lambda>pcb. g (f pcb)) s" if "i < length (tcp_pcbs s)"
  using that by (simp add: upd_tcp_pcb_def set_tcp_pcb_def)

lemma tcp_arrives_syn_sent_eq:
  assumes "tcp_ok s" "i < 16"
  defines "pcb \<equiv> tcp_pcbs s ! i"
  shows "tcp_arrives_syn_sent i seg flags local foreign s =
    (if TCP_FLG_ISSET flags TCP_FLG_ACK \<and> (seg_ack seg \<le> iss pcb \<or> seg_ack seg > snd_nxt pcb)
     then tcp_reset seg local foreign s
     else if TCP_FLG_ISSET flags TCP_FLG_SYN
     then let f = pcb_synced seg (TCP_FLG_ISSET flags TCP_FLG_ACK \<and> snd_una pcb \<le> seg_ack seg \<and> seg_ack seg \<le> snd_nxt pcb)
          in if snd_una (f pcb) > iss pcb
             then do { (_, s) \<leftarrow> tcp_output i TCP_FLG_ACK [] 0 (upd_tcp_pcb i (\<lambda>pcb. (f pcb)\<lparr>tstate := 5\<rparr>) s);
                       Some (tcp_wakeup i (upd_tcp_pcb i (\<lambda>pcb. pcb\<lparr>snd_wnd := seg_wnd seg, snd_wl1 := seg_seq seg,
                         snd_wl2 := seg_ack seg\<rparr>) s)) }
             else map_option snd (tcp_output i (TCP_FLG_SYN OR TCP_FLG_ACK) [] 0 (upd_tcp_pcb i (\<lambda>pcb. (f pcb)\<lparr>tstate := 4\<rparr>) s))
     else Some s)"
proof -
  have l: "i < length (tcp_pcbs s)" using assms(2) tcp_okD(3) [OF assms(1)] by simp
  show ?thesis
    using l by (auto simp: tcp_arrives_syn_sent_def pcb_def pcb_synced_def Let_def tcp_retransmit_queue_cleanup_def
        upd_tcp_pcb_twice)
qed

lemma tcp_arrives_syn_sent_syn:
  fixes seg
  assumes ok: "tcp_ok s" "i < 16"
    and syn: "TCP_FLG_ISSET flags TCP_FLG_SYN"
  defines "pcb \<equiv> tcp_pcbs s ! i"
  defines "acc \<equiv> TCP_FLG_ISSET flags TCP_FLG_ACK \<and> snd_una pcb \<le> seg_ack seg \<and> seg_ack seg \<le> snd_nxt pcb"
  assumes ack: "\<not> (TCP_FLG_ISSET flags TCP_FLG_ACK \<and> (seg_ack seg \<le> iss pcb \<or> seg_ack seg > snd_nxt pcb))"
  shows "\<exists>s'. tcp_arrives_syn_sent i seg flags local foreign s = Some s' \<and> tcp_step i s s' \<and>
    (let p = pcb_synced seg acc pcb
     in if snd_una p > iss pcb
        then tcp_pcbs s' ! i = p\<lparr>tstate := TCP_PCB_STATE_ESTABLISHED, snd_wnd := seg_wnd seg, snd_wl1 := seg_seq seg,
               snd_wl2 := seg_ack seg, tctx := sched_wakeup (tctx pcb)\<rparr> \<and>
             tcp_emits (tcp_segment (host_order s) (snd_nxt pcb) (seg_seq seg + 1) TCP_FLG_ACK (rcv_wnd pcb) [] (tlocal pcb) (tforeign pcb))
               (tlocal pcb) (tforeign pcb) s s'
        else tcp_pcbs s' ! i = p\<lparr>tstate := TCP_PCB_STATE_SYN_RECEIVED,
               tqueue := tqueue p @ tcp_new_entries (iss pcb) (TCP_FLG_SYN OR TCP_FLG_ACK) [] s\<rparr> \<and>
             tcp_emits (tcp_segment (host_order s) (iss pcb) (seg_seq seg + 1) (TCP_FLG_SYN OR TCP_FLG_ACK) (rcv_wnd pcb) []
               (tlocal pcb) (tforeign pcb)) (tlocal pcb) (tforeign pcb) s s')"
proof -
  let ?p = "pcb_synced seg acc pcb"
  have pok: "tpcb_ok pcb" using tcp_okD(4) [OF ok] by (simp add: pcb_def)
  have fields: "snd_nxt ?p = snd_nxt pcb" "iss ?p = iss pcb" "rcv_nxt ?p = seg_seq seg + 1" "rcv_wnd ?p = rcv_wnd pcb"
    "tlocal ?p = tlocal pcb" "tforeign ?p = tforeign pcb" "tctx ?p = tctx pcb"
    by (simp_all add: pcb_synced_def Let_def)
  have st: "tpcb_ok (pcb_synced seg acc (tcp_pcbs s ! i)\<lparr>tstate := st\<rparr>)" if "0 \<le> st" "st \<le> 11" for st
    using tpcb_ok_synced [OF pok] that by (simp add: tpcb_ok_def pcb_def)
  note eq = tcp_arrives_syn_sent_eq [OF ok, of seg flags local foreign, folded pcb_def, folded acc_def]
  show ?thesis
  proof (cases "snd_una ?p > iss pcb")
    case True
    from tcp_step_ack [where f = "\<lambda>pcb. pcb_synced seg acc pcb\<lparr>tstate := 5\<rparr>", OF ok st]
    obtain r s1 where s1: "tcp_output i TCP_FLG_ACK [] 0 (upd_tcp_pcb i (\<lambda>pcb. pcb_synced seg acc pcb\<lparr>tstate := 5\<rparr>) s) = Some (r, s1)"
        "tcp_step i s s1" "tcp_pcbs s1 ! i = ?p\<lparr>tstate := 5\<rparr>"
        "tcp_emits (tcp_segment (host_order s) (snd_nxt pcb) (seg_seq seg + 1) TCP_FLG_ACK (rcv_wnd pcb) [] (tlocal pcb) (tforeign pcb))
          (tlocal pcb) (tforeign pcb) s s1"
      using fields by (auto simp: pcb_def)
    let ?g = "\<lambda>pcb. pcb\<lparr>snd_wnd := seg_wnd seg, snd_wl1 := seg_seq seg, snd_wl2 := seg_ack seg\<rparr>"
    have ok1: "tcp_ok s1" using s1(2) by (rule tcp_step_ok)
    have up: "tcp_step i s1 (upd_tcp_pcb i ?g s1)"
      using tcp_okD(4) [OF ok1 ok(2)] ok(2) ok1 by (intro tcp_step_upd) (simp_all add: tpcb_ok_def)
    then have "tcp_step i s1 (tcp_wakeup i (upd_tcp_pcb i ?g s1))"
      using tcp_step_wakeup [OF tcp_step_ok [OF up] ok(2)] by (rule tcp_step_trans)
    with s1(2) have "tcp_step i s (tcp_wakeup i (upd_tcp_pcb i ?g s1))" by (rule tcp_step_trans)
    moreover have "same_below s1 (tcp_wakeup i (upd_tcp_pcb i ?g s1))"
      using same_below_updates(6,7) by (rule same_below_trans)
    ultimately show ?thesis
      using eq ack syn True s1 fields tcp_okD(3) [OF ok1] ok(2) tcp_emits_same_below [OF same_below_refl s1(4)]
      by (auto simp: Let_def)
  next
    case False
    from tcp_step_output [where f = "\<lambda>pcb. pcb_synced seg acc pcb\<lparr>tstate := 4\<rparr>", OF ok st, of 0 "[]" "TCP_FLG_SYN OR TCP_FLG_ACK"]
    obtain r s1 where "tcp_output i (TCP_FLG_SYN OR TCP_FLG_ACK) [] 0
          (upd_tcp_pcb i (\<lambda>pcb. pcb_synced seg acc pcb\<lparr>tstate := 4\<rparr>) s) = Some (r, s1)"
        "tcp_step i s s1" "tcp_pcbs s1 ! i = ?p\<lparr>tstate := 4, tqueue := tqueue ?p @
          tcp_new_entries (iss pcb) (TCP_FLG_SYN OR TCP_FLG_ACK) [] s\<rparr>"
        "tcp_emits (tcp_segment (host_order s) (iss pcb) (seg_seq seg + 1) (TCP_FLG_SYN OR TCP_FLG_ACK) (rcv_wnd pcb) []
          (tlocal pcb) (tforeign pcb)) (tlocal pcb) (tforeign pcb) s s1"
      using fields by (auto simp: pcb_def tcp_out_seq_def TCP_FLG_ISSET_def)
    then show ?thesis using eq ack syn False by (auto simp: Let_def)
  qed
qed

subsection \<open>Acknowledgments\<close>

text \<open>A control block after new data was acknowledged, and the move to the second waiting state of a close.\<close>

definition pcb_new_ack :: "tcp_segment_info \<Rightarrow> tcp_pcb \<Rightarrow> tcp_pcb" where
  "pcb_new_ack seg pcb =
     (let p = pcb\<lparr>snd_una := seg_ack seg, tqueue := tcp_cleanup_loop (seg_ack seg) (tqueue pcb)\<rparr>;
          p = (if snd_wl1 pcb < seg_seq seg \<or> (snd_wl1 pcb = seg_seq seg \<and> snd_wl2 pcb \<le> seg_ack seg)
               then p\<lparr>snd_wnd := seg_wnd seg, snd_wl1 := seg_seq seg, snd_wl2 := seg_ack seg\<rparr> else p)
      in p\<lparr>tctx := sched_wakeup (tctx pcb)\<rparr>)"

definition pcb_fin_wait :: "tcp_segment_info \<Rightarrow> tcp_pcb \<Rightarrow> tcp_pcb" where
  "pcb_fin_wait seg pcb =
     (if tstate pcb = TCP_PCB_STATE_FIN_WAIT1 \<and> seg_ack seg = snd_nxt pcb then pcb\<lparr>tstate := TCP_PCB_STATE_FIN_WAIT2\<rparr> else pcb)"

definition pcb_acked :: "tcp_segment_info \<Rightarrow> tcp_pcb \<Rightarrow> tcp_pcb" where
  "pcb_acked seg pcb = pcb_fin_wait seg (if snd_una pcb < seg_ack seg then pcb_new_ack seg pcb else pcb)"

lemma pcb_acked_fields:
  "tlocal (pcb_acked seg pcb) = tlocal pcb" "tforeign (pcb_acked seg pcb) = tforeign pcb"
  "snd_nxt (pcb_acked seg pcb) = snd_nxt pcb" "rcv_nxt (pcb_acked seg pcb) = rcv_nxt pcb"
  "rcv_wnd (pcb_acked seg pcb) = rcv_wnd pcb" "tbuf (pcb_acked seg pcb) = tbuf pcb"
  "tstate (pcb_acked seg pcb) =
     (if tstate pcb = TCP_PCB_STATE_FIN_WAIT1 \<and> seg_ack seg = snd_nxt pcb then TCP_PCB_STATE_FIN_WAIT2 else tstate pcb)"
  by (simp_all add: pcb_acked_def pcb_fin_wait_def pcb_new_ack_def Let_def)

lemma tpcb_ok_acked: "tpcb_ok pcb \<Longrightarrow> tpcb_ok (pcb_acked seg pcb)"
  using set_cleanup [of "seg_ack seg" "tqueue pcb"]
  by (auto simp: tpcb_ok_def pcb_acked_def pcb_fin_wait_def pcb_new_ack_def Let_def)

lemma tcp_ack_data_eq:
  assumes "tcp_ok s" "i < 16"
  defines "pcb \<equiv> tcp_pcbs s ! i"
  shows "tcp_ack_data i seg s =
    (if seg_ack seg \<le> snd_nxt pcb \<or> seg_ack seg < snd_una pcb
     then Some (True, upd_tcp_pcb i (\<lambda>pcb. if seg_ack seg \<le> snd_nxt pcb then pcb_acked seg pcb else pcb_fin_wait seg pcb) s)
     else map_option (\<lambda>(_, s). (False, s)) (tcp_output i TCP_FLG_ACK [] 0 s))"
proof -
  have l: "i < length (tcp_pcbs s)" using assms(2) tcp_okD(3) [OF assms(1)] by simp
  have fw: "(if tstate (tcp_pcbs s' ! i) = TCP_PCB_STATE_FIN_WAIT1 \<and> seg_ack seg = snd_nxt (tcp_pcbs s' ! i)
      then upd_tcp_pcb i (\<lambda>pcb. pcb\<lparr>tstate := TCP_PCB_STATE_FIN_WAIT2\<rparr>) s' else s') = upd_tcp_pcb i (pcb_fin_wait seg) s'"
    for s' :: "'a tcp_scheme"
    by (simp add: pcb_fin_wait_def upd_tcp_pcb_def set_tcp_pcb_def)
  have cong: "f pcb = g pcb \<Longrightarrow> upd_tcp_pcb i f s = upd_tcp_pcb i g s" for f g
    by (simp add: upd_tcp_pcb_def pcb_def)
  consider (new) "snd_una pcb < seg_ack seg" "seg_ack seg \<le> snd_nxt pcb"
    | (old) "seg_ack seg < snd_una pcb" | (same) "seg_ack seg = snd_una pcb" "seg_ack seg \<le> snd_nxt pcb"
    | (ahead) "\<not> seg_ack seg \<le> snd_nxt pcb" "\<not> seg_ack seg < snd_una pcb"
    by (meson linorder_less_linear not_less)
  then show ?thesis
  proof cases
    case new
    have "tcp_ack_data i seg s = Some (True, upd_tcp_pcb i (\<lambda>p. pcb_fin_wait seg (pcb_new_ack seg p)) s)"
      using new l unfolding tcp_ack_data_def Let_def fw
      by (auto simp: pcb_def tcp_retransmit_queue_cleanup_def tcp_wakeup_def upd_tcp_pcb_twice pcb_new_ack_def Let_def
          intro!: cong)
    then show ?thesis using new by (auto intro!: cong simp: pcb_acked_def)
  next
    case old
    then have "tcp_ack_data i seg s = Some (True, upd_tcp_pcb i (pcb_fin_wait seg) s)"
      unfolding tcp_ack_data_def Let_def fw by (auto simp: pcb_def)
    then show ?thesis using old by (auto intro!: cong simp: pcb_acked_def)
  next
    case same
    then have "tcp_ack_data i seg s = Some (True, upd_tcp_pcb i (pcb_fin_wait seg) s)"
      unfolding tcp_ack_data_def Let_def fw by (auto simp: pcb_def)
    then show ?thesis using same by (auto intro!: cong simp: pcb_acked_def)
  next
    case ahead
    then show ?thesis unfolding tcp_ack_data_def Let_def fw by (auto simp: pcb_def not_le)
  qed
qed

lemma tcp_arrives_ack_data:
  assumes "tcp_ok s" "i < 16" "tstate (tcp_pcbs s ! i) \<in> {5, 6, 7, 10}" "seg_ack seg \<le> snd_nxt (tcp_pcbs s ! i)"
  shows "tcp_arrives_ack i seg local foreign s = Some (True, upd_tcp_pcb i (pcb_acked seg) s)"
proof -
  have "tcp_arrives_ack i seg local foreign s = tcp_ack_data i seg s"
    using assms(3) by (auto simp: tcp_arrives_ack_def)
  then show ?thesis using tcp_ack_data_eq [OF assms(1,2), of seg] assms(4) by (simp add: upd_tcp_pcb_def)
qed

subsection \<open>State transitions\<close>

text \<open>
  The edges of the connection state diagram of RFC 793 that the arrival of a segment takes, and the
  deletion of the control block of a closed connection.
\<close>

inductive tcp_edge :: "int \<Rightarrow> int \<Rightarrow> bool" where
  listen_syn: "tcp_edge TCP_PCB_STATE_LISTEN TCP_PCB_STATE_SYN_RECEIVED"
| syn_sent_syn: "tcp_edge TCP_PCB_STATE_SYN_SENT TCP_PCB_STATE_SYN_RECEIVED"
| syn_sent_syn_ack: "tcp_edge TCP_PCB_STATE_SYN_SENT TCP_PCB_STATE_ESTABLISHED"
| syn_received_ack: "tcp_edge TCP_PCB_STATE_SYN_RECEIVED TCP_PCB_STATE_ESTABLISHED"
| established_fin: "tcp_edge TCP_PCB_STATE_ESTABLISHED TCP_PCB_STATE_CLOSE_WAIT"
| fin_wait1_ack: "tcp_edge TCP_PCB_STATE_FIN_WAIT1 TCP_PCB_STATE_FIN_WAIT2"
| fin_wait1_fin: "tcp_edge TCP_PCB_STATE_FIN_WAIT1 TCP_PCB_STATE_CLOSING"
| fin_wait2_fin: "tcp_edge TCP_PCB_STATE_FIN_WAIT2 TCP_PCB_STATE_TIME_WAIT"
| last_ack_ack: "tcp_edge TCP_PCB_STATE_LAST_ACK TCP_PCB_STATE_CLOSED"
| deleted: "tcp_edge TCP_PCB_STATE_CLOSED TCP_PCB_STATE_FREE"

inductive_simps tcp_edge_simps: "tcp_edge a b"

lemma tcp_edges_2: "tcp_edge a b \<Longrightarrow> tcp_edge b c \<Longrightarrow> tcp_edge\<^sup>*\<^sup>* a c"
  by (rule rtranclp.rtrancl_into_rtrancl [OF r_into_rtranclp])

lemma tcp_ack_data_ok:
  assumes ok: "tcp_ok s" "i < 16"
  defines "pcb \<equiv> tcp_pcbs s ! i"
  shows "\<exists>go s'. tcp_ack_data i seg s = Some (go, s') \<and> tcp_step i s s' \<and>
    tcp_edge\<^sup>*\<^sup>* (tstate pcb) (tstate (tcp_pcbs s' ! i)) \<and>
    (go \<longrightarrow> rcv_wnd (tcp_pcbs s' ! i) = rcv_wnd pcb \<and> (tstate (tcp_pcbs s' ! i) = 4 \<longrightarrow> tstate pcb = 4) \<and>
       (tstate (tcp_pcbs s' ! i) = 6 \<longrightarrow> seg_ack seg \<noteq> snd_nxt (tcp_pcbs s' ! i)))"
proof (cases "seg_ack seg \<le> snd_nxt pcb \<or> seg_ack seg < snd_una pcb")
  case True
  let ?f = "\<lambda>pcb. if seg_ack seg \<le> snd_nxt pcb then pcb_acked seg pcb else pcb_fin_wait seg pcb"
  have "tpcb_ok (?f (tcp_pcbs s ! i))"
    using tcp_okD(4) [OF ok] tpcb_ok_acked by (auto simp: pcb_fin_wait_def tpcb_ok_def)
  then have "tcp_step i s (upd_tcp_pcb i ?f s)" using ok by (intro tcp_step_upd)
  moreover have "tcp_pcbs (upd_tcp_pcb i ?f s) ! i = ?f pcb" using tcp_step_upd_nth [OF ok] by (simp only: pcb_def)
  moreover have "tcp_edge 6 7" by (simp add: tcp_edge_simps)
  ultimately show ?thesis
    using tcp_ack_data_eq [OF ok, of seg] True
    by (auto simp: pcb_def pcb_acked_fields pcb_fin_wait_def intro: r_into_rtranclp)
next
  case False
  then show ?thesis using tcp_ack_data_eq [OF ok, of seg] tcp_output_ack [OF ok]
    by (auto simp: pcb_def tcp_step_same_pcbs intro!: exI [of _ False])
qed

lemma tcp_arrives_ack_ok:
  assumes ok: "tcp_ok s" "i < 16"
  defines "pcb \<equiv> tcp_pcbs s ! i"
  shows "\<exists>go s'. tcp_arrives_ack i seg local foreign s = Some (go, s') \<and> tcp_step i s s' \<and>
    tcp_edge\<^sup>*\<^sup>* (tstate pcb) (tstate (tcp_pcbs s' ! i)) \<and>
    (go \<longrightarrow> rcv_wnd (tcp_pcbs s' ! i) = rcv_wnd pcb \<and> tstate (tcp_pcbs s' ! i) \<noteq> TCP_PCB_STATE_SYN_RECEIVED \<and>
       (tstate (tcp_pcbs s' ! i) = TCP_PCB_STATE_FIN_WAIT1 \<longrightarrow> seg_ack seg \<noteq> snd_nxt (tcp_pcbs s' ! i)))"
proof -
  have pok: "tpcb_ok pcb" using tcp_okD(4) [OF ok] by (simp add: pcb_def)
  consider (syn) "tstate pcb = 4" | (dat) "tstate pcb \<in> {5, 6, 7, 10}" | (last) "tstate pcb = 11"
    | (other) "tstate pcb \<notin> {4, 5, 6, 7, 10, 11}" by blast
  then show ?thesis
  proof cases
    case syn
    show ?thesis
    proof (cases "snd_una pcb \<le> seg_ack seg \<and> seg_ack seg \<le> snd_nxt pcb")
      case True
      let ?s1 = "tcp_wakeup i (upd_tcp_pcb i (\<lambda>pcb. pcb\<lparr>tstate := TCP_PCB_STATE_ESTABLISHED\<rparr>) s)"
      have up: "tcp_step i s (upd_tcp_pcb i (\<lambda>pcb. pcb\<lparr>tstate := TCP_PCB_STATE_ESTABLISHED\<rparr>) s)"
        using pok ok by (intro tcp_step_upd) (simp_all add: tpcb_ok_def pcb_def)
      then have s1: "tcp_step i s ?s1" using tcp_step_wakeup [OF tcp_step_ok [OF up] ok(2)] by (rule tcp_step_trans)
      have nth: "tstate (tcp_pcbs ?s1 ! i) = 5" "rcv_wnd (tcp_pcbs ?s1 ! i) = rcv_wnd pcb"
        using ok(2) tcp_okD(3) [OF ok(1)] by (simp_all add: pcb_def)
      from tcp_ack_data_ok [OF tcp_step_ok [OF s1] ok(2), of seg] obtain go s2 where s2: "tcp_ack_data i seg ?s1 = Some (go, s2)" "tcp_step i ?s1 s2"
        "tcp_edge\<^sup>*\<^sup>* 5 (tstate (tcp_pcbs s2 ! i))"
        "go \<longrightarrow> rcv_wnd (tcp_pcbs s2 ! i) = rcv_wnd pcb \<and> tstate (tcp_pcbs s2 ! i) \<noteq> 4 \<and>
          (tstate (tcp_pcbs s2 ! i) = 6 \<longrightarrow> seg_ack seg \<noteq> snd_nxt (tcp_pcbs s2 ! i))"
        unfolding nth by auto
      have "tcp_edge 4 5" by (simp add: tcp_edge_simps)
      then show ?thesis
        using syn True s2 tcp_step_trans [OF s1 s2(2)] converse_rtranclp_into_rtranclp [of tcp_edge 4 5]
        by (auto simp: tcp_arrives_ack_def pcb_def)
    next
      case False
      then show ?thesis using syn tcp_reset_ok [OF ok(1), of seg local foreign]
        by (auto simp: tcp_arrives_ack_def pcb_def tcp_step_same_pcbs intro!: exI [of _ False])
    qed
  next
    case dat
    then show ?thesis using tcp_ack_data_ok [OF ok, of seg] by (auto simp: tcp_arrives_ack_def pcb_def)
  next
    case last
    let ?s1 = "upd_tcp_pcb i (\<lambda>pcb. pcb\<lparr>tstate := TCP_PCB_STATE_CLOSED\<rparr>) s"
    have s1: "tcp_step i s ?s1" using pok ok by (intro tcp_step_upd) (simp_all add: tpcb_ok_def pcb_def)
    note ok1 = tcp_step_ok [OF s1]
    have "tcp_step i s (tcp_pcb_release i ?s1)" using s1 tcp_step_release [OF ok1 ok(2)] by (rule tcp_step_trans)
    moreover have "tstate (tcp_pcbs (tcp_pcb_release i ?s1) ! i) \<in> {0, 1}"
      using tcp_pcb_release_ok [OF ok1 ok(2)] tcp_okD(3) [OF ok(1)] ok(2) by (simp add: zero_tcp_pcb_def)
    moreover have "tcp_edge 11 1" "tcp_edge 1 0" by (simp_all add: tcp_edge_simps)
    then have "tcp_edge\<^sup>*\<^sup>* 11 0" "tcp_edge\<^sup>*\<^sup>* 11 1" using tcp_edges_2 by auto
    ultimately show ?thesis using last tcp_step_refl [OF ok(1)] by (auto simp: tcp_arrives_ack_def pcb_def)
  next
    case other
    then show ?thesis using tcp_step_refl [OF ok(1)] by (auto simp: tcp_arrives_ack_def pcb_def)
  qed
qed

subsection \<open>Text and the end of the connection\<close>

lemma tcp_arrives_text_ok:
  assumes ok: "tcp_ok s" "i < 16" and len: "len \<le> length data" "len \<le> unat (rcv_wnd (tcp_pcbs s ! i))"
  defines "pcb \<equiv> tcp_pcbs s ! i"
  defines "used \<equiv> TCP_BUF_SIZE - unat (rcv_wnd pcb)"
  shows "\<exists>s'. tcp_arrives_text i seg data len s = Some s' \<and> tcp_step i s s' \<and>
    tcp_pcbs s' ! i =
      (if tstate pcb \<in> {TCP_PCB_STATE_ESTABLISHED, TCP_PCB_STATE_FIN_WAIT1, TCP_PCB_STATE_FIN_WAIT2} \<and> len \<noteq> 0
       then pcb\<lparr>tbuf := take used (tbuf pcb) @ take len data @ drop (used + len) (tbuf pcb),
                rcv_nxt := seg_seq seg + ucast (seg_len seg), rcv_wnd := rcv_wnd pcb - mk16 len,
                tctx := sched_wakeup (tctx pcb)\<rparr> else pcb)"
proof (cases "tstate pcb \<in> {TCP_PCB_STATE_ESTABLISHED, TCP_PCB_STATE_FIN_WAIT1, TCP_PCB_STATE_FIN_WAIT2} \<and> len \<noteq> 0")
  case False
  then show ?thesis using tcp_step_refl [OF ok(1)] by (auto simp: tcp_arrives_text_def pcb_def Let_def)
next
  case True
  let ?buf = "take used (tbuf pcb) @ take len data @ drop (used + len) (tbuf pcb)"
  let ?f = "\<lambda>pcb. pcb\<lparr>tbuf := ?buf, rcv_nxt := seg_seq seg + ucast (seg_len seg), rcv_wnd := rcv_wnd pcb - mk16 len\<rparr>"
  have pok: "tpcb_ok pcb" using tcp_okD(4) [OF ok] by (simp add: pcb_def)
  then have b: "length (tbuf pcb) = TCP_BUF_SIZE" by (simp add: tpcb_ok_def)
  have "used + len \<le> TCP_BUF_SIZE"
    using len(2) unat_u16_less [of "rcv_wnd pcb"] by (simp add: used_def pcb_def TCP_BUF_SIZE_def)
  then have buf: "wr_bytes (tbuf pcb) used (take len data) = Some ?buf" "length ?buf = TCP_BUF_SIZE"
    using len(1) b by (simp_all add: wr_bytes_def min_absorb2)
  have "tpcb_ok (?f (tcp_pcbs s ! i))" using pok buf(2) by (simp add: tpcb_ok_def pcb_def)
  from tcp_step_ack [where f = ?f, OF ok this]
  obtain r s1 where s1: "tcp_output i TCP_FLG_ACK [] 0 (upd_tcp_pcb i ?f s) = Some (r, s1)" "tcp_step i s s1"
    "tcp_pcbs s1 ! i = ?f pcb" by (auto simp: pcb_def)
  note ok1 = tcp_step_ok [OF s1(2)]
  have "rd_bytes data 0 len = Some (take len data)" using len(1) by (simp add: rd_bytes_def)
  then have "tcp_arrives_text i seg data len s = Some (tcp_wakeup i s1)"
    using True s1(1) buf(1) by (simp add: tcp_arrives_text_def Let_def pcb_def used_def)
  moreover have "tcp_step i s (tcp_wakeup i s1)" using s1(2) tcp_step_wakeup [OF ok1 ok(2)] by (rule tcp_step_trans)
  ultimately show ?thesis using True s1(3) tcp_okD(3) [OF ok1] ok(2) by auto
qed

definition pcb_fin :: "tcp_segment_info \<Rightarrow> tcp_pcb \<Rightarrow> tcp_pcb" where
  "pcb_fin seg pcb =
     (let p = pcb\<lparr>rcv_nxt := seg_seq seg + 1\<rparr>
      in if tstate pcb \<in> {TCP_PCB_STATE_SYN_RECEIVED, TCP_PCB_STATE_ESTABLISHED}
         then p\<lparr>tstate := TCP_PCB_STATE_CLOSE_WAIT, tctx := sched_wakeup (tctx pcb)\<rparr>
         else if tstate pcb = TCP_PCB_STATE_FIN_WAIT1
         then p\<lparr>tstate := if seg_ack seg = snd_nxt pcb then TCP_PCB_STATE_TIME_WAIT else TCP_PCB_STATE_CLOSING\<rparr>
         else if tstate pcb = TCP_PCB_STATE_FIN_WAIT2 then p\<lparr>tstate := TCP_PCB_STATE_TIME_WAIT\<rparr>
         else p)"

lemma tcp_arrives_fin_ok:
  assumes ok: "tcp_ok s" "i < 16"
  defines "pcb \<equiv> tcp_pcbs s ! i"
  shows "\<exists>s'. tcp_arrives_fin i seg flags s = Some s' \<and> tcp_step i s s' \<and>
    tcp_pcbs s' ! i = (if TCP_FLG_ISSET flags TCP_FLG_FIN \<and> tstate pcb \<notin> {TCP_PCB_STATE_CLOSED, TCP_PCB_STATE_LISTEN}
                       then pcb_fin seg pcb else pcb)"
proof (cases "TCP_FLG_ISSET flags TCP_FLG_FIN \<and> tstate pcb \<notin> {TCP_PCB_STATE_CLOSED, TCP_PCB_STATE_LISTEN}")
  case False
  then show ?thesis using tcp_step_refl [OF ok(1)] by (auto simp: tcp_arrives_fin_def pcb_def)
next
  case True
  let ?f = "\<lambda>pcb. pcb\<lparr>rcv_nxt := seg_seq seg + 1\<rparr>"
  have "tpcb_ok (?f (tcp_pcbs s ! i))" using tcp_okD(4) [OF ok] by (simp add: tpcb_ok_def)
  from tcp_step_ack [where f = ?f, OF ok this]
  obtain r s1 where s1: "tcp_output i TCP_FLG_ACK [] 0 (upd_tcp_pcb i ?f s) = Some (r, s1)" "tcp_step i s s1"
    "tcp_pcbs s1 ! i = ?f pcb" by (auto simp: pcb_def)
  note ok1 = tcp_step_ok [OF s1(2)] and len1 = tcp_okD(3) [OF tcp_step_ok [OF s1(2)]]
  have enter: "tcp_step i s (upd_tcp_pcb i (\<lambda>pcb. pcb\<lparr>tstate := st\<rparr>) s1)" if "0 \<le> st" "st \<le> 11" for st
    using that tcp_okD(4) [OF ok1 ok(2)] ok(2) ok1 by (intro tcp_step_trans [OF s1(2)] tcp_step_upd) (simp_all add: tpcb_ok_def)
  have wake: "tcp_step i s (tcp_wakeup i (upd_tcp_pcb i (\<lambda>pcb. pcb\<lparr>tstate := st\<rparr>) s1))" if "0 \<le> st" "st \<le> 11" for st
    using enter [OF that] tcp_step_wakeup [OF tcp_step_ok [OF enter [OF that]] ok(2)] by (rule tcp_step_trans)
  consider "tstate pcb \<in> {4, 5}" | "tstate pcb = 6" | "tstate pcb = 7" | "tstate pcb \<notin> {4, 5, 6, 7}" by blast
  then show ?thesis
  proof cases
    case 1
    then show ?thesis using True s1(1,3) wake [of 10] len1 ok(2)
      by (auto simp: tcp_arrives_fin_def pcb_fin_def Let_def pcb_def)
  next
    case 2
    then show ?thesis using True s1(1,3) enter [of 9] enter [of 8] len1 ok(2)
      by (auto simp: tcp_arrives_fin_def pcb_fin_def Let_def pcb_def)
  next
    case 3
    then show ?thesis using True s1(1,3) enter [of 9] len1 ok(2)
      by (auto simp: tcp_arrives_fin_def pcb_fin_def Let_def pcb_def)
  next
    case 4
    then show ?thesis using True s1 by (auto simp: tcp_arrives_fin_def pcb_fin_def Let_def pcb_def)
  qed
qed

section \<open>Arrival of a segment\<close>

text \<open>The states in which the text of a segment may be copied into the receive buffer.\<close>

definition tcp_takes_text :: "tcp_pcb \<Rightarrow> bool" where
  "tcp_takes_text pcb \<longleftrightarrow> tstate pcb \<in> {TCP_PCB_STATE_SYN_RECEIVED, TCP_PCB_STATE_ESTABLISHED, TCP_PCB_STATE_FIN_WAIT1,
     TCP_PCB_STATE_FIN_WAIT2}"

lemma tcp_edge_into_text: "tcp_edge\<^sup>*\<^sup>* a b \<Longrightarrow> b \<in> {5, 6, 7} \<Longrightarrow> a \<in> {2, 3, 4, 5, 6, 7}"
  by (induction rule: converse_rtranclp_induct) (auto simp: tcp_edge_simps)

lemma pcb_fin_edge:
  assumes "tstate pcb \<noteq> 4" "tstate pcb = 6 \<longrightarrow> seg_ack seg \<noteq> snd_nxt pcb"
  shows "tcp_edge\<^sup>*\<^sup>* (tstate pcb) (tstate (pcb_fin seg pcb))"
proof -
  have "tcp_edge 5 10" "tcp_edge 6 8" "tcp_edge 7 9" by (simp_all add: tcp_edge_simps)
  then have "tcp_edge\<^sup>*\<^sup>* 5 10" "tcp_edge\<^sup>*\<^sup>* 6 8" "tcp_edge\<^sup>*\<^sup>* 7 9" by auto
  then show ?thesis using assms by (simp add: pcb_fin_def Let_def)
qed

lemma tcp_arrives_other_ok:
  assumes ok: "tcp_ok s" "i < 16" and len: "len \<le> length data"
    and wnd: "tcp_takes_text (tcp_pcbs s ! i) \<longrightarrow> len \<le> unat (rcv_wnd (tcp_pcbs s ! i))"
  shows "\<exists>s'. tcp_arrives_other i seg flags data len local foreign s = Some s' \<and> tcp_step i s s' \<and>
    tcp_edge\<^sup>*\<^sup>* (tstate (tcp_pcbs s ! i)) (tstate (tcp_pcbs s' ! i))"
proof (cases "tcp_acceptable (tcp_pcbs s ! i) seg \<and> TCP_FLG_ISSET flags TCP_FLG_ACK")
  case False
  obtain r s' where "tcp_output i TCP_FLG_ACK [] 0 s = Some (r, s')" "tcp_step i s s'" "tcp_pcbs s' = tcp_pcbs s"
    using tcp_output_ack [OF ok] tcp_step_same_pcbs by blast
  then show ?thesis using False tcp_step_refl [OF ok(1)] by (auto simp: tcp_arrives_other_def)
next
  case True
  then have not23: "tstate (tcp_pcbs s ! i) \<notin> {2, 3}" by (auto simp: tcp_acceptable_def split: if_splits)
  obtain go s1 where s1: "tcp_arrives_ack i seg local foreign s = Some (go, s1)" "tcp_step i s s1"
      "tcp_edge\<^sup>*\<^sup>* (tstate (tcp_pcbs s ! i)) (tstate (tcp_pcbs s1 ! i))"
      "go \<longrightarrow> rcv_wnd (tcp_pcbs s1 ! i) = rcv_wnd (tcp_pcbs s ! i) \<and> tstate (tcp_pcbs s1 ! i) \<noteq> 4 \<and>
        (tstate (tcp_pcbs s1 ! i) = 6 \<longrightarrow> seg_ack seg \<noteq> snd_nxt (tcp_pcbs s1 ! i))"
    using tcp_arrives_ack_ok [OF ok, of seg local foreign] by auto
  note ok1 = tcp_step_ok [OF s1(2)]
  show ?thesis
  proof (cases go)
    case False
    then show ?thesis using True s1 by (simp add: tcp_arrives_other_def)
  next
    case go: True
    have "\<exists>s2. tcp_arrives_text i seg data len s1 = Some s2 \<and> tcp_step i s1 s2 \<and>
        tstate (tcp_pcbs s2 ! i) = tstate (tcp_pcbs s1 ! i) \<and> snd_nxt (tcp_pcbs s2 ! i) = snd_nxt (tcp_pcbs s1 ! i)"
    proof (cases "tstate (tcp_pcbs s1 ! i) \<in> {5, 6, 7}")
      case True
      then have "tcp_takes_text (tcp_pcbs s ! i)"
        using tcp_edge_into_text [OF s1(3)] not23 by (auto simp: tcp_takes_text_def)
      then have "len \<le> unat (rcv_wnd (tcp_pcbs s1 ! i))" using wnd s1(4) go by simp
      from tcp_arrives_text_ok [OF ok1 ok(2) len this, of seg] show ?thesis by auto
    next
      case False
      then show ?thesis using tcp_step_refl [OF ok1] by (auto simp: tcp_arrives_text_def Let_def)
    qed
    then obtain s2 where s2: "tcp_arrives_text i seg data len s1 = Some s2" "tcp_step i s1 s2"
      "tstate (tcp_pcbs s2 ! i) = tstate (tcp_pcbs s1 ! i)" "snd_nxt (tcp_pcbs s2 ! i) = snd_nxt (tcp_pcbs s1 ! i)" by blast
    obtain s3 where s3: "tcp_arrives_fin i seg flags s2 = Some s3" "tcp_step i s2 s3"
      "tcp_pcbs s3 ! i = tcp_pcbs s2 ! i \<or> tcp_pcbs s3 ! i = pcb_fin seg (tcp_pcbs s2 ! i)"
      using tcp_arrives_fin_ok [OF tcp_step_ok [OF s2(2)] ok(2), of seg flags] by (auto split: if_splits)
    have "tcp_edge\<^sup>*\<^sup>* (tstate (tcp_pcbs s2 ! i)) (tstate (pcb_fin seg (tcp_pcbs s2 ! i)))"
      using s1(4) go by (intro pcb_fin_edge) (simp_all add: s2(3,4))
    then have "tcp_edge\<^sup>*\<^sup>* (tstate (tcp_pcbs s1 ! i)) (tstate (tcp_pcbs s3 ! i))"
      using s3(3) s2(3) by auto
    with s1(3) have "tcp_edge\<^sup>*\<^sup>* (tstate (tcp_pcbs s ! i)) (tstate (tcp_pcbs s3 ! i))" by (rule rtranclp_trans)
    moreover have "tcp_step i s s3" using s1(2) s2(2) s3(2) tcp_step_trans by blast
    ultimately show ?thesis using True go s1(1) s2(1) s3(1) by (simp add: tcp_arrives_other_def)
  qed
qed

lemma tcp_segment_arrives_ok:
  assumes ok: "tcp_ok s" and len: "len \<le> length data"
    and wnd: "\<forall>i. tcp_pcb_select local (Some foreign) (tcp_pcbs s) = Some i \<and> tcp_takes_text (tcp_pcbs s ! i) \<longrightarrow>
      len \<le> unat (rcv_wnd (tcp_pcbs s ! i))"
  shows "\<exists>s'. tcp_segment_arrives seg flags data len local foreign s = Some s' \<and> tcp_ok s' \<and> stack_frame s s' \<and>
    (\<forall>i. if tcp_pcb_select local (Some foreign) (tcp_pcbs s) = Some i
         then tcp_edge\<^sup>*\<^sup>* (tstate (tcp_pcbs s ! i)) (tstate (tcp_pcbs s' ! i))
         else tcp_pcbs s' ! i = tcp_pcbs s ! i)"
proof (cases "tcp_pcb_select local (Some foreign) (tcp_pcbs s)")
  case None
  then show ?thesis using tcp_arrives_closed_ok [OF ok, of seg flags local foreign]
    by (auto simp: tcp_segment_arrives_def)
next
  case (Some i)
  then have i: "i < 16" using tcp_select_SomeD(1) [OF Some] tcp_okD(3) [OF ok] by simp
  let ?st = "tstate (tcp_pcbs s ! i)"
  have "\<exists>s'. tcp_segment_arrives seg flags data len local foreign s = Some s' \<and> tcp_step i s s' \<and>
      tcp_edge\<^sup>*\<^sup>* ?st (tstate (tcp_pcbs s' ! i))"
  proof -
    obtain rs where rs: "tcp_reset seg local foreign s = Some rs" "tcp_step i s rs" "tcp_pcbs rs = tcp_pcbs s"
      using tcp_reset_ok [OF ok, of seg local foreign] tcp_step_same_pcbs by blast
    consider (closed) "?st = 1" | (listen) "?st = 2" | (syn_sent) "?st = 3" | (other) "?st \<notin> {1, 2, 3}" by blast
    then show ?thesis
    proof cases
      case closed
      then show ?thesis using Some tcp_arrives_closed_ok [OF ok, of seg flags local foreign]
        by (auto simp: tcp_segment_arrives_def tcp_step_same_pcbs)
    next
      case listen
      have e: "tcp_edge 2 4" by (simp add: tcp_edge_simps)
      have "\<exists>s'. tcp_arrives_listen i seg flags local foreign s = Some s' \<and> tcp_step i s s' \<and> tstate (tcp_pcbs s' ! i) \<in> {2, 4}"
      proof (cases "\<not> TCP_FLG_ISSET flags TCP_FLG_RST \<and> \<not> TCP_FLG_ISSET flags TCP_FLG_ACK \<and> TCP_FLG_ISSET flags TCP_FLG_SYN")
        case True
        then show ?thesis using tcp_arrives_listen_syn [OF ok i, of flags seg local foreign] by auto
      next
        case False
        then have "tcp_arrives_listen i seg flags local foreign s \<in> {Some s, Some rs}"
          using rs(1) by (auto simp: tcp_arrives_listen_def)
        then show ?thesis using rs(2,3) tcp_step_refl [OF ok] listen by auto
      qed
      then show ?thesis using Some listen r_into_rtranclp [of tcp_edge, OF e] by (auto simp: tcp_segment_arrives_def)
    next
      case syn_sent
      have "tcp_edge 3 4" "tcp_edge 3 5" by (simp_all add: tcp_edge_simps)
      then have e: "tcp_edge\<^sup>*\<^sup>* 3 4" "tcp_edge\<^sup>*\<^sup>* 3 5" by auto
      have "\<exists>s'. tcp_arrives_syn_sent i seg flags local foreign s = Some s' \<and> tcp_step i s s' \<and>
          tstate (tcp_pcbs s' ! i) \<in> {3, 4, 5}"
      proof (cases "TCP_FLG_ISSET flags TCP_FLG_SYN \<and> \<not> (TCP_FLG_ISSET flags TCP_FLG_ACK \<and>
          (seg_ack seg \<le> iss (tcp_pcbs s ! i) \<or> seg_ack seg > snd_nxt (tcp_pcbs s ! i)))")
        case True
        then show ?thesis
          using tcp_arrives_syn_sent_syn [OF ok i, of flags seg local foreign] by (auto simp: Let_def split: if_splits)
      next
        case False
        then show ?thesis
          using tcp_arrives_syn_sent_eq [OF ok i, of seg flags local foreign] rs tcp_step_refl [OF ok] syn_sent by auto
      qed
      then show ?thesis using Some syn_sent e by (auto simp: tcp_segment_arrives_def)
    next
      case other
      have "tcp_takes_text (tcp_pcbs s ! i) \<longrightarrow> len \<le> unat (rcv_wnd (tcp_pcbs s ! i))" using wnd Some by blast
      from tcp_arrives_other_ok [OF ok i len this, of seg flags local foreign] show ?thesis
        using Some other by (simp add: tcp_segment_arrives_def)
    qed
  qed
  then obtain s' where "tcp_segment_arrives seg flags data len local foreign s = Some s'" "tcp_step i s s'"
    "tcp_edge\<^sup>*\<^sup>* ?st (tstate (tcp_pcbs s' ! i))" by blast
  then show ?thesis using Some by (intro exI [of _ s']) (simp add: tcp_step_def)
qed

section \<open>Input\<close>

text \<open>The length of the header that a segment states, and what is handed on of the segment.\<close>

definition tcp_hlen :: "bytes \<Rightarrow> nat" where
  "tcp_hlen data = unat (data ! 12) div 16 * 4"

definition tcp_info :: "u32 \<Rightarrow> u32 \<Rightarrow> u8 \<Rightarrow> u16 \<Rightarrow> u16 \<Rightarrow> nat \<Rightarrow> tcp_segment_info" where
  "tcp_info sq ak flg wnd up n =
     \<lparr>seg_seq = sq, seg_ack = ak, seg_len = mk16 n + (if TCP_FLG_ISSET flg TCP_FLG_SYN then 1 else 0) +
        (if TCP_FLG_ISSET flg TCP_FLG_FIN then 1 else 0), seg_wnd = wnd, seg_up = up\<rparr>"

lemma less_add_ucast:
  fixes a :: u32 and w :: u16
  assumes "unat a + unat w < 2 ^ 32" "w \<noteq> 0"
  shows "a < a + ucast w"
proof -
  have w: "unat (ucast w :: u32) = unat w" using unat_u16_less [of w] by (simp add: unsigned_ucast_eq take_bit_nat_eq_self)
  then have "unat (a + ucast w) = unat a + unat w" using assms(1) by (subst unat_plus_if_size) (simp add: word_size)
  moreover have "0 < unat w" using assms(2) by (simp add: unat_gt_0)
  ultimately show ?thesis by (simp add: word_less_nat_alt)
qed

lemma tcp_input_cases:
  assumes "len \<le> length data" "20 \<le> len" "len < 65536" "h = host_order s"
    and rd: "rd16 h data 0 = Some sp" "rd16 h data 2 = Some dp" "rd32 h data 4 = Some sq" "rd32 h data 8 = Some ak"
      "rd8 data 12 = Some off" "rd8 data 13 = Some flg" "rd16 h data 14 = Some wnd" "rd16 h data 18 = Some up"
  shows "tcp_input data len src dst f s =
    (if inet_checksum (pseudo_sum h src dst IP_PROTOCOL_TCP len + sum16 h (take len data)) \<noteq> 0 \<or>
        src = IP_ADDR_BROADCAST \<or> src = broadcast f \<or> dst = IP_ADDR_BROADCAST \<or> dst = broadcast f
     then Some s
     else let n = size_of_int (int len - int (unat off div 16 * 4))
          in tcp_segment_arrives (tcp_info (ntoh32 h sq) (ntoh32 h ak) flg (ntoh16 h wnd) (ntoh16 h up) n) flg
               (drop (unat off div 16 * 4) data) n \<lparr>ep_addr = dst, ep_port = dp\<rparr> \<lparr>ep_addr = src, ep_port = sp\<rparr> s)"
proof -
  have l: "unat (mk16 len) = len" using assms(3) by simp
  have "cksum16 h data (mk16 len) (mk32 (unat (NOT (inet_checksum m)))) =
      Some (inet_checksum (ones_sum m + sum16 h (take len data)))" for m
    using assms(1) l unat_pseudo by (subst cksum16_eq) simp_all
  moreover have "\<not> len < 20" using assms(2) by simp
  ultimately show ?thesis
    by (simp add: tcp_input_def Let_def pseudo_cksum pseudo_sum_def tcp_info_def rd flip: assms(4))
qed

lemma size_of_int_diff: "b \<le> a \<Longrightarrow> a < 18446744073709551616 \<Longrightarrow> size_of_int (int a - int b) = a - b"
  unfolding size_of_int_def by (subst mod_pos_pos_trivial) simp_all

lemma rd_tcp_hdr:
  assumes "data = tcp_hdr h sp dp sq ak off flg wnd sm up @ rest"
  shows "rd16 h data 0 = Some sp" "rd16 h data 2 = Some dp" "rd32 h data 4 = Some (hton32 h sq)"
    "rd32 h data 8 = Some (hton32 h ak)" "rd8 data 12 = Some off" "rd8 data 13 = Some flg"
    "rd16 h data 14 = Some (hton16 h wnd)" "rd16 h data 18 = Some up"
  unfolding assms tcp_hdr_def by (simp_all add: rd_skip rd_here rd_skip_Cons)

lemma tcp_segment_split:
  obtains sm where "tcp_segment h sq ak flg wnd payload src dst =
    tcp_hdr h (ep_port src) (ep_port dst) sq ak 0x50 flg wnd sm 0 @ payload"
  by (simp add: tcp_segment_def Let_def)

lemma tcp_input_segment:
  assumes payload: "length payload \<le> 65495"
    and uni: "ep_addr src \<noteq> IP_ADDR_BROADCAST" "ep_addr src \<noteq> broadcast f" "ep_addr dst \<noteq> IP_ADDR_BROADCAST"
      "ep_addr dst \<noteq> broadcast f"
  shows "tcp_input (tcp_segment (host_order s) sq ak flg wnd payload src dst @ pad) (20 + length payload)
      (ep_addr src) (ep_addr dst) f s =
    tcp_segment_arrives (tcp_info sq ak flg wnd 0 (length payload)) flg (payload @ pad) (length payload) dst src s"
proof -
  let ?h = "host_order s" and ?len = "20 + length payload"
  let ?data = "tcp_segment ?h sq ak flg wnd payload src dst @ pad"
  obtain sm where seg: "tcp_segment ?h sq ak flg wnd payload src dst =
      tcp_hdr ?h (ep_port src) (ep_port dst) sq ak 0x50 flg wnd sm 0 @ payload" by (rule tcp_segment_split)
  have rd: "rd16 ?h ?data 0 = Some (ep_port src)" "rd16 ?h ?data 2 = Some (ep_port dst)"
    "rd32 ?h ?data 4 = Some (hton32 ?h sq)" "rd32 ?h ?data 8 = Some (hton32 ?h ak)" "rd8 ?data 12 = Some 0x50"
    "rd8 ?data 13 = Some flg" "rd16 ?h ?data 14 = Some (hton16 ?h wnd)" "rd16 ?h ?data 18 = Some 0"
    by (rule rd_tcp_hdr; simp add: seg)+
  have "drop 20 ?data = payload @ pad" unfolding seg by simp
  moreover have "take ?len ?data = tcp_segment ?h sq ak flg wnd payload src dst" by simp
  moreover have "size_of_int (int ?len - int 20) = length payload"
    using payload by (subst size_of_int_diff) simp_all
  moreover have ep: "\<lparr>ep_addr = ep_addr e, ep_port = ep_port e\<rparr> = e" for e :: ip_endpoint by simp
  moreover have "ntoh16 ?h 0 = 0" using conversion_inverse(1) [of ?h 0] by simp
  ultimately show ?thesis
    using tcp_input_cases [OF _ _ _ refl rd, of ?len "ep_addr src" "ep_addr dst" f] payload uni tcp_segment_verifies
    by (simp add: Let_def ep)
qed

text \<open>
  C19. The states of a connection. Whatever segment arrives (with text that fits the receive window
  of the control block it is for), the processing is defined and returns, the invariant of the control
  blocks holds again, and of all control blocks only the one that the segment is for can change,
  its state only along edges of the connection diagram of RFC 793.
\<close>

theorem tcp_arrival_transitions:
  assumes "tcp_ok s" and "len \<le> length data"
    and "\<forall>i. tcp_pcb_select local (Some foreign) (tcp_pcbs s) = Some i \<and> tcp_takes_text (tcp_pcbs s ! i) \<longrightarrow>
      len \<le> unat (rcv_wnd (tcp_pcbs s ! i))"
  shows "\<exists>s'. tcp_segment_arrives seg flags data len local foreign s = Some s' \<and> tcp_ok s' \<and> stack_frame s s' \<and>
    (\<forall>i. if tcp_pcb_select local (Some foreign) (tcp_pcbs s) = Some i
         then tcp_edge\<^sup>*\<^sup>* (tstate (tcp_pcbs s ! i)) (tstate (tcp_pcbs s' ! i))
         else tcp_pcbs s' ! i = tcp_pcbs s ! i)"
  using assms by (rule tcp_segment_arrives_ok)

lemma tcp_input_ok:
  assumes ok: "tcp_ok s" and len: "len \<le> length data" "len < 65536" and hl: "tcp_hlen data \<le> len"
    and wnd: "\<forall>i < 16. tcp_takes_text (tcp_pcbs s ! i) \<longrightarrow> len - tcp_hlen data \<le> unat (rcv_wnd (tcp_pcbs s ! i))"
  shows "\<exists>s'. tcp_input data len src dst f s = Some s' \<and> tcp_ok s' \<and> stack_frame s s' \<and>
    (\<exists>k. \<forall>j. j \<noteq> k \<longrightarrow> tcp_pcbs s' ! j = tcp_pcbs s ! j)"
proof (cases "20 \<le> len")
  case False
  then show ?thesis using ok by (auto simp: tcp_input_def)
next
  case True
  let ?h = "host_order s" and ?n = "len - tcp_hlen data"
  obtain sp dp wn up where rd16: "rd16 ?h data 0 = Some sp" "rd16 ?h data 2 = Some dp" "rd16 ?h data 14 = Some wn" "rd16 ?h data 18 = Some up"
    using True len(1) rd_Some(2) [of 0 data ?h] rd_Some(2) [of 2 data ?h] rd_Some(2) [of 14 data ?h] rd_Some(2) [of 18 data ?h]
    by auto
  obtain sq ak where rd32: "rd32 ?h data 4 = Some sq" "rd32 ?h data 8 = Some ak"
    using True len(1) rd_Some(3) [of 4 data ?h] rd_Some(3) [of 8 data ?h] by auto
  have rd8: "rd8 data 12 = Some (data ! 12)" "rd8 data 13 = Some (data ! 13)" using True len(1) by (simp_all add: rd_Some)
  have n: "size_of_int (int len - int (unat (data ! 12) div 16 * 4)) = ?n"
    using hl len(2) unfolding tcp_hlen_def by (intro size_of_int_diff) simp_all
  let ?l = "\<lparr>ep_addr = dst, ep_port = dp\<rparr>" and ?f = "\<lparr>ep_addr = src, ep_port = sp\<rparr>"
  have "?n \<le> length (drop (tcp_hlen data) data)" using len(1) by simp
  moreover have "\<forall>i. tcp_pcb_select ?l (Some ?f) (tcp_pcbs s) = Some i \<and> tcp_takes_text (tcp_pcbs s ! i) \<longrightarrow>
      ?n \<le> unat (rcv_wnd (tcp_pcbs s ! i))"
    using wnd tcp_select_SomeD(1) tcp_okD(3) [OF ok] by metis
  ultimately obtain s' where s': "tcp_segment_arrives (tcp_info (ntoh32 ?h sq) (ntoh32 ?h ak) (data ! 13) (ntoh16 ?h wn) (ntoh16 ?h up) ?n)
      (data ! 13) (drop (tcp_hlen data) data) ?n ?l ?f s = Some s'" "tcp_ok s'" "stack_frame s s'"
      "\<forall>i. if tcp_pcb_select ?l (Some ?f) (tcp_pcbs s) = Some i
         then tcp_edge\<^sup>*\<^sup>* (tstate (tcp_pcbs s ! i)) (tstate (tcp_pcbs s' ! i)) else tcp_pcbs s' ! i = tcp_pcbs s ! i"
    using tcp_segment_arrives_ok [OF ok] by meson
  have "\<exists>k. \<forall>j. j \<noteq> k \<longrightarrow> tcp_pcbs s' ! j = tcp_pcbs s ! j" using s'(4) by (metis option.inject)
  then show ?thesis
    using tcp_input_cases [OF len(1) True len(2) refl rd16(1,2) rd32 rd8 rd16(3,4), of src dst f] s'(1-3) ok
    unfolding n Let_def tcp_hlen_def by auto
qed

text \<open>In-order data for an established connection.\<close>

lemma tcp_data_arrives:
  fixes w
  assumes ok: "tcp_ok s" and sel: "tcp_pcb_select local (Some foreign) (tcp_pcbs s) = Some i"
    and st: "tstate (tcp_pcbs s ! i) = TCP_PCB_STATE_ESTABLISHED"
    and flags: "TCP_FLG_ISSET flags TCP_FLG_ACK" "\<not> TCP_FLG_ISSET flags TCP_FLG_SYN" "\<not> TCP_FLG_ISSET flags TCP_FLG_FIN"
    and n: "n \<noteq> 0" "n \<le> unat (rcv_wnd (tcp_pcbs s ! i))" "n \<le> length data"
    and num: "unat (rcv_nxt (tcp_pcbs s ! i)) + unat (rcv_wnd (tcp_pcbs s ! i)) < 2 ^ 32"
    and ak: "ak \<le> snd_nxt (tcp_pcbs s ! i)"
  defines "pcb \<equiv> tcp_pcbs s ! i"
  defines "seg \<equiv> tcp_info (rcv_nxt (tcp_pcbs s ! i)) ak flags w 0 n"
  defines "used \<equiv> TCP_BUF_SIZE - unat (rcv_wnd (tcp_pcbs s ! i))"
  shows "\<exists>s'. tcp_segment_arrives seg flags data n local foreign s = Some s' \<and> tcp_step i s s' \<and>
    tcp_pcbs s' ! i = (pcb_acked seg pcb)\<lparr>tbuf := take used (tbuf pcb) @ take n data @ drop (used + n) (tbuf pcb),
      rcv_nxt := rcv_nxt pcb + mk32 n, rcv_wnd := rcv_wnd pcb - mk16 n, tctx := sched_wakeup (tctx (pcb_acked seg pcb))\<rparr>"
proof -
  have i: "i < 16" using tcp_select_SomeD(1) [OF sel] tcp_okD(3) [OF ok] by simp
  have n16: "n < 65536" using n(2) unat_u16_less [of "rcv_wnd pcb"] by (simp add: pcb_def)
  have seg: "seg_seq seg = rcv_nxt pcb" "seg_ack seg = ak" "seg_len seg = mk16 n"
    using flags by (simp_all add: seg_def tcp_info_def pcb_def)
  have n32: "ucast (mk16 n) = mk32 n" using n16 by (simp add: word_unat_eq_iff unsigned_ucast_eq take_bit_nat_eq_self)
  have wnd: "rcv_wnd pcb \<noteq> 0" using n by (auto simp: pcb_def)
  have "rcv_nxt pcb < rcv_nxt pcb + ucast (rcv_wnd pcb)" using num wnd unfolding pcb_def by (rule less_add_ucast)
  moreover have "mk16 n \<noteq> 0" using n(1) n16 by (auto simp: word_unat_eq_iff)
  ultimately have acc: "tcp_acceptable pcb seg"
    using st wnd by (simp add: tcp_acceptable_def tcp_in_window_def seg pcb_def)
  let ?s1 = "upd_tcp_pcb i (pcb_acked seg) s"
  have ack: "tcp_arrives_ack i seg local foreign s = Some (True, ?s1)"
    using ak st by (intro tcp_arrives_ack_data [OF ok i]) (simp_all add: seg)
  have s1: "tcp_step i s ?s1" using tcp_okD(4) [OF ok i] by (intro tcp_step_upd [OF ok i] tpcb_ok_acked)
  have nth: "tcp_pcbs ?s1 ! i = pcb_acked seg pcb" unfolding pcb_def using ok i by (rule tcp_step_upd_nth)
  have "n \<le> unat (rcv_wnd (tcp_pcbs ?s1 ! i))" using n(2) unfolding nth pcb_acked_fields by (simp add: pcb_def)
  from tcp_arrives_text_ok [OF tcp_step_ok [OF s1] i n(3) this, of seg]
  obtain s2 where s2: "tcp_arrives_text i seg data n ?s1 = Some s2" "tcp_step i ?s1 s2"
      "tcp_pcbs s2 ! i = (pcb_acked seg pcb)\<lparr>tbuf := take used (tbuf pcb) @ take n data @ drop (used + n) (tbuf pcb),
        rcv_nxt := rcv_nxt pcb + mk32 n, rcv_wnd := rcv_wnd pcb - mk16 n, tctx := sched_wakeup (tctx (pcb_acked seg pcb))\<rparr>"
    using st n(1) unfolding nth pcb_acked_fields by (auto simp: pcb_def used_def seg n32)
  have "tcp_segment_arrives seg flags data n local foreign s = Some s2"
    using sel st acc ack s2(1) flags by (simp add: tcp_segment_arrives_def tcp_arrives_other_def tcp_arrives_fin_def pcb_def)
  then show ?thesis using s2(3) tcp_step_trans [OF s1 s2(2)] by blast
qed

text \<open>
  C34. The receive buffer can be overrun: a segment of an established connection that starts at the next expected
  sequence number is acceptable although it is longer than the receive window, and its text is
  copied past the end of the buffer.
\<close>

theorem tcp_input_overflow:
  assumes ok: "tcp_ok s" and sel: "tcp_pcb_select dst (Some src) (tcp_pcbs s) = Some i"
    and st: "tstate (tcp_pcbs s ! i) = TCP_PCB_STATE_ESTABLISHED"
    and wnd: "rcv_wnd (tcp_pcbs s ! i) \<noteq> 0" "unat (rcv_wnd (tcp_pcbs s ! i)) < length payload" "length payload \<le> 65495"
    and num: "unat (rcv_nxt (tcp_pcbs s ! i)) + unat (rcv_wnd (tcp_pcbs s ! i)) < 2 ^ 32"
      "snd_una (tcp_pcbs s ! i) \<le> snd_nxt (tcp_pcbs s ! i)"
    and uni: "ep_addr src \<noteq> IP_ADDR_BROADCAST" "ep_addr src \<noteq> broadcast f" "ep_addr dst \<noteq> IP_ADDR_BROADCAST"
      "ep_addr dst \<noteq> broadcast f"
  shows "tcp_input (tcp_segment (host_order s) (rcv_nxt (tcp_pcbs s ! i)) (snd_una (tcp_pcbs s ! i)) TCP_FLG_ACK w payload src dst)
    (20 + length payload) (ep_addr src) (ep_addr dst) f s = None"
proof -
  let ?pcb = "tcp_pcbs s ! i" and ?n = "length payload"
  define seg where "seg = tcp_info (rcv_nxt ?pcb) (snd_una ?pcb) TCP_FLG_ACK w 0 ?n"
  have i: "i < 16" using tcp_select_SomeD(1) [OF sel] tcp_okD(3) [OF ok] by simp
  have flags: "TCP_FLG_ISSET TCP_FLG_ACK TCP_FLG_ACK" "\<not> TCP_FLG_ISSET TCP_FLG_ACK TCP_FLG_SYN" "\<not> TCP_FLG_ISSET TCP_FLG_ACK TCP_FLG_FIN"
    by (simp_all add: TCP_FLG_ISSET_def)
  have "rcv_nxt ?pcb < rcv_nxt ?pcb + ucast (rcv_wnd ?pcb)" using num(1) wnd(1) by (rule less_add_ucast)
  moreover have "mk16 ?n \<noteq> 0" using wnd(2,3) by (auto simp: word_unat_eq_iff)
  ultimately have acc: "tcp_acceptable ?pcb seg"
    using st wnd(1) flags by (simp add: tcp_acceptable_def tcp_in_window_def tcp_info_def seg_def)
  let ?s1 = "upd_tcp_pcb i (pcb_acked seg) s"
  have ack: "tcp_arrives_ack i seg dst src s = Some (True, ?s1)"
    using num(2) st by (intro tcp_arrives_ack_data [OF ok i]) (simp_all add: seg_def tcp_info_def)
  have nth: "tcp_pcbs ?s1 ! i = pcb_acked seg ?pcb" using ok i by (rule tcp_step_upd_nth)
  have "length (tbuf ?pcb) = TCP_BUF_SIZE" using tcp_okD(4) [OF ok i] by (simp add: tpcb_ok_def)
  then have "wr_bytes (tbuf ?pcb) (TCP_BUF_SIZE - unat (rcv_wnd ?pcb)) payload = None"
    using wnd(2) unat_u16_less [of "rcv_wnd ?pcb"] by (simp add: wr_bytes_def TCP_BUF_SIZE_def)
  then have "tcp_arrives_text i seg payload ?n ?s1 = None"
    using wnd(2) st by (auto simp: tcp_arrives_text_def Let_def nth pcb_acked_fields simp del: tcp_pcbs_upd)
  then have "tcp_arrives_other i seg TCP_FLG_ACK payload ?n dst src s = None"
    using acc flags(1) ack by (simp add: tcp_arrives_other_def)
  moreover have "tcp_segment_arrives seg TCP_FLG_ACK payload ?n dst src s = tcp_arrives_other i seg TCP_FLG_ACK payload ?n dst src s"
    using sel st by (simp add: tcp_segment_arrives_def)
  ultimately show ?thesis
    using tcp_input_segment [OF wnd(3) uni, of s "rcv_nxt ?pcb" "snd_una ?pcb" TCP_FLG_ACK w "[]"] by (simp add: seg_def)
qed

section \<open>Evaluation\<close>

abbreviation "host_b st \<equiv> tcp_example 0x0A000002 [pcb_example st ep_b ep_a]"

theorem tcp_arrival_transitions_witness:
  "\<exists>s'. tcp_segment_arrives (tcp_info 0 0 TCP_FLG_ACK 7 0 3) TCP_FLG_ACK [1, 2, 3] 3 ep_b ep_a (host_b 5) = Some s' \<and>
     tcp_edge\<^sup>*\<^sup>* 5 (tstate (tcp_pcbs s' ! 0))"
proof -
  note sel = tcp_example_select [of ep_b ep_a "0x0A000002" 5]
  have "\<forall>i. tcp_pcb_select ep_b (Some ep_a) (tcp_pcbs (host_b 5)) = Some i \<and> tcp_takes_text (tcp_pcbs (host_b 5) ! i) \<longrightarrow>
      3 \<le> unat (rcv_wnd (tcp_pcbs (host_b 5) ! i))"
    unfolding sel by auto
  from tcp_arrival_transitions [OF tcp_ok_one _ this, of "[1, 2, 3]" "tcp_info 0 0 TCP_FLG_ACK 7 0 3" TCP_FLG_ACK]
  show ?thesis unfolding sel by (auto dest: spec [of _ 0])
qed

theorem tcp_input_overflow_witness:
  "tcp_input (tcp_segment Big 0 0 TCP_FLG_ACK 7 (replicate 1001 0) ep_a ep_b) 1021 0x0A000001 0x0A000002 (host_iface 0x0A000002) (host_b 5) = None"
  using tcp_input_overflow [where s = "host_b 5" and dst = ep_b and src = ep_a and i = 0 and payload = "replicate 1001 0"
      and f = "host_iface 0x0A000002" and w = 7] tcp_ok_one [of 5] tcp_example_select
  by (simp add: tcp_example_simps(2) host_iface_def IP_ADDR_BROADCAST_def)

end
