(* ===== verification/Byte_Stream.thy ===== *)
theory Byte_Stream
  imports Prelude
begin

text \<open>
  The interface of a byte stream between an arriving side and a reading side: bytes that arrive are
  appended to what is unread, a delivery takes bytes from its front. Whatever order arrivals and
  deliveries come in, the bytes delivered are the bytes that arrived, in order and without gaps.
\<close>

datatype stream_op = Arrive bytes | Deliver nat

fun arrived :: "stream_op list \<Rightarrow> bytes" where
  "arrived [] = []"
| "arrived (Arrive d # os) = d @ arrived os"
| "arrived (Deliver n # os) = arrived os"

fun stream_run ::
  "(bytes \<Rightarrow> 's \<Rightarrow> 's option) \<Rightarrow> (nat \<Rightarrow> 's \<Rightarrow> (bytes \<times> 's) option) \<Rightarrow> stream_op list \<Rightarrow> 's \<Rightarrow> (bytes \<times> 's) option" where
  "stream_run arrive deliver [] s = Some ([], s)"
| "stream_run arrive deliver (Arrive d # os) s = do { s \<leftarrow> arrive d s; stream_run arrive deliver os s }"
| "stream_run arrive deliver (Deliver n # os) s = do {
     (b, s) \<leftarrow> deliver n s;
     (bs, s) \<leftarrow> stream_run arrive deliver os s;
     Some (b @ bs, s)
   }"

text \<open>A sequence is valid when every arrival, at its point of the sequence, fits and every delivery has something to deliver.\<close>

fun stream_valid ::
  "('s \<Rightarrow> bytes) \<Rightarrow> (bytes \<Rightarrow> 's \<Rightarrow> bool) \<Rightarrow> (bytes \<Rightarrow> 's \<Rightarrow> 's option) \<Rightarrow> (nat \<Rightarrow> 's \<Rightarrow> (bytes \<times> 's) option) \<Rightarrow>
   stream_op list \<Rightarrow> 's \<Rightarrow> bool" where
  "stream_valid unread fits arrive deliver [] s = True"
| "stream_valid unread fits arrive deliver (Arrive d # os) s \<longleftrightarrow>
     fits d s \<and> (case arrive d s of None \<Rightarrow> True | Some s \<Rightarrow> stream_valid unread fits arrive deliver os s)"
| "stream_valid unread fits arrive deliver (Deliver n # os) s \<longleftrightarrow>
     unread s \<noteq> [] \<and> (case deliver n s of None \<Rightarrow> True | Some (_, s) \<Rightarrow> stream_valid unread fits arrive deliver os s)"

locale byte_stream =
  fixes conn :: "'s \<Rightarrow> bool"
    and unread :: "'s \<Rightarrow> bytes"
    and fits :: "bytes \<Rightarrow> 's \<Rightarrow> bool"
    and arrive :: "bytes \<Rightarrow> 's \<Rightarrow> 's option"
    and deliver :: "nat \<Rightarrow> 's \<Rightarrow> (bytes \<times> 's) option"
  assumes arrive_appends: "conn s \<Longrightarrow> fits d s \<Longrightarrow> \<exists>s'. arrive d s = Some s' \<and> conn s' \<and> unread s' = unread s @ d"
    and deliver_takes: "conn s \<Longrightarrow> unread s \<noteq> [] \<Longrightarrow>
      \<exists>s'. deliver n s = Some (take n (unread s), s') \<and> conn s' \<and> unread s' = drop n (unread s)"
begin

lemma stream_in_order:
  assumes "conn s" "stream_valid unread fits arrive deliver os s"
  shows "\<exists>out s'. stream_run arrive deliver os s = Some (out, s') \<and> conn s' \<and> out @ unread s' = unread s @ arrived os"
  using assms
proof (induction os arbitrary: s)
  case Nil
  then show ?case by simp
next
  case (Cons op os)
  show ?case
  proof (cases op)
    case (Arrive d)
    then obtain s1 where s1: "arrive d s = Some s1" "conn s1" "unread s1 = unread s @ d"
      using arrive_appends [OF Cons.prems(1)] Cons.prems(2) by auto
    then show ?thesis using Cons.IH [OF s1(2)] Cons.prems(2) Arrive by auto
  next
    case (Deliver n)
    then obtain s1 where s1: "deliver n s = Some (take n (unread s), s1)" "conn s1" "unread s1 = drop n (unread s)"
      using deliver_takes [OF Cons.prems(1)] Cons.prems(2) by fastforce
    with Cons.IH [OF s1(2)] Cons.prems(2) Deliver obtain out s'
      where "stream_run arrive deliver os s1 = Some (out, s')" "conn s'" "out @ unread s' = drop n (unread s) @ arrived os" by auto
    moreover from this(3) have "(take n (unread s) @ out) @ unread s' = unread s @ arrived os"
      by (metis append_assoc append_take_drop_id)
    ultimately show ?thesis using Deliver s1(1) by simp
  qed
qed

end

end
