(* ===== verification/Tcp_User.thy ===== *)
theory Tcp_User
  imports Tcp_Input Byte_Stream
begin

text \<open>
  The user commands of \<^verbatim>\<open>tcp.c\<close>: \<^verbatim>\<open>tcp_open_rfc793\<close>, \<^verbatim>\<open>tcp_close\<close>, \<^verbatim>\<open>tcp_send\<close> and \<^verbatim>\<open>tcp_receive\<close>. A command
  returns, or waits with the values of the local variables that it needs after the wait; the
  definitions with \<open>resume\<close> in their name continue it with the result of the wait.
\<close>

section \<open>Model\<close>

datatype ('r, 'k) command = Returned 'r | Waiting 'k

text \<open>The error exit of several commands: the control block is closed and released.\<close>

definition tcp_abort :: "nat \<Rightarrow> 'z tcp_scheme \<Rightarrow> 'z tcp_scheme" where
  "tcp_abort i s = tcp_pcb_release i (upd_tcp_pcb i (\<lambda>pcb. pcb\<lparr>tstate := TCP_PCB_STATE_CLOSED\<rparr>) s)"

subsection \<open>Open\<close>

text \<open>\<^verbatim>\<open>sched_sleep\<close> inside the loop that waits for another state than \<open>st\<close>.\<close>

definition tcp_open_sleep :: "nat \<Rightarrow> int \<Rightarrow> 'z tcp_scheme \<Rightarrow> (int, int) command \<times> 'z tcp_scheme" where
  "tcp_open_sleep i st s =
     (case sched_sleep_enter (tctx (tcp_pcbs s ! i)) of
        (Some _, c) \<Rightarrow> (Returned (-1), tcp_abort i (upd_tcp_pcb i (\<lambda>pcb. pcb\<lparr>tctx := c\<rparr>) s))
      | (None, c) \<Rightarrow> (Waiting st, upd_tcp_pcb i (\<lambda>pcb. pcb\<lparr>tctx := c\<rparr>) s))"

text \<open>The loop, and what follows it.\<close>

definition tcp_open_loop :: "nat \<Rightarrow> int \<Rightarrow> 'z tcp_scheme \<Rightarrow> (int, int) command \<times> 'z tcp_scheme" where
  "tcp_open_loop i st s =
     (let now = tstate (tcp_pcbs s ! i) in
      if now = st then tcp_open_sleep i st s
      else if now \<noteq> TCP_PCB_STATE_ESTABLISHED
      then if now = TCP_PCB_STATE_SYN_RECEIVED then tcp_open_sleep i now s
           else (Returned (-1), tcp_abort i s)
      else (Returned (int i), s))"

definition tcp_open_rfc793 ::
  "ip_endpoint \<Rightarrow> ip_endpoint option \<Rightarrow> bool \<Rightarrow> 'z tcp_scheme \<Rightarrow> ((int, int) command \<times> 'z tcp_scheme) option" where
  "tcp_open_rfc793 local foreign active s =
     (case tcp_pcb_alloc s of
        (None, s) \<Rightarrow> Some (Returned (-1), s)
      | (Some i, s) \<Rightarrow>
          if active then do {
            f \<leftarrow> foreign;
            let (r, s) = random_u32 s;
            let s = upd_tcp_pcb i (\<lambda>pcb. pcb\<lparr>tlocal := local, tforeign := f, rcv_wnd := mk16 TCP_BUF_SIZE, iss := r\<rparr>) s;
            (r, s) \<leftarrow> tcp_output i TCP_FLG_SYN [] 0 s;
            if r = -1 then Some (Returned (-1), tcp_abort i s)
            else do {
              let s = upd_tcp_pcb i (\<lambda>pcb. pcb\<lparr>snd_una := iss pcb, snd_nxt := iss pcb + 1, tstate := TCP_PCB_STATE_SYN_SENT\<rparr>) s;
              Some (tcp_open_loop i (tstate (tcp_pcbs s ! i)) s)
            }
          }
          else do {
            let s = upd_tcp_pcb i (\<lambda>pcb. pcb\<lparr>tlocal := local,
                      tforeign := (case foreign of None \<Rightarrow> tforeign pcb | Some f \<Rightarrow> f), tstate := TCP_PCB_STATE_LISTEN\<rparr>) s;
            Some (tcp_open_loop i (tstate (tcp_pcbs s ! i)) s)
          })"

definition tcp_open_resume :: "nat \<Rightarrow> int \<Rightarrow> int \<Rightarrow> 'z tcp_scheme \<Rightarrow> (int, int) command \<times> 'z tcp_scheme" where
  "tcp_open_resume i st ret s =
     (let (err, c) = sched_sleep_resume ret (tctx (tcp_pcbs s ! i));
          s = upd_tcp_pcb i (\<lambda>pcb. pcb\<lparr>tctx := c\<rparr>) s
      in if err = -1 then (Returned (-1), tcp_abort i s) else tcp_open_loop i st s)"

subsection \<open>Close\<close>

definition tcp_close :: "int \<Rightarrow> 'z tcp_scheme \<Rightarrow> (int \<times> 'z tcp_scheme) option" where
  "tcp_close i s =
     (case tcp_pcb_get i s of
        None \<Rightarrow> Some (-1, s)
      | Some k \<Rightarrow> do {
          let st = tstate (tcp_pcbs s ! k);
          if st = TCP_PCB_STATE_ESTABLISHED \<or> st = TCP_PCB_STATE_CLOSE_WAIT then do {
            (_, s) \<leftarrow> tcp_output k (TCP_FLG_ACK OR TCP_FLG_FIN) [] 0 s;
            let s = upd_tcp_pcb k (\<lambda>pcb. pcb\<lparr>snd_nxt := snd_nxt pcb + 1,
                      tstate := if st = TCP_PCB_STATE_ESTABLISHED then TCP_PCB_STATE_FIN_WAIT1 else TCP_PCB_STATE_LAST_ACK\<rparr>) s;
            Some (0, if tstate (tcp_pcbs s ! k) = TCP_PCB_STATE_CLOSED then tcp_pcb_release k s else tcp_wakeup k s)
          }
          else Some (-1, s)
        })"

subsection \<open>Send\<close>

text \<open>
  The loop over the data. It may repeat forever, when the largest segment is empty; then its value is
  \<^term>\<open>None\<close>, as for undefined behaviour.
\<close>

definition tcp_send_cap :: "tcp_pcb \<Rightarrow> nat" where
  "tcp_send_cap pcb = unat (ucast (snd_wnd pcb) - (snd_nxt pcb - snd_una pcb) :: u32)"

partial_function (option) tcp_send_loop ::
  "nat \<Rightarrow> nat \<Rightarrow> bytes \<Rightarrow> nat \<Rightarrow> nat \<Rightarrow> 'z tcp_scheme \<Rightarrow> ((int, nat) command \<times> 'z tcp_scheme) option" where
  "tcp_send_loop k mss data len sent s =
     (if sent < len then
        if tcp_send_cap (tcp_pcbs s ! k) = 0 then
          (case sched_sleep_enter (tctx (tcp_pcbs s ! k)) of
             (Some _, c) \<Rightarrow> Some (Returned (if sent = 0 then -1 else int sent), upd_tcp_pcb k (\<lambda>pcb. pcb\<lparr>tctx := c\<rparr>) s)
           | (None, c) \<Rightarrow> Some (Waiting sent, upd_tcp_pcb k (\<lambda>pcb. pcb\<lparr>tctx := c\<rparr>) s))
        else do {
          let slen = min (min mss (len - sent)) (tcp_send_cap (tcp_pcbs s ! k));
          (r, s) \<leftarrow> tcp_output k (TCP_FLG_ACK OR TCP_FLG_PSH) (drop sent data) slen s;
          if r = -1 then Some (Returned (-1), tcp_abort k s)
          else tcp_send_loop k mss data len (sent + slen) (upd_tcp_pcb k (\<lambda>pcb. pcb\<lparr>snd_nxt := snd_nxt pcb + mk32 slen\<rparr>) s)
        }
      else Some (Returned (int sent), s))"

definition tcp_send_retry ::
  "nat \<Rightarrow> bytes \<Rightarrow> nat \<Rightarrow> nat \<Rightarrow> 'z tcp_scheme \<Rightarrow> ((int, nat) command \<times> 'z tcp_scheme) option" where
  "tcp_send_retry k data len sent s =
     (if tstate (tcp_pcbs s ! k) \<in> {TCP_PCB_STATE_ESTABLISHED, TCP_PCB_STATE_CLOSE_WAIT}
      then case ip_route_get_iface (ep_addr (tforeign (tcp_pcbs s ! k))) s of
             None \<Rightarrow> Some (Returned (-1), s)
           | Some iface \<Rightarrow> do {
               d \<leftarrow> dev_tab s (iface_dev iface);
               tcp_send_loop k (size_of_int (int (unat (mtu d)) - int (IP_HDR_SIZE_MIN + TCP_HDR_SIZE))) data len sent s
             }
      else Some (Returned (-1), s))"

definition tcp_send :: "int \<Rightarrow> bytes \<Rightarrow> nat \<Rightarrow> 'z tcp_scheme \<Rightarrow> ((int, nat) command \<times> 'z tcp_scheme) option" where
  "tcp_send i data len s =
     (case tcp_pcb_get i s of
        None \<Rightarrow> Some (Returned (-1), s)
      | Some k \<Rightarrow> tcp_send_retry k data len 0 s)"

definition tcp_send_resume ::
  "nat \<Rightarrow> int \<Rightarrow> bytes \<Rightarrow> nat \<Rightarrow> nat \<Rightarrow> 'z tcp_scheme \<Rightarrow> ((int, nat) command \<times> 'z tcp_scheme) option" where
  "tcp_send_resume k ret data len sent s =
     (let (err, c) = sched_sleep_resume ret (tctx (tcp_pcbs s ! k));
          s = upd_tcp_pcb k (\<lambda>pcb. pcb\<lparr>tctx := c\<rparr>) s
      in if err = -1 then Some (Returned (if sent = 0 then -1 else int sent), s)
         else tcp_send_retry k data len sent s)"

subsection \<open>Receive\<close>

text \<open>The value and the bytes copied to the caller.\<close>

definition tcp_copy_out :: "nat \<Rightarrow> nat \<Rightarrow> nat \<Rightarrow> 'z tcp_scheme \<Rightarrow> ((int \<times> bytes, unit) command \<times> 'z tcp_scheme) option" where
  "tcp_copy_out k sz remain s = do {
     let len = min sz remain;
     let buf = tbuf (tcp_pcbs s ! k);
     b \<leftarrow> rd_bytes buf 0 len;
     rest \<leftarrow> rd_bytes buf len (remain - len);
     buf \<leftarrow> wr_bytes buf 0 rest;
     Some (Returned (int len, b), upd_tcp_pcb k (\<lambda>pcb. pcb\<lparr>tbuf := buf, rcv_wnd := rcv_wnd pcb + mk16 len\<rparr>) s)
   }"

definition tcp_recv_retry :: "nat \<Rightarrow> nat \<Rightarrow> 'z tcp_scheme \<Rightarrow> ((int \<times> bytes, unit) command \<times> 'z tcp_scheme) option" where
  "tcp_recv_retry k sz s =
     (let pcb = tcp_pcbs s ! k; remain = TCP_BUF_SIZE - unat (rcv_wnd pcb) in
      if tstate pcb = TCP_PCB_STATE_ESTABLISHED
      then if remain = 0
           then (case sched_sleep_enter (tctx pcb) of
                   (Some _, c) \<Rightarrow> Some (Returned (-1, []), upd_tcp_pcb k (\<lambda>pcb. pcb\<lparr>tctx := c\<rparr>) s)
                 | (None, c) \<Rightarrow> Some (Waiting (), upd_tcp_pcb k (\<lambda>pcb. pcb\<lparr>tctx := c\<rparr>) s))
           else tcp_copy_out k sz remain s
      else if tstate pcb = TCP_PCB_STATE_CLOSE_WAIT
      then if remain \<noteq> 0 then tcp_copy_out k sz remain s else Some (Returned (0, []), s)
      else Some (Returned (-1, []), s))"

definition tcp_receive :: "int \<Rightarrow> nat \<Rightarrow> 'z tcp_scheme \<Rightarrow> ((int \<times> bytes, unit) command \<times> 'z tcp_scheme) option" where
  "tcp_receive i sz s =
     (case tcp_pcb_get i s of
        None \<Rightarrow> Some (Returned (-1, []), s)
      | Some k \<Rightarrow> tcp_recv_retry k sz s)"

definition tcp_receive_resume :: "nat \<Rightarrow> int \<Rightarrow> nat \<Rightarrow> 'z tcp_scheme \<Rightarrow> ((int \<times> bytes, unit) command \<times> 'z tcp_scheme) option" where
  "tcp_receive_resume k ret sz s =
     (let (err, c) = sched_sleep_resume ret (tctx (tcp_pcbs s ! k));
          s = upd_tcp_pcb k (\<lambda>pcb. pcb\<lparr>tctx := c\<rparr>) s
      in if err = -1 then Some (Returned (-1, []), s) else tcp_recv_retry k sz s)"

section \<open>The received stream\<close>

text \<open>What has arrived for a control block and was not read yet.\<close>

definition tcp_unread :: "tcp_pcb \<Rightarrow> bytes" where
  "tcp_unread pcb = take (TCP_BUF_SIZE - unat (rcv_wnd pcb)) (tbuf pcb)"

lemma buf_size: "unat (w :: u16) \<le> TCP_BUF_SIZE"
  using unat_u16_less [of w] by (simp add: TCP_BUF_SIZE_def)

lemma length_unread: "tpcb_ok pcb \<Longrightarrow> length (tcp_unread pcb) = TCP_BUF_SIZE - unat (rcv_wnd pcb)"
  by (simp add: tcp_unread_def tpcb_ok_def)

lemma tcp_copy_out_ok:
  assumes ok: "tcp_ok s" "k < 16"
  defines "pcb \<equiv> tcp_pcbs s ! k"
  shows "\<exists>s'. tcp_copy_out k sz (TCP_BUF_SIZE - unat (rcv_wnd pcb)) s =
      Some (Returned (int (min sz (length (tcp_unread pcb))), take sz (tcp_unread pcb)), s') \<and> tcp_step k s s' \<and>
    tcp_unread (tcp_pcbs s' ! k) = drop sz (tcp_unread pcb) \<and>
    (\<exists>buf w. tcp_pcbs s' ! k = pcb\<lparr>tbuf := buf, rcv_wnd := w\<rparr>)"
proof -
  let ?rem = "TCP_BUF_SIZE - unat (rcv_wnd pcb)" and ?len = "min sz (TCP_BUF_SIZE - unat (rcv_wnd pcb))"
  have pok: "tpcb_ok pcb" and b: "length (tbuf pcb) = TCP_BUF_SIZE"
    using tcp_okD(4) [OF ok] by (simp_all add: pcb_def tpcb_ok_def)
  have lu: "length (tcp_unread pcb) = ?rem" using pok by (rule length_unread)
  let ?rest = "take (?rem - ?len) (drop ?len (tbuf pcb))"
  let ?buf = "?rest @ drop (?rem - ?len) (tbuf pcb)"
  let ?f = "\<lambda>pcb. pcb\<lparr>tbuf := ?buf, rcv_wnd := rcv_wnd pcb + mk16 ?len\<rparr>"
  have rd: "rd_bytes (tbuf pcb) 0 ?len = Some (take ?len (tbuf pcb))" "rd_bytes (tbuf pcb) ?len (?rem - ?len) = Some ?rest"
    using b by (simp_all add: rd_bytes_def)
  have lrest: "length ?rest = ?rem - ?len" using b by simp
  then have wr: "wr_bytes (tbuf pcb) 0 ?rest = Some ?buf" using b by (simp add: wr_bytes_0)
  have lbuf: "length ?buf = TCP_BUF_SIZE" using b lrest by simp
  have "tpcb_ok (?f (tcp_pcbs s ! k))" using pok lbuf by (simp add: tpcb_ok_def pcb_def)
  then have step: "tcp_step k s (upd_tcp_pcb k ?f s)" by (rule tcp_step_upd [OF ok])
  have nth: "tcp_pcbs (upd_tcp_pcb k ?f s) ! k = ?f pcb" unfolding pcb_def using ok by (rule tcp_step_upd_nth)
  have out: "take ?len (tbuf pcb) = take sz (tcp_unread pcb)" by (simp add: tcp_unread_def min.commute)
  have "unat (rcv_wnd pcb) + ?len < 65536" using buf_size [of "rcv_wnd pcb"] by (simp add: TCP_BUF_SIZE_def)
  then have "unat (rcv_wnd pcb + mk16 ?len) = unat (rcv_wnd pcb) + ?len"
    by (simp add: unat_word_ariths)
  then have "tcp_unread (?f pcb) = take (?rem - ?len) ?buf" by (simp add: tcp_unread_def)
  also have "\<dots> = ?rest" using lrest by simp
  also have "\<dots> = drop sz (tcp_unread pcb)" by (simp add: tcp_unread_def drop_take min_def)
  finally have un: "tcp_unread (?f pcb) = drop sz (tcp_unread pcb)" .
  have "tcp_copy_out k sz ?rem s = Some (Returned (int ?len, take ?len (tbuf pcb)), upd_tcp_pcb k ?f s)"
    using rd wr unfolding tcp_copy_out_def pcb_def [symmetric] Let_def by simp
  then show ?thesis using step nth un lu out by auto
qed

lemma tcp_receive_ok:
  assumes ok: "tcp_ok s" and k: "tcp_pcb_get i s = Some k"
    and st: "tstate (tcp_pcbs s ! k) \<in> {TCP_PCB_STATE_ESTABLISHED, TCP_PCB_STATE_CLOSE_WAIT}" and un: "tcp_unread (tcp_pcbs s ! k) \<noteq> []"
  shows "\<exists>s'. tcp_receive i sz s =
      Some (Returned (int (min sz (length (tcp_unread (tcp_pcbs s ! k)))), take sz (tcp_unread (tcp_pcbs s ! k))), s') \<and>
    tcp_step k s s' \<and> tcp_unread (tcp_pcbs s' ! k) = drop sz (tcp_unread (tcp_pcbs s ! k)) \<and>
    (\<exists>buf w. tcp_pcbs s' ! k = (tcp_pcbs s ! k)\<lparr>tbuf := buf, rcv_wnd := w\<rparr>)"
proof -
  have k16: "k < 16" using k tcp_okD(3) [OF ok] by (auto simp: tcp_pcb_get_def split: if_splits)
  have "TCP_BUF_SIZE - unat (rcv_wnd (tcp_pcbs s ! k)) \<noteq> 0" using un by (auto simp: tcp_unread_def)
  then have "tcp_receive i sz s = tcp_copy_out k sz (TCP_BUF_SIZE - unat (rcv_wnd (tcp_pcbs s ! k))) s"
    using k st by (auto simp: tcp_receive_def tcp_recv_retry_def Let_def)
  then show ?thesis using tcp_copy_out_ok [OF ok k16, of sz] by simp
qed

text \<open>
  An established connection between two endpoints, as the receiving host sees it: the control block, the
  data segments that carry the next bytes of the stream, and the reads of the user.
\<close>

definition tcp_conn :: "nat \<Rightarrow> ip_endpoint \<Rightarrow> ip_endpoint \<Rightarrow> ip_iface \<Rightarrow> 'z tcp_scheme \<Rightarrow> bool" where
  "tcp_conn i local foreign f s \<longleftrightarrow> tcp_ok s \<and> tcp_pcb_select local (Some foreign) (tcp_pcbs s) = Some i \<and>
     tstate (tcp_pcbs s ! i) = TCP_PCB_STATE_ESTABLISHED \<and> snd_una (tcp_pcbs s ! i) \<le> snd_nxt (tcp_pcbs s ! i) \<and>
     {ep_addr local, ep_addr foreign} \<inter> {IP_ADDR_BROADCAST, broadcast f} = {}"

definition tcp_fits :: "nat \<Rightarrow> bytes \<Rightarrow> 'z tcp_scheme \<Rightarrow> bool" where
  "tcp_fits i d s \<longleftrightarrow> d \<noteq> [] \<and> length d \<le> unat (rcv_wnd (tcp_pcbs s ! i)) \<and> length d \<le> 65495 \<and>
     unat (rcv_nxt (tcp_pcbs s ! i)) + unat (rcv_wnd (tcp_pcbs s ! i)) < 2 ^ 32"

definition tcp_arrive ::
  "nat \<Rightarrow> ip_endpoint \<Rightarrow> ip_endpoint \<Rightarrow> ip_iface \<Rightarrow> u16 \<Rightarrow> bytes \<Rightarrow> 'z tcp_scheme \<Rightarrow> 'z tcp_scheme option" where
  "tcp_arrive i local foreign f w d s =
     tcp_input (tcp_segment (host_order s) (rcv_nxt (tcp_pcbs s ! i)) (snd_una (tcp_pcbs s ! i)) (TCP_FLG_ACK OR TCP_FLG_PSH) w d
       foreign local) (20 + length d) (ep_addr foreign) (ep_addr local) f s"

definition tcp_deliver :: "nat \<Rightarrow> nat \<Rightarrow> 'z tcp_scheme \<Rightarrow> (bytes \<times> 'z tcp_scheme) option" where
  "tcp_deliver i n s =
     (case tcp_receive (int i) n s of Some (Returned (_, b), s') \<Rightarrow> Some (b, s') | _ \<Rightarrow> None)"

lemma tcp_conn_step:
  assumes "tcp_conn i local foreign f s" "tcp_step i s s'" "same_key (tcp_pcbs s ! i) (tcp_pcbs s' ! i)"
    and "tstate (tcp_pcbs s' ! i) = TCP_PCB_STATE_ESTABLISHED" "snd_una (tcp_pcbs s' ! i) \<le> snd_nxt (tcp_pcbs s' ! i)"
  shows "tcp_conn i local foreign f s'"
  using assms tcp_select_step [OF _ assms(2,3), of local foreign] tcp_step_ok [OF assms(2)] by (simp add: tcp_conn_def)

text \<open>A segment with the next text of the stream and any acknowledgment of what was sent.\<close>

lemma tcp_text_arrives:
  assumes conn: "tcp_conn i local foreign f s" and fits: "tcp_fits i d s" and ak: "ak \<le> snd_nxt (tcp_pcbs s ! i)"
  defines "pcb \<equiv> tcp_pcbs s ! i"
  shows "\<exists>s'. tcp_input (tcp_segment (host_order s) (rcv_nxt pcb) ak (TCP_FLG_ACK OR TCP_FLG_PSH) w d foreign local) (20 + length d)
      (ep_addr foreign) (ep_addr local) f s = Some s' \<and> tcp_conn i local foreign f s' \<and> host_order s' = host_order s \<and>
    tcp_unread (tcp_pcbs s' ! i) = tcp_unread pcb @ d \<and> rcv_nxt (tcp_pcbs s' ! i) = rcv_nxt pcb + mk32 (length d) \<and>
    unat (rcv_wnd (tcp_pcbs s' ! i)) = unat (rcv_wnd pcb) - length d \<and> snd_nxt (tcp_pcbs s' ! i) = snd_nxt pcb"
proof -
  let ?fl = "TCP_FLG_ACK OR TCP_FLG_PSH" and ?n = "length d" and ?used = "TCP_BUF_SIZE - unat (rcv_wnd pcb)"
  let ?seg = "tcp_info (rcv_nxt pcb) ak ?fl w 0 ?n"
  from conn have ok: "tcp_ok s" and sel: "tcp_pcb_select local (Some foreign) (tcp_pcbs s) = Some i"
    and st: "tstate pcb = 5" and una: "snd_una pcb \<le> snd_nxt pcb"
    and uni: "ep_addr foreign \<noteq> IP_ADDR_BROADCAST" "ep_addr foreign \<noteq> broadcast f" "ep_addr local \<noteq> IP_ADDR_BROADCAST"
      "ep_addr local \<noteq> broadcast f"
    by (auto simp: tcp_conn_def pcb_def)
  have i: "i < 16" using tcp_select_SomeD(1) [OF sel] tcp_okD(3) [OF ok] by simp
  have b: "length (tbuf pcb) = TCP_BUF_SIZE" using tcp_okD(4) [OF ok i] by (simp add: pcb_def tpcb_ok_def)
  obtain s' where s': "tcp_segment_arrives ?seg ?fl d ?n local foreign s = Some s'" "tcp_step i s s'"
      "tcp_pcbs s' ! i = (pcb_acked ?seg pcb)\<lparr>tbuf := take ?used (tbuf pcb) @ d @ drop (?used + ?n) (tbuf pcb),
        rcv_nxt := rcv_nxt pcb + mk32 ?n, rcv_wnd := rcv_wnd pcb - mk16 ?n, tctx := sched_wakeup (tctx (pcb_acked ?seg pcb))\<rparr>"
    using tcp_data_arrives [OF ok sel, of ?fl ?n d ak w] st ak fits by (auto simp: pcb_def tcp_fits_def TCP_FLG_ISSET_def)
  have n: "?n \<le> unat (rcv_wnd pcb)" "?n \<le> 65495" using fits by (simp_all add: tcp_fits_def pcb_def)
  then have w: "unat (rcv_wnd pcb - mk16 ?n) = unat (rcv_wnd pcb) - ?n" by (simp add: unat_sub_if_size)
  then have "TCP_BUF_SIZE - unat (rcv_wnd pcb - mk16 ?n) = ?used + ?n" using n(1) buf_size [of "rcv_wnd pcb"] by simp
  then have "tcp_unread (tcp_pcbs s' ! i) = tcp_unread pcb @ d" using s'(3) b by (simp add: tcp_unread_def)
  moreover have "snd_una (pcb_acked ?seg pcb) \<le> snd_nxt pcb"
    using una ak by (simp add: pcb_acked_def pcb_fin_wait_def pcb_new_ack_def tcp_info_def pcb_def Let_def)
  then have "tcp_conn i local foreign f s'"
    using s'(3) st by (intro tcp_conn_step [OF conn s'(2)]) (simp_all add: same_key_def pcb_def pcb_acked_fields)
  moreover have "tcp_input (tcp_segment (host_order s) (rcv_nxt pcb) ak ?fl w d foreign local) (20 + ?n) (ep_addr foreign) (ep_addr local) f s = Some s'"
    using tcp_input_segment [OF n(2) uni, of s "rcv_nxt pcb" ak ?fl w "[]"] s'(1) by simp
  moreover have "host_order s' = host_order s" using s'(2) stack_frameD by (auto simp: tcp_step_def)
  ultimately show ?thesis using s'(3) w by (simp add: pcb_acked_fields)
qed

lemma tcp_arrive_appends:
  assumes conn: "tcp_conn i local foreign f s" and fits: "tcp_fits i d s"
  shows "\<exists>s'. tcp_arrive i local foreign f w d s = Some s' \<and> tcp_conn i local foreign f s' \<and>
    tcp_unread (tcp_pcbs s' ! i) = tcp_unread (tcp_pcbs s ! i) @ d"
  using tcp_text_arrives [OF assms, of "snd_una (tcp_pcbs s ! i)" w] conn by (auto simp: tcp_arrive_def tcp_conn_def)

lemma tcp_deliver_takes:
  assumes conn: "tcp_conn i local foreign f s" and un: "tcp_unread (tcp_pcbs s ! i) \<noteq> []"
  shows "\<exists>s'. tcp_deliver i n s = Some (take n (tcp_unread (tcp_pcbs s ! i)), s') \<and> tcp_conn i local foreign f s' \<and>
    tcp_unread (tcp_pcbs s' ! i) = drop n (tcp_unread (tcp_pcbs s ! i))"
proof -
  have ok: "tcp_ok s" and st: "tstate (tcp_pcbs s ! i) = 5" and una: "snd_una (tcp_pcbs s ! i) \<le> snd_nxt (tcp_pcbs s ! i)"
    and i: "i < length (tcp_pcbs s)"
    using conn tcp_select_SomeD(1) by (auto simp: tcp_conn_def)
  have "tcp_pcb_get (int i) s = Some i" using i st by (simp add: tcp_pcb_get_def)
  from tcp_receive_ok [OF ok this _ un, of n] st obtain s' where
    s': "tcp_receive (int i) n s = Some (Returned (int (min n (length (tcp_unread (tcp_pcbs s ! i)))), take n (tcp_unread (tcp_pcbs s ! i))), s')"
      "tcp_step i s s'" "tcp_unread (tcp_pcbs s' ! i) = drop n (tcp_unread (tcp_pcbs s ! i))"
      "\<exists>buf w. tcp_pcbs s' ! i = (tcp_pcbs s ! i)\<lparr>tbuf := buf, rcv_wnd := w\<rparr>" by auto
  have "tcp_conn i local foreign f s'"
    using s'(4) st una by (intro tcp_conn_step [OF conn s'(2)]) (auto simp: same_key_def)
  then show ?thesis using s'(1,3) by (simp add: tcp_deliver_def)
qed

interpretation tcp_stream: byte_stream "tcp_conn i local foreign f" "\<lambda>s. tcp_unread (tcp_pcbs s ! i)" "tcp_fits i"
    "tcp_arrive i local foreign f w" "tcp_deliver i"
  for i :: nat and local foreign :: ip_endpoint and f :: ip_iface and w :: u16
  by unfold_locales (rule tcp_arrive_appends tcp_deliver_takes; assumption)+


section \<open>Sending within the window\<close>

lemma tcp_abort_ok:
  assumes "tcp_ok s" "i < 16"
  shows "tcp_step i s (tcp_abort i s) \<and> tstate (tcp_pcbs (tcp_abort i s) ! i) \<in> {TCP_PCB_STATE_FREE, TCP_PCB_STATE_CLOSED}"
proof -
  let ?s1 = "upd_tcp_pcb i (\<lambda>pcb. pcb\<lparr>tstate := TCP_PCB_STATE_CLOSED\<rparr>) s"
  have s1: "tcp_step i s ?s1"
    using tcp_okD(4) [OF assms] by (intro tcp_step_upd [OF assms]) (simp add: tpcb_ok_def)
  note ok1 = tcp_step_ok [OF s1]
  have "tcp_step i s (tcp_pcb_release i ?s1)" using s1 tcp_step_release [OF ok1 assms(2)] by (rule tcp_step_trans)
  then show ?thesis
    using tcp_pcb_release_ok [OF ok1 assms(2)] tcp_okD(3) [OF assms(1)] assms(2) by (simp add: tcp_abort_def zero_tcp_pcb_def)
qed

text \<open>
  The bytes of the data from offset \<open>a\<close> to \<open>b\<close> go out as consecutive segments of at most \<open>mss\<close> bytes:
  each is emitted with the sequence number of its first byte and is appended to the queue for
  retransmission. The command may end by going to sleep.
\<close>

inductive tcp_sends :: "bytes \<Rightarrow> nat \<Rightarrow> nat \<Rightarrow> nat \<Rightarrow> nat \<Rightarrow> 'z tcp_scheme \<Rightarrow> 'z tcp_scheme \<Rightarrow> bool" for data k mss where
  finished: "tcp_sends data k mss a a s s"
| sleeping: "tcp_sends data k mss a a s (upd_tcp_pcb k (\<lambda>pcb. pcb\<lparr>tctx := c\<rparr>) s)"
| segment: "\<lbrakk>0 < n; n \<le> mss; a + n \<le> length data; pcb = tcp_pcbs s ! k; payload = take n (drop a data); flg = TCP_FLG_ACK OR TCP_FLG_PSH;
    tcp_emits (tcp_segment (host_order s) (snd_nxt pcb) (rcv_nxt pcb) flg (rcv_wnd pcb) payload (tlocal pcb) (tforeign pcb))
      (tlocal pcb) (tforeign pcb) s s1;
    tcp_pcbs s1 = (tcp_pcbs s)[k := pcb\<lparr>tqueue := tqueue pcb @ tcp_new_entries (snd_nxt pcb) flg payload s\<rparr>]; host_order s1 = host_order s;
    tcp_sends data k mss (a + n) b (upd_tcp_pcb k (\<lambda>pcb. pcb\<lparr>snd_nxt := snd_nxt pcb + mk32 n\<rparr>) s1) s'\<rbrakk>
    \<Longrightarrow> tcp_sends data k mss a b s s'"

lemma tcp_sends_pcb:
  assumes "tcp_sends data k mss a b s s'" "k < length (tcp_pcbs s)"
  shows "a \<le> b \<and> (\<exists>q c. tcp_pcbs s' ! k =
    (tcp_pcbs s ! k)\<lparr>tqueue := q, snd_nxt := snd_nxt (tcp_pcbs s ! k) + mk32 (b - a), tctx := c\<rparr>)"
  using assms
proof (induction rule: tcp_sends.induct)
  case (finished a s)
  show ?case by (auto intro!: exI [of _ "tqueue (tcp_pcbs s ! k)"] exI [of _ "tctx (tcp_pcbs s ! k)"])
next
  case (sleeping a s c)
  then show ?case by (auto intro!: exI [of _ "tqueue (tcp_pcbs s ! k)"] exI [of _ c])
next
  case (segment n a pcb s payload flg s1 b s')
  let ?s2 = "upd_tcp_pcb k (\<lambda>pcb. pcb\<lparr>snd_nxt := snd_nxt pcb + mk32 n\<rparr>) s1"
  have nth: "tcp_pcbs ?s2 ! k = pcb\<lparr>tqueue := tqueue pcb @ tcp_new_entries (snd_nxt pcb) flg payload s, snd_nxt := snd_nxt pcb + mk32 n\<rparr>"
    using segment.hyps(8) segment.prems by simp
  have "k < length (tcp_pcbs ?s2)" using segment.hyps(8) segment.prems by simp
  from segment.IH [OF this] obtain q c where le: "a + n \<le> b"
    and s': "tcp_pcbs s' ! k = pcb\<lparr>tqueue := q, snd_nxt := snd_nxt pcb + mk32 n + mk32 (b - (a + n)), tctx := c\<rparr>"
    unfolding nth by auto
  have "mk32 n + mk32 (b - (a + n)) = mk32 (b - a)" using le by (simp add: mk_add(2))
  then have "snd_nxt pcb + mk32 n + mk32 (b - (a + n)) = snd_nxt pcb + mk32 (b - a)" by (simp only: add.assoc)
  then have "tcp_pcbs s' ! k = (tcp_pcbs s ! k)\<lparr>tqueue := q, snd_nxt := snd_nxt (tcp_pcbs s ! k) + mk32 (b - a), tctx := c\<rparr>"
    using s' segment.hyps(4) by (simp only:)
  then show ?case using le by auto
qed

text \<open>The bytes in flight, and the room that is left.\<close>

definition tcp_in_flight :: "tcp_pcb \<Rightarrow> nat" where
  "tcp_in_flight pcb = unat (snd_nxt pcb - snd_una pcb)"

lemma unat_ucast_u16: "unat (ucast (w :: u16) :: u32) = unat w"
  using unat_u16_less [of w] by (simp add: unsigned_ucast_eq take_bit_nat_eq_self)

lemma tcp_send_cap_eq:
  "tcp_in_flight pcb \<le> unat (snd_wnd pcb) \<Longrightarrow> tcp_send_cap pcb = unat (snd_wnd pcb) - tcp_in_flight pcb"
  unfolding tcp_send_cap_def tcp_in_flight_def using unat_u16_less [of "snd_wnd pcb"]
  by (subst unat_sub) (simp_all add: word_le_nat_alt unat_ucast_u16)

lemma tcp_in_flight_add:
  assumes "tcp_in_flight pcb + n < 2 ^ 32" "snd_nxt pcb' = snd_nxt pcb + mk32 n" "snd_una pcb' = snd_una pcb"
  shows "tcp_in_flight pcb' = tcp_in_flight pcb + n"
proof -
  have "unat ((snd_nxt pcb - snd_una pcb) + mk32 n) = tcp_in_flight pcb + n"
    using assms(1) by (subst unat_add_lem [THEN iffD1]) (simp_all add: tcp_in_flight_def)
  moreover have "snd_nxt pcb' - snd_una pcb' = (snd_nxt pcb - snd_una pcb) + mk32 n" using assms(2,3) by simp
  ultimately show ?thesis by (simp only: tcp_in_flight_def)
qed

text \<open>What a call of the loop leaves: an aborted connection, or bytes up to an offset sent and the window not exceeded.\<close>

definition tcp_send_result ::
  "bytes \<Rightarrow> nat \<Rightarrow> nat \<Rightarrow> nat \<Rightarrow> nat \<Rightarrow> (int, nat) command \<Rightarrow> 'z tcp_scheme \<Rightarrow> 'z tcp_scheme \<Rightarrow> bool" where
  "tcp_send_result data k mss a len res s s' \<longleftrightarrow> tcp_ok s' \<and>
     (res = Returned (-1) \<and> tstate (tcp_pcbs s' ! k) \<in> {TCP_PCB_STATE_FREE, TCP_PCB_STATE_CLOSED} \<or>
      (\<exists>n \<le> len. tcp_sends data k mss a n s s' \<and>
         tcp_in_flight (tcp_pcbs s' ! k) \<le> unat (snd_wnd (tcp_pcbs s' ! k)) \<and>
         (if n = len then res = Returned (int len)
          else tcp_in_flight (tcp_pcbs s' ! k) = unat (snd_wnd (tcp_pcbs s' ! k)) \<and>
               res \<in> {Waiting n, Returned (if n = 0 then -1 else int n)})))"

lemma tcp_send_loop_ok:
  assumes "tcp_ok s" "k < 16" "0 < mss" "mss \<le> 65495" "len \<le> length data" "sent \<le> len"
    and "tcp_in_flight (tcp_pcbs s ! k) \<le> unat (snd_wnd (tcp_pcbs s ! k))"
  shows "\<exists>res s'. tcp_send_loop k mss data len sent s = Some (res, s') \<and> tcp_send_result data k mss sent len res s s'"
  using assms
proof (induction "len - sent" arbitrary: sent s rule: less_induct)
  case less
  define pcb where "pcb = tcp_pcbs s ! k"
  note ok = less.prems(1,2)
  have pok: "tpcb_ok pcb" using tcp_okD(4) [OF ok] by (simp add: pcb_def)
  have cap: "tcp_send_cap pcb = unat (snd_wnd pcb) - tcp_in_flight pcb"
    using less.prems(7) by (intro tcp_send_cap_eq) (simp add: pcb_def)
  consider (all) "sent = len" | (full) "sent < len" "tcp_send_cap pcb = 0" | (go) "sent < len" "tcp_send_cap pcb \<noteq> 0"
    using less.prems(6) by linarith
  then show ?case
  proof cases
    case all
    have "tcp_send_result data k mss sent len (Returned (int len)) s s"
      using all less.prems(1,7) unfolding tcp_send_result_def
      by (intro conjI disjI2 exI [of _ len]) (simp_all add: tcp_sends.finished)
    then show ?thesis using all by (subst tcp_send_loop.simps) simp
  next
    case full
    obtain r c where sl: "sched_sleep_enter (tctx pcb) = (r, c)" by (cases "sched_sleep_enter (tctx pcb)")
    let ?s' = "upd_tcp_pcb k (\<lambda>pcb. pcb\<lparr>tctx := c\<rparr>) s"
    have "tcp_ok ?s'" using pok by (intro tcp_ok_upd [OF ok]) (simp add: tpcb_ok_def pcb_def)
    moreover have "tcp_pcbs ?s' ! k = pcb\<lparr>tctx := c\<rparr>" using tcp_step_upd_nth [OF ok] by (simp only: pcb_def)
    moreover have "tcp_in_flight pcb = unat (snd_wnd pcb)" using full(2) cap less.prems(7) by (simp add: pcb_def)
    ultimately have "tcp_send_result data k mss sent len res s ?s'"
      if "res \<in> {Waiting sent, Returned (if sent = 0 then -1 else int sent)}" for res
      using that full(1) unfolding tcp_send_result_def
      by (intro conjI disjI2 exI [of _ sent]) (simp_all add: tcp_sends.sleeping tcp_in_flight_def)
    then show ?thesis
      using full sl by (subst tcp_send_loop.simps) (cases r; simp add: pcb_def)
  next
    case go
    define n where "n = min (min mss (len - sent)) (tcp_send_cap pcb)"
    define payload where "payload = take n (drop sent data)"
    let ?fl = "TCP_FLG_ACK OR TCP_FLG_PSH"
    have n: "0 < n" "n \<le> length (drop sent data)" "n \<le> 65495" "n \<le> len - sent" "n \<le> tcp_send_cap pcb" "n \<le> mss"
      using go less.prems(3-6) by (auto simp: n_def)
    from tcp_output_ok [OF ok n(2,3), of ?fl]
    obtain r s1 where s1: "tcp_output k ?fl (drop sent data) n s = Some (r, s1)" "tcp_ok s1"
        "tcp_pcbs s1 = (tcp_pcbs s)[k := pcb\<lparr>tqueue := tqueue pcb @ tcp_new_entries (snd_nxt pcb) ?fl payload s\<rparr>]"
        "tcp_emits (tcp_segment (host_order s) (snd_nxt pcb) (rcv_nxt pcb) ?fl (rcv_wnd pcb) payload (tlocal pcb) (tforeign pcb))
          (tlocal pcb) (tforeign pcb) s s1" "stack_frame s s1"
      by (auto simp: pcb_def payload_def tcp_out_seq_def TCP_FLG_ISSET_def)
    let ?s2 = "upd_tcp_pcb k (\<lambda>pcb. pcb\<lparr>snd_nxt := snd_nxt pcb + mk32 n\<rparr>) s1"
    have eq: "tcp_send_loop k mss data len sent s =
        (if r = -1 then Some (Returned (-1), tcp_abort k s1) else tcp_send_loop k mss data len (sent + n) ?s2)"
      using go s1(1) by (subst tcp_send_loop.simps) (simp add: pcb_def n_def Let_def)
    show ?thesis
    proof (cases "r = -1")
      case True
      then show ?thesis
        using eq tcp_abort_ok [OF s1(2) ok(2)] tcp_step_ok [of k s1 "tcp_abort k s1"] by (auto simp: tcp_send_result_def)
    next
      case False
      have ok2: "tcp_ok ?s2"
        using tcp_okD(4) [OF s1(2) ok(2)] by (intro tcp_ok_upd [OF s1(2) ok(2)]) (simp add: tpcb_ok_def)
      have nth2: "snd_nxt (tcp_pcbs ?s2 ! k) = snd_nxt pcb + mk32 n" "snd_una (tcp_pcbs ?s2 ! k) = snd_una pcb"
          "snd_wnd (tcp_pcbs ?s2 ! k) = snd_wnd pcb"
        using s1(3) tcp_okD(3) [OF s1(2)] ok(2) by simp_all
      have "tcp_in_flight (tcp_pcbs ?s2 ! k) = tcp_in_flight pcb + n"
        using n(5) cap unat_u16_less [of "snd_wnd pcb"] less.prems(7)
        by (intro tcp_in_flight_add [OF _ nth2(1,2)]) (simp add: pcb_def)
      then have w2: "tcp_in_flight (tcp_pcbs ?s2 ! k) \<le> unat (snd_wnd (tcp_pcbs ?s2 ! k))"
        using n(1,5) cap nth2(3) by simp
      have "sent + n \<le> len" "len - (sent + n) < len - sent" using n(1,4) go(1) by linarith+
      from less.hyps [OF this(2) ok2 ok(2) less.prems(3-5) this(1) w2]
      obtain res s' where s': "tcp_send_loop k mss data len (sent + n) ?s2 = Some (res, s')"
        "tcp_send_result data k mss (sent + n) len res ?s2 s'" by blast
      have "tcp_sends data k mss sent m s s'" if "tcp_sends data k mss (sent + n) m ?s2 s'" for m
        using n(1,2,6) go(1) less.prems(5) by (intro tcp_sends.segment [OF _ _ _ pcb_def payload_def refl s1(4,3) stack_frameD(1) [OF s1(5)] that]) auto
      then have "tcp_send_result data k mss sent len res s s'" using s'(2) unfolding tcp_send_result_def by blast
      then show ?thesis using eq False s'(1) by simp
    qed
  qed
qed

lemma tcp_send_ok:
  assumes "tcp_ok s" "tcp_pcb_get i s = Some k" "tstate (tcp_pcbs s ! k) \<in> {TCP_PCB_STATE_ESTABLISHED, TCP_PCB_STATE_CLOSE_WAIT}"
    and "ip_route_get_iface (ep_addr (tforeign (tcp_pcbs s ! k))) s = Some iface" "dev_tab s (iface_dev iface) = Some d" "40 < unat (mtu d)"
    and "len \<le> length data" "tcp_in_flight (tcp_pcbs s ! k) \<le> unat (snd_wnd (tcp_pcbs s ! k))"
  shows "\<exists>res s'. tcp_send i data len s = Some (res, s') \<and> tcp_send_result data k (unat (mtu d) - 40) 0 len res s s'"
proof -
  have k: "k < 16" using assms(2) tcp_okD(3) [OF assms(1)] by (auto simp: tcp_pcb_get_def split: if_splits)
  have mss: "size_of_int (int (unat (mtu d)) - int (IP_HDR_SIZE_MIN + TCP_HDR_SIZE)) = unat (mtu d) - 40"
    using assms(6) unat_u16_less [of "mtu d"] by (subst size_of_int_diff) simp_all
  have "tcp_send i data len s = tcp_send_loop k (unat (mtu d) - 40) data len 0 s"
    using assms(2-5) mss unfolding tcp_send_def tcp_send_retry_def by (simp only: option.case if_True bind.bind_lunit)
  moreover have "unat (mtu d) - 40 \<le> 65495" using unat_u16_less [of "mtu d"] by linarith
  ultimately show ?thesis
    using tcp_send_loop_ok [OF assms(1) k, of "unat (mtu d) - 40" len data 0] assms(6-8) by simp
qed

text \<open>
  C18. Sending terminates and respects the window. On an open connection whose device can carry a segment
  with at least one byte, and whose bytes in flight fit the peer's window, \<open>tcp_send\<close> returns, blocks or
  aborts the connection. Unless it aborts, the bytes up to some offset have gone out as consecutive segments of
  at most the device's segment size, and the bytes in flight never exceed the window. If some byte is
  left then the window is full, and the call blocks or was interrupted; otherwise it returns the length.
\<close>

theorem tcp_send_window:
  assumes "tcp_ok s" "tcp_pcb_get i s = Some k" "tstate (tcp_pcbs s ! k) \<in> {TCP_PCB_STATE_ESTABLISHED, TCP_PCB_STATE_CLOSE_WAIT}"
    and "ip_route_get_iface (ep_addr (tforeign (tcp_pcbs s ! k))) s = Some iface" "dev_tab s (iface_dev iface) = Some d" "40 < unat (mtu d)"
    and "len \<le> length data" "tcp_in_flight (tcp_pcbs s ! k) \<le> unat (snd_wnd (tcp_pcbs s ! k))"
  shows "\<exists>res s'. tcp_send i data len s = Some (res, s') \<and> tcp_send_result data k (unat (mtu d) - 40) 0 len res s s'"
  using assms by (rule tcp_send_ok)

section \<open>Closing\<close>

lemma tcp_close_ok:
  assumes "tcp_ok s"
  shows "case tcp_pcb_get i s of
      None \<Rightarrow> tcp_close i s = Some (-1, s)
    | Some k \<Rightarrow>
        let pcb = tcp_pcbs s ! k; flg = TCP_FLG_ACK OR TCP_FLG_FIN
        in if tstate pcb \<in> {TCP_PCB_STATE_ESTABLISHED, TCP_PCB_STATE_CLOSE_WAIT}
           then \<exists>s' c. tcp_close i s = Some (0, s') \<and> tcp_step k s s' \<and>
             tcp_emits (tcp_segment (host_order s) (snd_nxt pcb) (rcv_nxt pcb) flg (rcv_wnd pcb) [] (tlocal pcb) (tforeign pcb))
               (tlocal pcb) (tforeign pcb) s s' \<and>
             tcp_pcbs s' ! k = pcb\<lparr>tqueue := tqueue pcb @ tcp_new_entries (snd_nxt pcb) flg [] s, snd_nxt := snd_nxt pcb + 1,
               tstate := if tstate pcb = TCP_PCB_STATE_ESTABLISHED then TCP_PCB_STATE_FIN_WAIT1 else TCP_PCB_STATE_LAST_ACK, tctx := c\<rparr>
           else tcp_close i s = Some (-1, s)"
proof (cases "tcp_pcb_get i s")
  case None
  then show ?thesis by (simp add: tcp_close_def)
next
  case (Some k)
  define pcb where "pcb = tcp_pcbs s ! k"
  let ?flg = "TCP_FLG_ACK OR TCP_FLG_FIN"
  let ?st = "if tstate pcb = TCP_PCB_STATE_ESTABLISHED then TCP_PCB_STATE_FIN_WAIT1 else TCP_PCB_STATE_LAST_ACK"
  have k: "k < 16" using Some tcp_okD(3) [OF assms] by (auto simp: tcp_pcb_get_def split: if_splits)
  show ?thesis
  proof (cases "tstate pcb \<in> {TCP_PCB_STATE_ESTABLISHED, TCP_PCB_STATE_CLOSE_WAIT}")
    case True
    from tcp_output_ok [OF assms k, of 0 "[]" ?flg]
    obtain r s1 where s1: "tcp_output k ?flg [] 0 s = Some (r, s1)" "tcp_ok s1" "stack_frame s s1"
        "tcp_pcbs s1 = (tcp_pcbs s)[k := pcb\<lparr>tqueue := tqueue pcb @ tcp_new_entries (snd_nxt pcb) ?flg [] s\<rparr>]"
        "tcp_emits (tcp_segment (host_order s) (snd_nxt pcb) (rcv_nxt pcb) ?flg (rcv_wnd pcb) [] (tlocal pcb) (tforeign pcb))
          (tlocal pcb) (tforeign pcb) s s1"
      by (auto simp: pcb_def tcp_out_seq_def TCP_FLG_ISSET_def)
    let ?s2 = "upd_tcp_pcb k (\<lambda>p. p\<lparr>snd_nxt := snd_nxt p + 1, tstate := ?st\<rparr>) s1"
    have step1: "tcp_step k s s1" using s1(2-4) by (simp add: tcp_step_def)
    have step2: "tcp_step k s1 ?s2"
      using tcp_okD(4) [OF s1(2) k] by (intro tcp_step_upd [OF s1(2) k]) (simp add: tpcb_ok_def)
    have "tcp_step k s (tcp_wakeup k ?s2)"
      using step1 step2 tcp_step_wakeup [OF tcp_step_ok [OF step2] k] tcp_step_trans by blast
    moreover have nth: "tcp_pcbs ?s2 ! k =
        pcb\<lparr>tqueue := tqueue pcb @ tcp_new_entries (snd_nxt pcb) ?flg [] s, snd_nxt := snd_nxt pcb + 1, tstate := ?st\<rparr>"
      using s1(4) tcp_okD(3) [OF assms] k by simp
    moreover have "tcp_close i s = Some (0, tcp_wakeup k ?s2)"
      using Some True s1(1) nth unfolding tcp_close_def by (auto simp: pcb_def Let_def)
    moreover have "tcp_emits (tcp_segment (host_order s) (snd_nxt pcb) (rcv_nxt pcb) ?flg (rcv_wnd pcb) [] (tlocal pcb) (tforeign pcb))
          (tlocal pcb) (tforeign pcb) s (tcp_wakeup k ?s2)"
      using same_below_refl s1(5) same_below_trans [OF same_below_updates(6,7)] by (rule tcp_emits_same_below)
    moreover have "tcp_pcbs (tcp_wakeup k ?s2) ! k = (tcp_pcbs ?s2 ! k)\<lparr>tctx := sched_wakeup (tctx (tcp_pcbs ?s2 ! k))\<rparr>"
      using tcp_step_upd_nth [OF tcp_step_ok [OF step2] k] by (simp only: tcp_wakeup_def)
    ultimately show ?thesis
      unfolding Some option.case Let_def pcb_def [symmetric] if_P [OF True] nth by blast
  next
    case False
    then show ?thesis using Some by (simp add: tcp_close_def pcb_def Let_def)
  qed
qed

text \<open>
  C32. Closing. On an open connection \<open>tcp_close\<close> sends a FIN that takes one sequence number and is kept for
  retransmission, and moves the connection from ESTABLISHED to FIN-WAIT-1 or from CLOSE-WAIT to LAST-ACK;
  no other control block changes. In every other state it fails and changes nothing.
\<close>

theorem tcp_close_sends_fin:
  assumes "tcp_ok s"
  shows "case tcp_pcb_get i s of
      None \<Rightarrow> tcp_close i s = Some (-1, s)
    | Some k \<Rightarrow>
        let pcb = tcp_pcbs s ! k; flg = TCP_FLG_ACK OR TCP_FLG_FIN
        in if tstate pcb \<in> {TCP_PCB_STATE_ESTABLISHED, TCP_PCB_STATE_CLOSE_WAIT}
           then \<exists>s' c. tcp_close i s = Some (0, s') \<and> tcp_step k s s' \<and>
             tcp_emits (tcp_segment (host_order s) (snd_nxt pcb) (rcv_nxt pcb) flg (rcv_wnd pcb) [] (tlocal pcb) (tforeign pcb))
               (tlocal pcb) (tforeign pcb) s s' \<and>
             tcp_pcbs s' ! k = pcb\<lparr>tqueue := tqueue pcb @ tcp_new_entries (snd_nxt pcb) flg [] s, snd_nxt := snd_nxt pcb + 1,
               tstate := if tstate pcb = TCP_PCB_STATE_ESTABLISHED then TCP_PCB_STATE_FIN_WAIT1 else TCP_PCB_STATE_LAST_ACK, tctx := c\<rparr>
           else tcp_close i s = Some (-1, s)"
  using assms by (rule tcp_close_ok)

section \<open>Evaluation\<close>

lemma tcp_conn_example: "tcp_conn 0 ep_b ep_a (host_iface 0x0A000002) (host_b 5)"
  using tcp_ok_one [of 5] tcp_example_select [of ep_b ep_a "0x0A000002" 5]
  by (simp add: tcp_conn_def host_iface_def IP_ADDR_BROADCAST_def)


theorem tcp_send_window_witness:
  "\<exists>res s'. tcp_send 0 [1, 2, 3] 3 (host_b 5) = Some (res, s') \<and> tcp_send_result [1, 2, 3] 0 1460 0 3 res (host_b 5) s'"
  using tcp_send_window [where s = "host_b 5" and i = 0 and k = 0 and iface = "host_iface 0x0A000002" and d = "host_dev 0x0A000002"
      and len = 3 and data = "[1, 2, 3]"] tcp_ok_one [of 5]
  by (simp add: tcp_pcb_get_def tcp_example_simps tcp_in_flight_def ip_route_get_iface_def ip_route_lookup_def ip_example_simps
      net_route_def default_route_def conversion_cases host_iface_def host_dev_def tap_dev_def ether_setup_helper_def)

theorem tcp_close_sends_fin_witness:
  "\<exists>s'. tcp_close 0 (host_b 5) = Some (0, s') \<and> tstate (tcp_pcbs s' ! 0) = TCP_PCB_STATE_FIN_WAIT1 \<and>
     tcp_emits (tcp_segment Big 0 0 (TCP_FLG_ACK OR TCP_FLG_FIN) 1000 [] ep_b ep_a) ep_b ep_a (host_b 5) s'"
  using tcp_close_sends_fin [OF tcp_ok_one, of 5 0 "0x0A000002" ep_b ep_a]
  by (auto simp: tcp_pcb_get_def tcp_example_simps Let_def)

end
