(* ===== verification/Tcp_Connect.thy ===== *)
theory Tcp_Connect
  imports Tcp_User
begin

text \<open>
  Opening a connection (\<^verbatim>\<open>tcp_open_rfc793\<close> of \<^verbatim>\<open>src/src/tcp.c\<close> together with the arrival of segments): what the
  command does up to its first wait, and that the three segments of the handshake take a client and a
  server from there to an established connection with agreeing sequence numbers.
\<close>

section \<open>Opening\<close>

lemma tcp_open_sleep_ok:
  assumes "tcp_ok s" "i < 16" "\<not> interrupted (tctx (tcp_pcbs s ! i))"
  defines "c \<equiv> tctx (tcp_pcbs s ! i)"
  shows "\<exists>s'. tcp_open_sleep i st s = (Waiting st, s') \<and> tcp_step i s s' \<and> same_below s s' \<and>
    tcp_pcbs s' ! i = (tcp_pcbs s ! i)\<lparr>tctx := c\<lparr>wc := wc c + 1\<rparr>\<rparr>"
proof -
  let ?f = "\<lambda>pcb. pcb\<lparr>tctx := c\<lparr>wc := wc c + 1\<rparr>\<rparr>"
  have "tcp_step i s (upd_tcp_pcb i ?f s)"
    using tcp_okD(4) [OF assms(1,2)] by (intro tcp_step_upd [OF assms(1,2)]) (simp add: tpcb_ok_def)
  moreover have "tcp_pcbs (upd_tcp_pcb i ?f s) ! i = ?f (tcp_pcbs s ! i)" using assms(1,2) by (rule tcp_step_upd_nth)
  moreover have "tcp_open_sleep i st s = (Waiting st, upd_tcp_pcb i ?f s)"
    using assms(3) by (simp add: tcp_open_sleep_def sched_sleep_enter_def c_def)
  ultimately show ?thesis by auto
qed

lemma tcp_abort_below:
  assumes "tcp_ok s" "i < 16"
  shows "same_below s (tcp_abort i s)"
proof -
  let ?s1 = "upd_tcp_pcb i (\<lambda>pcb. pcb\<lparr>tstate := TCP_PCB_STATE_CLOSED\<rparr>) s"
  have "tcp_ok ?s1" using tcp_okD(4) [OF assms] by (intro tcp_ok_upd [OF assms]) (simp add: tpcb_ok_def)
  from tcp_pcb_release_ok [OF this assms(2)] have "same_below ?s1 (tcp_abort i s)" unfolding tcp_abort_def by blast
  with same_below_updates(6) show ?thesis by (rule same_below_trans)
qed

text \<open>A control block just after it was allocated.\<close>

definition pcb_allocated :: "tcp_pcb \<Rightarrow> tcp_pcb" where
  "pcb_allocated pcb = pcb\<lparr>tstate := TCP_PCB_STATE_CLOSED, tctx := sched_ctx_init\<rparr>"

text \<open>The control block that a passive and an active open leave.\<close>

definition pcb_listening :: "ip_endpoint \<Rightarrow> ip_endpoint option \<Rightarrow> tcp_pcb \<Rightarrow> tcp_pcb" where
  "pcb_listening local foreign pcb = pcb\<lparr>tstate := TCP_PCB_STATE_LISTEN, tlocal := local,
     tforeign := (case foreign of None \<Rightarrow> tforeign pcb | Some f \<Rightarrow> f), tctx := sched_ctx_init\<lparr>wc := 1\<rparr>\<rparr>"

definition pcb_opened :: "ip_endpoint \<Rightarrow> ip_endpoint \<Rightarrow> u32 \<Rightarrow> tcp_queue_entry list \<Rightarrow> tcp_pcb \<Rightarrow> tcp_pcb" where
  "pcb_opened local f r es pcb = pcb\<lparr>tstate := TCP_PCB_STATE_SYN_SENT, tlocal := local, tforeign := f, snd_nxt := r + 1,
     snd_una := r, iss := r, rcv_wnd := mk16 TCP_BUF_SIZE, tctx := sched_ctx_init\<lparr>wc := 1\<rparr>, tqueue := tqueue pcb @ es\<rparr>"

lemma tcp_open_ok:
  assumes ok: "tcp_ok s" and act: "active \<longrightarrow> foreign \<noteq> None"
  shows "\<exists>res s'. tcp_open_rfc793 local foreign active s = Some (res, s') \<and>
    (case find_pos (\<lambda>pcb. tstate pcb = TCP_PCB_STATE_FREE) (tcp_pcbs s) of
       None \<Rightarrow> res = Returned (-1) \<and> s' = s
     | Some i \<Rightarrow> tcp_step i s s' \<and>
         (if active
          then tcp_emits (tcp_segment (host_order s) (randoms s 0) (rcv_nxt (tcp_pcbs s ! i)) TCP_FLG_SYN (mk16 TCP_BUF_SIZE) []
                 local (the foreign)) local (the foreign) s s' \<and>
               (res = Returned (-1) \<and> tstate (tcp_pcbs s' ! i) \<in> {TCP_PCB_STATE_FREE, TCP_PCB_STATE_CLOSED} \<or>
                res = Waiting TCP_PCB_STATE_SYN_SENT \<and>
                tcp_pcbs s' ! i = pcb_opened local (the foreign) (randoms s 0) (tcp_new_entries (randoms s 0) TCP_FLG_SYN [] s) (tcp_pcbs s ! i))
          else res = Waiting TCP_PCB_STATE_LISTEN \<and> tcp_pcbs s' ! i = pcb_listening local foreign (tcp_pcbs s ! i)))"
proof (cases "find_pos (\<lambda>pcb. tstate pcb = TCP_PCB_STATE_FREE) (tcp_pcbs s)")
  case None
  then show ?thesis by (simp add: tcp_open_rfc793_def tcp_pcb_alloc_def)
next
  case (Some i)
  let ?pcb = "tcp_pcbs s ! i"
  have i: "i < 16" using find_pos_SomeD(1) [OF Some] tcp_okD(3) [OF ok] by simp
  let ?s0 = "upd_tcp_pcb i pcb_allocated s"
  have alloc: "tcp_pcb_alloc s = (Some i, ?s0)" using Some by (simp add: tcp_pcb_alloc_def pcb_allocated_def [abs_def])
  have pok: "tpcb_ok ?pcb" using ok i by (rule tcp_okD)
  have step0: "tcp_step i s ?s0" using pok by (intro tcp_step_upd [OF ok i]) (simp add: tpcb_ok_def pcb_allocated_def)
  note ok0 = tcp_step_ok [OF step0]
  have nth0: "tcp_pcbs ?s0 ! i = pcb_allocated ?pcb" using ok i by (rule tcp_step_upd_nth)
  show ?thesis
  proof (cases active)
    case False
    let ?f = "\<lambda>pcb. pcb\<lparr>tlocal := local, tforeign := (case foreign of None \<Rightarrow> tforeign pcb | Some f \<Rightarrow> f), tstate := TCP_PCB_STATE_LISTEN\<rparr>"
    let ?s1 = "upd_tcp_pcb i ?f ?s0"
    have step1: "tcp_step i ?s0 ?s1" using tcp_okD(4) [OF ok0 i] by (intro tcp_step_upd [OF ok0 i]) (simp add: tpcb_ok_def)
    have nth1: "tcp_pcbs ?s1 ! i = ?f (pcb_allocated ?pcb)" using tcp_step_upd_nth [OF ok0 i] nth0 by (simp only:)
    have "\<not> interrupted (tctx (tcp_pcbs ?s1 ! i))" unfolding nth1 by (simp add: pcb_allocated_def sched_ctx_init_def)
    from tcp_open_sleep_ok [OF tcp_step_ok [OF step1] i this, of TCP_PCB_STATE_LISTEN]
    obtain s' where s': "tcp_open_sleep i TCP_PCB_STATE_LISTEN ?s1 = (Waiting TCP_PCB_STATE_LISTEN, s')" "tcp_step i ?s1 s'"
      "tcp_pcbs s' ! i = pcb_listening local foreign ?pcb"
      unfolding nth1 by (cases foreign) (auto simp: pcb_allocated_def sched_ctx_init_def pcb_listening_def)
    have "tcp_open_rfc793 local foreign active s = Some (tcp_open_loop i (tstate (tcp_pcbs ?s1 ! i)) ?s1)"
      using False alloc by (simp add: tcp_open_rfc793_def Let_def)
    also have "\<dots> = Some (Waiting TCP_PCB_STATE_LISTEN, s')" using s'(1) nth1 by (simp add: tcp_open_loop_def)
    finally show ?thesis
      using Some False s'(3) step0 step1 s'(2) tcp_step_trans by (simp only: option.case if_False) blast
  next
    case True
    then obtain f where f: "foreign = Some f" using act by auto
    let ?r = "randoms s 0"
    let ?s1 = "?s0\<lparr>randoms := advance (randoms s)\<rparr>"
    let ?f = "\<lambda>pcb. pcb\<lparr>tlocal := local, tforeign := f, rcv_wnd := mk16 TCP_BUF_SIZE, iss := ?r\<rparr>"
    let ?g = "\<lambda>pcb. pcb\<lparr>snd_una := iss pcb, snd_nxt := iss pcb + 1, tstate := TCP_PCB_STATE_SYN_SENT\<rparr>"
    let ?es = "tcp_new_entries ?r TCP_FLG_SYN [] s"
    let ?syn = "tcp_segment (host_order s) ?r (rcv_nxt ?pcb) TCP_FLG_SYN (mk16 TCP_BUF_SIZE) [] local f"
    have ok1: "tcp_ok ?s1" using ok0 by simp
    have below1: "same_below s ?s1" using same_below_updates(6) same_below_updates(3) by (rule same_below_trans)
    have step1: "tcp_step i s ?s1"
      using step0 ok1 stack_frame_same_below [OF below1] by (simp add: tcp_step_def)
    have nth1: "tcp_pcbs ?s1 ! i = pcb_allocated ?pcb" using nth0 by simp
    have "tpcb_ok (?f (tcp_pcbs ?s1 ! i))" using tcp_okD(4) [OF ok1 i] by (simp add: tpcb_ok_def)
    from tcp_step_output [where f = ?f, OF ok1 i this, of 0 "[]" TCP_FLG_SYN]
    obtain r s2 where s2: "tcp_output i TCP_FLG_SYN [] 0 (upd_tcp_pcb i ?f ?s1) = Some (r, s2)" "tcp_step i ?s1 s2"
        "tcp_pcbs s2 ! i = (?f (pcb_allocated ?pcb))\<lparr>tqueue := tqueue ?pcb @ ?es\<rparr>" "tcp_emits ?syn local f ?s1 s2"
      unfolding nth1 by (auto simp: tcp_out_seq_def TCP_FLG_ISSET_def pcb_allocated_def)
    note ok2 = tcp_step_ok [OF s2(2)]
    have step2: "tcp_step i s s2" using step1 s2(2) by (rule tcp_step_trans)
    have eq: "tcp_open_rfc793 local foreign active s =
        (if r = -1 then Some (Returned (-1), tcp_abort i s2)
         else Some (tcp_open_loop i (tstate (tcp_pcbs (upd_tcp_pcb i ?g s2) ! i)) (upd_tcp_pcb i ?g s2)))"
      using True f alloc s2(1) by (simp add: tcp_open_rfc793_def random_u32_def Let_def)
    show ?thesis
    proof (cases "r = -1")
      case True
      have "tcp_emits ?syn local f s (tcp_abort i s2)"
        using below1 s2(4) tcp_abort_below [OF ok2 i] by (rule tcp_emits_same_below)
      then show ?thesis
        using Some \<open>active\<close> eq True f tcp_abort_ok [OF ok2 i] tcp_step_trans [OF step2] by simp
    next
      case False
      let ?s3 = "upd_tcp_pcb i ?g s2"
      have step3: "tcp_step i s2 ?s3" using tcp_okD(4) [OF ok2 i] by (intro tcp_step_upd [OF ok2 i]) (simp add: tpcb_ok_def)
      have nth3: "tcp_pcbs ?s3 ! i = ?g (tcp_pcbs s2 ! i)" using ok2 i by (rule tcp_step_upd_nth)
      have "\<not> interrupted (tctx (tcp_pcbs ?s3 ! i))"
        unfolding nth3 s2(3) by (simp add: pcb_allocated_def sched_ctx_init_def)
      from tcp_open_sleep_ok [OF tcp_step_ok [OF step3] i this, of TCP_PCB_STATE_SYN_SENT]
      obtain s' where s': "tcp_open_sleep i TCP_PCB_STATE_SYN_SENT ?s3 = (Waiting TCP_PCB_STATE_SYN_SENT, s')" "tcp_step i ?s3 s'"
        "same_below ?s3 s'" "tcp_pcbs s' ! i = pcb_opened local f ?r ?es ?pcb"
        unfolding nth3 s2(3) by (auto simp: pcb_allocated_def sched_ctx_init_def pcb_opened_def)
      have "tcp_emits ?syn local f s s'"
        using below1 s2(4) same_below_trans [OF same_below_updates(6) s'(3)] by (rule tcp_emits_same_below)
      moreover have "tcp_step i s s'" using step2 step3 s'(2) tcp_step_trans by blast
      moreover have "tcp_open_rfc793 local foreign active s = Some (Waiting TCP_PCB_STATE_SYN_SENT, s')"
        using eq False s'(1) nth3 by (simp add: tcp_open_loop_def)
      ultimately show ?thesis using Some \<open>active\<close> f s'(4) by simp
    qed
  qed
qed


section \<open>The handshake\<close>

lemma tcp_select_loop_none:
  assumes "tcp_select_loop local (Some f) lst i pcbs = Some k" "j < length pcbs" "i + j < k"
  shows "\<not> (tcp_at local (pcbs ! j) \<and> tforeign (pcbs ! j) = f)"
  using assms
proof (induction pcbs arbitrary: lst i j)
  case (Cons pcb rest)
  then have ne: "\<not> (tcp_at local pcb \<and> tforeign pcb = f)" by (auto simp only: tcp_select_loop_Cons split: if_splits)
  then have "tcp_select_loop local (Some f) (if tcp_listens local pcb then Some i else lst) (Suc i) rest = Some k"
    using Cons.prems(1) by (simp only: tcp_select_loop_Cons if_False)
  from Cons.IH [OF this] show ?case using Cons.prems(2,3) ne by (cases j) auto
qed simp

lemma tcp_select_loop_first:
  assumes "k < length pcbs" "tcp_at local (pcbs ! k)" "tforeign (pcbs ! k) = f"
    and "\<forall>j < k. \<not> (tcp_at local (pcbs ! j) \<and> tforeign (pcbs ! j) = f)"
  shows "tcp_select_loop local (Some f) lst i pcbs = Some (i + k)"
  using assms
proof (induction pcbs arbitrary: lst i k)
  case (Cons pcb rest)
  show ?case
  proof (cases k)
    case 0
    then show ?thesis using Cons.prems(2,3) by (simp only: tcp_select_loop_Cons nth_Cons_0) simp
  next
    case (Suc n)
    then have "\<not> (tcp_at local pcb \<and> tforeign pcb = f)" using Cons.prems(4) by fastforce
    moreover have "\<forall>j < n. \<not> (tcp_at local (rest ! j) \<and> tforeign (rest ! j) = f)" using Cons.prems(4) Suc by fastforce
    ultimately show ?thesis using Suc Cons.prems(1-3) Cons.IH [of n] by (simp only: tcp_select_loop_Cons if_False) simp
  qed
qed simp

text \<open>A listener that was chosen for a request is chosen again for the connection that it becomes.\<close>

lemma tcp_select_connected:
  assumes "tcp_pcb_select local (Some f) (tcp_pcbs s) = Some i" "tcp_ok s" "tcp_step i s s'"
    and "tlocal (tcp_pcbs s' ! i) = local" "tforeign (tcp_pcbs s' ! i) = f"
  shows "tcp_pcb_select local (Some f) (tcp_pcbs s') = Some i"
proof -
  have l: "length (tcp_pcbs s') = length (tcp_pcbs s)"
    using tcp_okD(3) [OF assms(2)] tcp_okD(3) [OF tcp_step_ok [OF assms(3)]] by simp
  have i: "i < length (tcp_pcbs s)" using tcp_select_SomeD(1) [OF assms(1)] .
  have "\<not> (tcp_at local (tcp_pcbs s' ! j) \<and> tforeign (tcp_pcbs s' ! j) = f)" if "j < i" for j
    using tcp_select_loop_none [OF assms(1) [unfolded tcp_pcb_select_def], of j] that i assms(3) by (simp add: tcp_step_def)
  then show ?thesis
    using tcp_select_loop_first [of i "tcp_pcbs s'" local f None 0] i l assms(4,5) by (simp add: tcp_pcb_select_def tcp_at_def)
qed

text \<open>An established connection, with the numbers of the next bytes in both directions and nothing in flight.\<close>

definition tcp_synced :: "ip_endpoint \<Rightarrow> ip_endpoint \<Rightarrow> u32 \<Rightarrow> u32 \<Rightarrow> tcp_pcb \<Rightarrow> bool" where
  "tcp_synced local foreign x y pcb \<longleftrightarrow> tstate pcb = TCP_PCB_STATE_ESTABLISHED \<and> tlocal pcb = local \<and> tforeign pcb = foreign \<and>
     snd_una pcb = x \<and> snd_nxt pcb = x \<and> rcv_nxt pcb = y"

lemma unat_minus_1: "unat (-1 :: u32) = 4294967295"
  by (simp add: unsigned_minus_1_eq_mask mask_eq_exp_minus_1)

lemma less_Suc_u32:
  assumes "(a :: u32) \<noteq> -1"
  shows "a < a + 1"
proof -
  have "unat a \<noteq> unat (-1 :: u32)" using assms unfolding word_unat_eq_iff by simp
  then have "unat a + 1 < 2 ^ 32" using unat_u32_less [of a] unat_minus_1 by simp
  then have "unat (a + 1) = unat a + 1" by (simp add: unat_plus_if_size word_size)
  then show ?thesis by (simp add: word_less_nat_alt)
qed

text \<open>The request arrives at a listener.\<close>

lemma tcp_syn_arrives:
  fixes w
  assumes ok: "tcp_ok s" and sel: "tcp_pcb_select local (Some foreign) (tcp_pcbs s) = Some i"
    and st: "tstate (tcp_pcbs s ! i) = TCP_PCB_STATE_LISTEN"
  shows "\<exists>s'. tcp_segment_arrives (tcp_info a ak TCP_FLG_SYN w 0 0) TCP_FLG_SYN data 0 local foreign s = Some s' \<and> tcp_step i s s' \<and>
    (let p = tcp_pcbs s' ! i
     in tstate p = TCP_PCB_STATE_SYN_RECEIVED \<and> tlocal p = local \<and> tforeign p = foreign \<and> rcv_nxt p = a + 1 \<and>
        rcv_wnd p = mk16 TCP_BUF_SIZE \<and> snd_una p = randoms s 0 \<and> snd_nxt p = randoms s 0 + 1 \<and> tctx p = tctx (tcp_pcbs s ! i)) \<and>
    tcp_emits (tcp_segment (host_order s) (randoms s 0) (a + 1) (TCP_FLG_SYN OR TCP_FLG_ACK) (mk16 TCP_BUF_SIZE) [] local foreign)
      local foreign s s'"
proof -
  have i: "i < 16" using tcp_select_SomeD(1) [OF sel] tcp_okD(3) [OF ok] by simp
  have flags: "\<not> TCP_FLG_ISSET TCP_FLG_SYN TCP_FLG_RST" "\<not> TCP_FLG_ISSET TCP_FLG_SYN TCP_FLG_ACK" "TCP_FLG_ISSET TCP_FLG_SYN TCP_FLG_SYN"
    by (simp_all add: TCP_FLG_ISSET_def)
  have "seg_seq (tcp_info a ak TCP_FLG_SYN w 0 0) = a" by (simp add: tcp_info_def)
  with tcp_arrives_listen_syn [OF ok i flags, of "tcp_info a ak TCP_FLG_SYN w 0 0" local foreign]
  obtain s' where "tcp_arrives_listen i (tcp_info a ak TCP_FLG_SYN w 0 0) TCP_FLG_SYN local foreign s = Some s'" "tcp_step i s s'"
    "tcp_pcbs s' ! i = (pcb_requested (randoms s 0) (tcp_info a ak TCP_FLG_SYN w 0 0) local foreign (tcp_pcbs s ! i))
      \<lparr>tqueue := tqueue (tcp_pcbs s ! i) @ tcp_new_entries (randoms s 0) (TCP_FLG_SYN OR TCP_FLG_ACK) [] s,
       snd_nxt := randoms s 0 + 1, snd_una := randoms s 0, tstate := TCP_PCB_STATE_SYN_RECEIVED\<rparr>"
    "tcp_emits (tcp_segment (host_order s) (randoms s 0) (a + 1) (TCP_FLG_SYN OR TCP_FLG_ACK) (mk16 TCP_BUF_SIZE) [] local foreign)
      local foreign s s'" by auto
  then show ?thesis
    using sel st by (intro exI [of _ s']) (simp add: tcp_segment_arrives_def Let_def pcb_requested_def tcp_info_def)
qed

text \<open>The answer arrives at the client.\<close>

lemma tcp_syn_ack_arrives:
  fixes w
  assumes ok: "tcp_ok s" and sel: "tcp_pcb_select local (Some foreign) (tcp_pcbs s) = Some i"
    and st: "tstate (tcp_pcbs s ! i) = TCP_PCB_STATE_SYN_SENT" "iss (tcp_pcbs s ! i) = a" "snd_una (tcp_pcbs s ! i) = a"
      "snd_nxt (tcp_pcbs s ! i) = a + 1" "a \<noteq> -1"
    and ep: "tlocal (tcp_pcbs s ! i) = local" "tforeign (tcp_pcbs s ! i) = foreign"
  shows "\<exists>s'. tcp_segment_arrives (tcp_info b (a + 1) (TCP_FLG_SYN OR TCP_FLG_ACK) w 0 0) (TCP_FLG_SYN OR TCP_FLG_ACK) data 0
      local foreign s = Some s' \<and> tcp_step i s s' \<and>
    tcp_synced local foreign (a + 1) (b + 1) (tcp_pcbs s' ! i) \<and>
    tctx (tcp_pcbs s' ! i) = sched_wakeup (tctx (tcp_pcbs s ! i)) \<and>
    tcp_emits (tcp_segment (host_order s) (a + 1) (b + 1) TCP_FLG_ACK (rcv_wnd (tcp_pcbs s ! i)) [] local foreign) local foreign s s'"
proof -
  let ?fl = "TCP_FLG_SYN OR TCP_FLG_ACK"
  let ?seg = "tcp_info b (a + 1) ?fl w 0 0"
  have i: "i < 16" using tcp_select_SomeD(1) [OF sel] tcp_okD(3) [OF ok] by simp
  have syn: "TCP_FLG_ISSET ?fl TCP_FLG_SYN" "TCP_FLG_ISSET ?fl TCP_FLG_ACK" by (simp_all add: TCP_FLG_ISSET_def)
  have lt: "a < a + 1" using st(5) by (rule less_Suc_u32)
  have seg: "seg_seq ?seg = b" "seg_ack ?seg = a + 1" by (simp_all add: tcp_info_def)
  have "\<not> (TCP_FLG_ISSET ?fl TCP_FLG_ACK \<and> (seg_ack ?seg \<le> iss (tcp_pcbs s ! i) \<or> seg_ack ?seg > snd_nxt (tcp_pcbs s ! i)))"
    using lt st(2,4) seg by (simp add: not_le)
  moreover have "(TCP_FLG_ISSET ?fl TCP_FLG_ACK \<and> snd_una (tcp_pcbs s ! i) \<le> seg_ack ?seg \<and> seg_ack ?seg \<le> snd_nxt (tcp_pcbs s ! i)) = True"
    using lt st(3,4) seg syn by simp
  moreover have "(iss (tcp_pcbs s ! i) < snd_una (pcb_synced ?seg True (tcp_pcbs s ! i))) = True"
    using lt st(2) seg by (simp add: pcb_synced_def Let_def)
  ultimately obtain s' where s': "tcp_arrives_syn_sent i ?seg ?fl local foreign s = Some s'" "tcp_step i s s'"
    "tcp_pcbs s' ! i = (pcb_synced ?seg True (tcp_pcbs s ! i))\<lparr>tstate := TCP_PCB_STATE_ESTABLISHED, snd_wnd := seg_wnd ?seg,
       snd_wl1 := b, snd_wl2 := a + 1, tctx := sched_wakeup (tctx (tcp_pcbs s ! i))\<rparr>"
    "tcp_emits (tcp_segment (host_order s) (a + 1) (b + 1) TCP_FLG_ACK (rcv_wnd (tcp_pcbs s ! i)) [] local foreign) local foreign s s'"
    using tcp_arrives_syn_sent_syn [OF ok i syn(1), of ?seg local foreign] st(4) ep seg
    by (auto simp only: Let_def if_True)
  have "tcp_synced local foreign (a + 1) (b + 1) (tcp_pcbs s' ! i)"
    unfolding s'(3) using st(4) ep seg by (simp add: tcp_synced_def pcb_synced_def Let_def)
  then show ?thesis
    using s' sel st(1) by (intro exI [of _ s']) (simp add: tcp_segment_arrives_def)
qed

text \<open>The acknowledgment arrives at the server.\<close>

lemma tcp_ack_arrives:
  fixes w
  assumes ok: "tcp_ok s" and sel: "tcp_pcb_select local (Some foreign) (tcp_pcbs s) = Some i"
    and st: "tstate (tcp_pcbs s ! i) = TCP_PCB_STATE_SYN_RECEIVED" "snd_una (tcp_pcbs s ! i) = b" "snd_nxt (tcp_pcbs s ! i) = b + 1"
      "b \<noteq> -1" "rcv_nxt (tcp_pcbs s ! i) = x" "rcv_wnd (tcp_pcbs s ! i) = mk16 TCP_BUF_SIZE" "unat x + 65535 < 2 ^ 32"
    and ep: "tlocal (tcp_pcbs s ! i) = local" "tforeign (tcp_pcbs s ! i) = foreign"
  shows "\<exists>s'. tcp_segment_arrives (tcp_info x (b + 1) TCP_FLG_ACK w 0 0) TCP_FLG_ACK data 0 local foreign s = Some s' \<and> tcp_step i s s' \<and>
    tcp_synced local foreign (b + 1) x (tcp_pcbs s' ! i) \<and> interrupted (tctx (tcp_pcbs s' ! i)) = interrupted (tctx (tcp_pcbs s ! i))"
proof -
  let ?seg = "tcp_info x (b + 1) TCP_FLG_ACK w 0 0"
  let ?f = "\<lambda>pcb. pcb\<lparr>tstate := TCP_PCB_STATE_ESTABLISHED\<rparr>"
  let ?s1 = "upd_tcp_pcb i ?f s"
  have i: "i < 16" using tcp_select_SomeD(1) [OF sel] tcp_okD(3) [OF ok] by simp
  have lt: "b < b + 1" using st(4) by (rule less_Suc_u32)
  have seg: "seg_seq ?seg = x" "seg_ack ?seg = b + 1" "seg_len ?seg = 0" by (simp_all add: tcp_info_def TCP_FLG_ISSET_def)
  have fl: "TCP_FLG_ISSET TCP_FLG_ACK TCP_FLG_ACK" "\<not> TCP_FLG_ISSET TCP_FLG_ACK TCP_FLG_FIN" by (simp_all add: TCP_FLG_ISSET_def)
  have w: "unat (mk16 TCP_BUF_SIZE) = 65535" by (simp add: TCP_BUF_SIZE_def)
  then have w0: "mk16 TCP_BUF_SIZE \<noteq> 0" by (metis unat_0 zero_neq_numeral)
  then have "tcp_in_window x (tcp_pcbs s ! i)"
    using less_add_ucast [of x "mk16 TCP_BUF_SIZE"] st(5-7) w by (simp add: tcp_in_window_def)
  then have acc: "tcp_acceptable (tcp_pcbs s ! i) ?seg" using st(1,6) seg(1,3) w0 by (simp add: tcp_acceptable_def)
  have step1: "tcp_step i s ?s1" using tcp_okD(4) [OF ok i] by (intro tcp_step_upd [OF ok i]) (simp add: tpcb_ok_def)
  have step2: "tcp_step i ?s1 (tcp_wakeup i ?s1)" using tcp_step_ok [OF step1] i by (rule tcp_step_wakeup)
  note ok2 = tcp_step_ok [OF step2]
  have nth2: "tcp_pcbs (tcp_wakeup i ?s1) ! i = (?f (tcp_pcbs s ! i))\<lparr>tctx := sched_wakeup (tctx (tcp_pcbs s ! i))\<rparr>"
    using i tcp_okD(3) [OF ok] by simp
  let ?s' = "upd_tcp_pcb i (pcb_acked ?seg) (tcp_wakeup i ?s1)"
  have "tcp_arrives_ack i ?seg local foreign (tcp_wakeup i ?s1) = Some (True, ?s')"
    using st(3) seg(2) by (intro tcp_arrives_ack_data [OF ok2 i]; simp only: nth2) simp_all
  moreover have "tcp_arrives_ack i ?seg local foreign (tcp_wakeup i ?s1) = tcp_ack_data i ?seg (tcp_wakeup i ?s1)"
    unfolding tcp_arrives_ack_def Let_def nth2 by simp
  ultimately have "tcp_ack_data i ?seg (tcp_wakeup i ?s1) = Some (True, ?s')" by simp
  then have ack: "tcp_arrives_ack i ?seg local foreign s = Some (True, ?s')"
    using st(1-3) lt seg(2) by (simp add: tcp_arrives_ack_def Let_def)
  have "tpcb_ok (pcb_acked ?seg (tcp_pcbs (tcp_wakeup i ?s1) ! i))" using tcp_okD(4) [OF ok2 i] by (rule tpcb_ok_acked)
  then have step3: "tcp_step i (tcp_wakeup i ?s1) ?s'" by (rule tcp_step_upd [OF ok2 i])
  have nth: "tcp_pcbs ?s' ! i = pcb_acked ?seg ((?f (tcp_pcbs s ! i))\<lparr>tctx := sched_wakeup (tctx (tcp_pcbs s ! i))\<rparr>)"
    using tcp_step_upd_nth [OF ok2 i] nth2 by (simp only:)
  have "tcp_segment_arrives ?seg TCP_FLG_ACK data 0 local foreign s = Some ?s'"
    using sel st(1) acc fl ack by (simp add: tcp_segment_arrives_def tcp_arrives_other_def tcp_arrives_text_def tcp_arrives_fin_def Let_def)
  moreover have "tcp_step i s ?s'" using step1 step2 step3 tcp_step_trans by blast
  moreover have "tcp_synced local foreign (b + 1) x (tcp_pcbs ?s' ! i)"
    unfolding nth using st(2,3,5) ep lt seg(2)
    by (simp add: tcp_synced_def pcb_acked_fields) (simp add: pcb_acked_def pcb_fin_wait_def pcb_new_ack_def Let_def)
  moreover have "interrupted (tctx (tcp_pcbs ?s' ! i)) = interrupted (tctx (tcp_pcbs s ! i))"
    unfolding nth by (simp add: pcb_acked_def pcb_fin_wait_def pcb_new_ack_def Let_def sched_wakeup_def)
  ultimately show ?thesis by blast
qed

text \<open>The waiting command returns once its connection is established.\<close>

lemma tcp_open_resume_done:
  assumes "tcp_ok s" "i < 16" "tstate (tcp_pcbs s ! i) = TCP_PCB_STATE_ESTABLISHED" "\<not> interrupted (tctx (tcp_pcbs s ! i))"
    and "st \<noteq> TCP_PCB_STATE_ESTABLISHED" "ret \<noteq> -1"
  shows "fst (tcp_open_resume i st ret s) = Returned (int i)"
  using assms tcp_step_upd_nth [OF assms(1,2)] tcp_okD(3) [OF assms(1)]
  by (simp add: tcp_open_resume_def sched_sleep_resume_def Let_def tcp_open_loop_def)

text \<open>
  C7. The three-way handshake. A client is in SYN-SENT as an active open leaves it and a server on another host
  of the same byte order listens. The client's SYN makes the server send a SYN with an acknowledgment;
  that makes the client send an acknowledgment and establishes its connection, and the acknowledgment
  establishes the server's. Afterwards each side expects exactly the byte that the other sends next and
  has nothing unacknowledged, and on both sides the waiting open returns the connection. The initial sequence numbers must
  not be so large that the comparisons wrap around; values of \<^verbatim>\<open>random\<close>, below \<open>2 ^ 31\<close>, are not.
\<close>

theorem tcp_handshake:
  fixes sa sb :: "'z tcp_scheme" and ak :: u32 and w :: u16
  assumes ok: "tcp_ok sa" "tcp_ok sb" "host_order sb = host_order sa"
    and client: "tcp_pcb_select la (Some lb) (tcp_pcbs sa) = Some i" "tstate (tcp_pcbs sa ! i) = TCP_PCB_STATE_SYN_SENT"
      "tlocal (tcp_pcbs sa ! i) = la" "tforeign (tcp_pcbs sa ! i) = lb" "iss (tcp_pcbs sa ! i) = a" "snd_una (tcp_pcbs sa ! i) = a"
      "snd_nxt (tcp_pcbs sa ! i) = a + 1" "\<not> interrupted (tctx (tcp_pcbs sa ! i))"
    and server: "tcp_pcb_select lb (Some la) (tcp_pcbs sb) = Some j" "tstate (tcp_pcbs sb ! j) = TCP_PCB_STATE_LISTEN"
      "\<not> interrupted (tctx (tcp_pcbs sb ! j))" "randoms sb 0 = b"
    and numbers: "unat a + 65536 < 2 ^ 32" "b \<noteq> -1"
    and uni: "{ep_addr la, ep_addr lb} \<inter> {IP_ADDR_BROADCAST, broadcast fa, broadcast fb} = {}"
  defines "syn \<equiv> tcp_segment (host_order sa) a ak TCP_FLG_SYN w [] la lb"
    and "syn_ack \<equiv> tcp_segment (host_order sa) b (a + 1) (TCP_FLG_SYN OR TCP_FLG_ACK) (mk16 TCP_BUF_SIZE) [] lb la"
    and "ack \<equiv> tcp_segment (host_order sa) (a + 1) (b + 1) TCP_FLG_ACK (rcv_wnd (tcp_pcbs sa ! i)) [] la lb"
  shows "\<exists>sb1 sa1 sb2.
    tcp_input syn 20 (ep_addr la) (ep_addr lb) fb sb = Some sb1 \<and> tcp_emits syn_ack lb la sb sb1 \<and>
    tcp_input syn_ack 20 (ep_addr lb) (ep_addr la) fa sa = Some sa1 \<and> tcp_emits ack la lb sa sa1 \<and>
    tcp_input ack 20 (ep_addr la) (ep_addr lb) fb sb1 = Some sb2 \<and>
    tcp_synced la lb (a + 1) (b + 1) (tcp_pcbs sa1 ! i) \<and> tcp_synced lb la (b + 1) (a + 1) (tcp_pcbs sb2 ! j) \<and>
    fst (tcp_open_resume i TCP_PCB_STATE_SYN_SENT 0 sa1) = Returned (int i) \<and>
    fst (tcp_open_resume j TCP_PCB_STATE_LISTEN 0 sb2) = Returned (int j)"
proof -
  have ij: "i < 16" "j < 16"
    using tcp_select_SomeD(1) [OF client(1)] tcp_select_SomeD(1) [OF server(1)] tcp_okD(3) [OF ok(1)] tcp_okD(3) [OF ok(2)] by simp_all
  have "a \<noteq> -1" using numbers(1) by (auto simp: unat_minus_1)
  have inp: "tcp_input (tcp_segment (host_order s) sq k fl wn [] src dst) 20 (ep_addr src) (ep_addr dst) f s =
      tcp_segment_arrives (tcp_info sq k fl wn 0 0) fl [] 0 dst src s"
    if "{src, dst} = {la, lb}" "f \<in> {fa, fb}" for s :: "'z tcp_scheme" and sq k fl wn src dst f
    using tcp_input_segment [of "[]" src f dst s sq k fl wn "[]"] uni that by (auto simp: doubleton_eq_iff)
  obtain sb1 where sb1: "tcp_segment_arrives (tcp_info a ak TCP_FLG_SYN w 0 0) TCP_FLG_SYN [] 0 lb la sb = Some sb1" "tcp_step j sb sb1"
      "tstate (tcp_pcbs sb1 ! j) = TCP_PCB_STATE_SYN_RECEIVED" "tlocal (tcp_pcbs sb1 ! j) = lb" "tforeign (tcp_pcbs sb1 ! j) = la"
      "rcv_nxt (tcp_pcbs sb1 ! j) = a + 1" "rcv_wnd (tcp_pcbs sb1 ! j) = mk16 TCP_BUF_SIZE" "snd_una (tcp_pcbs sb1 ! j) = b"
      "snd_nxt (tcp_pcbs sb1 ! j) = b + 1" "tctx (tcp_pcbs sb1 ! j) = tctx (tcp_pcbs sb ! j)" "tcp_emits syn_ack lb la sb sb1"
    using tcp_syn_arrives [OF ok(2) server(1,2), of a ak w "[]"] server(4) ok(3) by (auto simp: syn_ack_def Let_def)
  obtain sa1 where sa1: "tcp_segment_arrives (tcp_info b (a + 1) (TCP_FLG_SYN OR TCP_FLG_ACK) (mk16 TCP_BUF_SIZE) 0 0)
        (TCP_FLG_SYN OR TCP_FLG_ACK) [] 0 la lb sa = Some sa1" "tcp_step i sa sa1" "tcp_synced la lb (a + 1) (b + 1) (tcp_pcbs sa1 ! i)"
      "tctx (tcp_pcbs sa1 ! i) = sched_wakeup (tctx (tcp_pcbs sa ! i))" "tcp_emits ack la lb sa sa1"
    using tcp_syn_ack_arrives [OF ok(1) client(1,2,5,6,7) \<open>a \<noteq> -1\<close> client(3,4)] unfolding ack_def by blast
  have sel: "tcp_pcb_select lb (Some la) (tcp_pcbs sb1) = Some j"
    using server(1) ok(2) sb1(2,4,5) by (rule tcp_select_connected)
  have "unat (a + 1) + 65535 < 2 ^ 32" using numbers(1) by (simp add: unat_plus_if_size word_size)
  from tcp_ack_arrives [OF tcp_step_ok [OF sb1(2)] sel sb1(3,8,9) numbers(2) sb1(6,7) this sb1(4,5)]
  obtain sb2 where sb2: "tcp_segment_arrives (tcp_info (a + 1) (b + 1) TCP_FLG_ACK (rcv_wnd (tcp_pcbs sa ! i)) 0 0) TCP_FLG_ACK [] 0 lb la sb1 = Some sb2"
      "tcp_step j sb1 sb2" "tcp_synced lb la (b + 1) (a + 1) (tcp_pcbs sb2 ! j)" "\<not> interrupted (tctx (tcp_pcbs sb2 ! j))"
    using sb1(10) server(3) by metis
  have hb: "host_order sb1 = host_order sa" using stack_frameD(1) [of sb sb1] sb1(2) ok(3) by (simp add: tcp_step_def)
  have "fst (tcp_open_resume i TCP_PCB_STATE_SYN_SENT 0 sa1) = Returned (int i)"
    using sa1(3,4) client(8) by (intro tcp_open_resume_done [OF tcp_step_ok [OF sa1(2)] ij(1)]) (simp_all add: tcp_synced_def sched_wakeup_def)
  moreover have "fst (tcp_open_resume j TCP_PCB_STATE_LISTEN 0 sb2) = Returned (int j)"
    using sb2(3,4) by (intro tcp_open_resume_done [OF tcp_step_ok [OF sb2(2)] ij(2)]) (simp_all add: tcp_synced_def)
  moreover have "tcp_input syn 20 (ep_addr la) (ep_addr lb) fb sb = Some sb1"
    using inp [of la lb fb sb] sb1(1) ok(3) by (simp add: syn_def)
  moreover have "tcp_input syn_ack 20 (ep_addr lb) (ep_addr la) fa sa = Some sa1"
    using inp [of lb la fa sa] sa1(1) by (simp add: syn_ack_def insert_commute)
  moreover have "tcp_input ack 20 (ep_addr la) (ep_addr lb) fb sb1 = Some sb2"
    using inp [of la lb fb sb1] sb2(1) hb by (simp add: ack_def)
  ultimately show ?thesis using sb1(11) sa1(3,5) sb2(3) by blast
qed

section \<open>Evaluation\<close>

abbreviation "host_a \<equiv> tcp_example 0x0A000001 [(pcb_example TCP_PCB_STATE_SYN_SENT ep_a ep_b)\<lparr>snd_nxt := 1\<rparr>]"


theorem tcp_handshake_witness:
  "\<exists>sb1 sa1 sb2.
     tcp_input (tcp_segment Big 0 0 TCP_FLG_SYN 1000 [] ep_a ep_b) 20 0x0A000001 0x0A000002 (host_iface 0x0A000002) (host_b 2) = Some sb1 \<and>
     tcp_input (tcp_segment Big 0 1 (TCP_FLG_SYN OR TCP_FLG_ACK) (mk16 TCP_BUF_SIZE) [] ep_b ep_a) 20 0x0A000002 0x0A000001
       (host_iface 0x0A000001) host_a = Some sa1 \<and>
     tcp_input (tcp_segment Big 1 1 TCP_FLG_ACK 1000 [] ep_a ep_b) 20 0x0A000001 0x0A000002 (host_iface 0x0A000002) sb1 = Some sb2 \<and>
     tcp_synced ep_a ep_b 1 1 (tcp_pcbs sa1 ! 0) \<and> tcp_synced ep_b ep_a 1 1 (tcp_pcbs sb2 ! 0)"
proof -
  have "tcp_ok host_a" using tpcb_ok_pcb_example [of 3 ep_a ep_b] by (intro tcp_ok_example) (simp_all add: tpcb_ok_def)
  moreover have "tcp_pcb_select ep_a (Some ep_b) (tcp_pcbs host_a) = Some 0" by (simp add: tcp_example_simps(1) tcp_pcb_select_def)
  moreover have "iss (tcp_pcbs host_a ! 0) = 0" by (simp add: pcb_example_def zero_tcp_pcb_def)
  ultimately show ?thesis
    using tcp_handshake [where sa = host_a and sb = "host_b 2" and la = ep_a and lb = ep_b and i = 0 and j = 0 and a = 0 and b = 0
        and fa = "host_iface 0x0A000001" and fb = "host_iface 0x0A000002" and ak = 0 and w = 1000] tcp_ok_one [of 2] tcp_example_select
    by (simp add: tcp_example_simps(2,6) host_iface_def IP_ADDR_BROADCAST_def) blast
qed

end
