(* ===== verification/Tcp_Timer.thy ===== *)
theory Tcp_Timer
  imports Tcp
begin

text \<open>
  Retransmission (\<^verbatim>\<open>src/src/tcp.c\<close>). The operations, \<^verbatim>\<open>tcp_retransmit_queue_emit\<close> and \<^verbatim>\<open>tcp_timer\<close>, are
  defined in theory \<open>Tcp\<close>. Here: what the timer does with one entry of a queue, and that a run of the timer
  handles every entry of every queue once, keeps the segments as they were sent and closes a connection
  only when an entry has been unacknowledged for too long.
\<close>

section \<open>One entry\<close>

lemma stack_frame_clock: "stack_frame s (s\<lparr>clock := cl\<rparr>)"
  by (rule stack_frame_same_below) simp

lemma tcp_step_clock: "tcp_ok s \<Longrightarrow> tcp_step i s (s\<lparr>clock := cl\<rparr>)"
  using stack_frame_clock by (auto simp: tcp_step_def)

lemma tcp_emit_ok:
  assumes ok: "tcp_ok s" "i < 16" and j: "j < length (tqueue (tcp_pcbs s ! i))"
  defines "pcb \<equiv> tcp_pcbs s ! i" and "now \<equiv> clock s 0"
  defines "e \<equiv> tqueue pcb ! j"
  shows "\<exists>s'. tcp_retransmit_queue_emit i j s = Some s' \<and> tcp_step i s s' \<and>
    (if TCP_RETRANSMIT_DEADLINE \<le> tv_sec (timersub now (q_first e))
     then same_below s s' \<and> tcp_pcbs s' ! i = pcb\<lparr>tstate := TCP_PCB_STATE_CLOSED, tctx := sched_wakeup (tctx pcb)\<rparr>
     else if timercmp_less (timeval_add_usec (q_last e) (unat (q_rto e))) now
     then tcp_pcbs s' ! i = pcb\<lparr>tqueue := (tqueue pcb)[j := e\<lparr>q_last := now, q_rto := q_rto e * 2\<rparr>]\<rparr> \<and>
       tcp_emits (tcp_segment (host_order s) (q_seq e) (rcv_nxt pcb) (q_flg e) (rcv_wnd pcb) (q_data e) (tlocal pcb) (tforeign pcb))
         (tlocal pcb) (tforeign pcb) s s'
     else same_below s s' \<and> tcp_pcbs s' = tcp_pcbs s)"
proof -
  let ?s0 = "s\<lparr>clock := advance (clock s)\<rparr>"
  have pok: "tpcb_ok pcb" using tcp_okD(4) [OF ok] by (simp add: pcb_def)
  have e: "q_len e = length (q_data e)" "q_len e \<le> 65495"
    using pok nth_mem [OF j] by (auto simp: tpcb_ok_def tentry_ok_def pcb_def e_def)
  have ok0: "tcp_ok ?s0" and step0: "tcp_step i s ?s0" using ok(1) tcp_step_clock by simp_all
  consider (late) "TCP_RETRANSMIT_DEADLINE \<le> tv_sec (timersub now (q_first e))"
    | (due) "\<not> TCP_RETRANSMIT_DEADLINE \<le> tv_sec (timersub now (q_first e))"
        "timercmp_less (timeval_add_usec (q_last e) (unat (q_rto e))) now"
    | (wait) "\<not> TCP_RETRANSMIT_DEADLINE \<le> tv_sec (timersub now (q_first e))"
        "\<not> timercmp_less (timeval_add_usec (q_last e) (unat (q_rto e))) now" by blast
  then show ?thesis
  proof cases
    case late
    let ?s1 = "upd_tcp_pcb i (\<lambda>pcb. pcb\<lparr>tstate := TCP_PCB_STATE_CLOSED\<rparr>) ?s0"
    have step1: "tcp_step i ?s0 ?s1"
      using pok by (intro tcp_step_upd [OF ok0 ok(2)]) (simp add: tpcb_ok_def pcb_def)
    have "tcp_step i s (tcp_wakeup i ?s1)"
      using step0 step1 tcp_step_wakeup [OF tcp_step_ok [OF step1] ok(2)] tcp_step_trans by blast
    moreover have "same_below s (tcp_wakeup i ?s1)"
      using same_below_updates(2) same_below_trans [OF same_below_updates(6) same_below_updates(7)] by (rule same_below_trans)
    ultimately show ?thesis
      using late ok(2) tcp_okD(3) [OF ok(1)]
      by (simp add: tcp_retransmit_queue_emit_def gettimeofday_def Let_def pcb_def e_def now_def)
  next
    case due
    obtain r s1 where s1: "tcp_output_segment (q_seq e) (rcv_nxt pcb) (q_flg e) (rcv_wnd pcb) (q_data e) (q_len e)
          (tlocal pcb) (tforeign pcb) ?s0 = Some (r, s1)" "tcp_ok s1" "ip_frame ?s0 s1"
        "tcp_emits (tcp_segment (host_order s) (q_seq e) (rcv_nxt pcb) (q_flg e) (rcv_wnd pcb) (q_data e) (tlocal pcb) (tforeign pcb))
          (tlocal pcb) (tforeign pcb) ?s0 s1"
      using tcp_output_segment_ok [OF ok0, of "q_len e" "q_data e" "q_seq e" "rcv_nxt pcb" "q_flg e" "rcv_wnd pcb" "tlocal pcb" "tforeign pcb"] e
      by auto
    let ?f = "\<lambda>pcb. pcb\<lparr>tqueue := (tqueue pcb)[j := e\<lparr>q_last := now, q_rto := q_rto e * 2\<rparr>]\<rparr>"
    have pcbs: "tcp_pcbs s1 = tcp_pcbs s" using ip_frame_tcp [OF s1(3)] by simp
    have "tcp_step i ?s0 s1" using s1(2,3) pcbs by (intro tcp_step_same_pcbs) (simp_all add: stack_frame_ip)
    then have step1: "tcp_step i s s1" using step0 tcp_step_trans by blast
    have "tpcb_ok (?f (tcp_pcbs s1 ! i))"
      using pok e unfolding pcbs pcb_def [symmetric] tpcb_ok_def tentry_ok_def by (auto dest!: set_update_subset_insert [THEN subsetD])
    then have step2: "tcp_step i s1 (upd_tcp_pcb i ?f s1)" by (rule tcp_step_upd [OF s1(2) ok(2)])
    have nth: "tcp_pcbs (upd_tcp_pcb i ?f s1) ! i = ?f pcb"
      using tcp_step_upd_nth [OF s1(2) ok(2)] pcbs by (simp only: pcb_def)
    have "tcp_emits (tcp_segment (host_order s) (q_seq e) (rcv_nxt pcb) (q_flg e) (rcv_wnd pcb) (q_data e) (tlocal pcb) (tforeign pcb))
        (tlocal pcb) (tforeign pcb) s (upd_tcp_pcb i ?f s1)"
      using same_below_updates(2) s1(4) same_below_updates(6) by (rule tcp_emits_same_below)
    moreover have "tcp_retransmit_queue_emit i j s = Some (upd_tcp_pcb i ?f s1)"
      using due s1(1) by (simp add: tcp_retransmit_queue_emit_def gettimeofday_def Let_def pcb_def e_def now_def)
    ultimately show ?thesis using due nth tcp_step_trans [OF step1 step2] by auto
  next
    case wait
    then show ?thesis
      using step0 by (simp add: tcp_retransmit_queue_emit_def gettimeofday_def Let_def pcb_def e_def now_def)
  qed
qed

text \<open>
  C23. Retransmission policy. An entry that has been unacknowledged for 12 seconds or more closes its connection
  and wakes the task that waits on it; otherwise, when its timeout has passed since it was last sent, the
  same segment goes out again, with the current acknowledgment and window, and its timeout doubles; otherwise
  nothing happens. Other connections are not touched.
\<close>

theorem tcp_retransmit_policy:
  assumes "tcp_ok s" "i < 16" "j < length (tqueue (tcp_pcbs s ! i))"
    and "pcb = tcp_pcbs s ! i" "e = tqueue pcb ! j" "now = clock s 0"
  shows "\<exists>s'. tcp_retransmit_queue_emit i j s = Some s' \<and> tcp_step i s s' \<and>
    (if 12 \<le> tv_sec (timersub now (q_first e))
     then same_below s s' \<and> tcp_pcbs s' ! i = pcb\<lparr>tstate := TCP_PCB_STATE_CLOSED, tctx := sched_wakeup (tctx pcb)\<rparr>
     else if timercmp_less (timeval_add_usec (q_last e) (unat (q_rto e))) now
     then tcp_pcbs s' ! i = pcb\<lparr>tqueue := (tqueue pcb)[j := e\<lparr>q_last := now, q_rto := q_rto e * 2\<rparr>]\<rparr> \<and>
       tcp_emits (tcp_segment (host_order s) (q_seq e) (rcv_nxt pcb) (q_flg e) (rcv_wnd pcb) (q_data e) (tlocal pcb) (tforeign pcb))
         (tlocal pcb) (tforeign pcb) s s'
     else same_below s s' \<and> tcp_pcbs s' = tcp_pcbs s)"
  using tcp_emit_ok [OF assms(1-3)] unfolding assms(4-6) TCP_RETRANSMIT_DEADLINE_def .

section \<open>A run of the timer\<close>

text \<open>An entry and a control block before and after a run.\<close>

definition entry_timed :: "tcp_queue_entry \<Rightarrow> tcp_queue_entry \<Rightarrow> bool" where
  "entry_timed e e' \<longleftrightarrow> e' = e \<or> (\<exists>now. e' = e\<lparr>q_last := now, q_rto := q_rto e * 2\<rparr>)"

definition pcb_timed :: "tcp_pcb \<Rightarrow> tcp_pcb \<Rightarrow> bool" where
  "pcb_timed pcb pcb' \<longleftrightarrow>
     (\<exists>st c q. pcb' = pcb\<lparr>tstate := st, tctx := c, tqueue := q\<rparr> \<and> list_all2 entry_timed (tqueue pcb) q \<and>
        (st = tstate pcb \<and> c = tctx pcb \<or> st = TCP_PCB_STATE_CLOSED \<and> tqueue pcb \<noteq> [] \<and> tstate pcb \<noteq> TCP_PCB_STATE_FREE))"

lemma entry_timed_refl [simp, intro]: "entry_timed e e"
  by (simp add: entry_timed_def)

lemma pcb_timed_refl [simp, intro]: "pcb_timed pcb pcb"
  unfolding pcb_timed_def
  by (intro exI [of _ "tstate pcb"] exI [of _ "tctx pcb"] exI [of _ "tqueue pcb"]) (simp add: list_all2_refl)

lemma tcp_emit_timed:
  assumes "tcp_ok s" "i < 16" and j: "j < length (tqueue (tcp_pcbs s ! i))"
  shows "\<exists>s' st c e'. tcp_retransmit_queue_emit i j s = Some s' \<and> tcp_step i s s' \<and>
    tcp_pcbs s' ! i = (tcp_pcbs s ! i)\<lparr>tstate := st, tctx := c, tqueue := (tqueue (tcp_pcbs s ! i))[j := e']\<rparr> \<and>
    entry_timed (tqueue (tcp_pcbs s ! i) ! j) e' \<and>
    (st = tstate (tcp_pcbs s ! i) \<and> c = tctx (tcp_pcbs s ! i) \<or> st = TCP_PCB_STATE_CLOSED)"
proof -
  let ?pcb = "tcp_pcbs s ! i"
  let ?e = "tqueue ?pcb ! j"
  let ?late = "TCP_RETRANSMIT_DEADLINE \<le> tv_sec (timersub (clock s 0) (q_first ?e))"
    and ?due = "timercmp_less (timeval_add_usec (q_last ?e) (unat (q_rto ?e))) (clock s 0)"
  from tcp_emit_ok [OF assms] obtain s' where s': "tcp_retransmit_queue_emit i j s = Some s'" "tcp_step i s s'"
    and eq: "?late \<Longrightarrow> tcp_pcbs s' ! i = ?pcb\<lparr>tstate := TCP_PCB_STATE_CLOSED, tctx := sched_wakeup (tctx ?pcb)\<rparr>"
      "\<not> ?late \<Longrightarrow> ?due \<Longrightarrow> tcp_pcbs s' ! i = ?pcb\<lparr>tqueue := (tqueue ?pcb)[j := ?e\<lparr>q_last := clock s 0, q_rto := q_rto ?e * 2\<rparr>]\<rparr>"
      "\<not> ?late \<Longrightarrow> \<not> ?due \<Longrightarrow> tcp_pcbs s' ! i = ?pcb"
    by metis
  have *: ?thesis if "tcp_pcbs s' ! i = ?pcb\<lparr>tstate := st, tctx := c, tqueue := (tqueue ?pcb)[j := e']\<rparr>" "entry_timed ?e e'"
      "st = tstate ?pcb \<and> c = tctx ?pcb \<or> st = TCP_PCB_STATE_CLOSED" for st c e'
    using s' that by (intro exI conjI)
  consider ?late | "\<not> ?late" ?due | "\<not> ?late" "\<not> ?due" by blast
  then show ?thesis
  proof cases
    case 1
    from eq(1) [OF this] show ?thesis by (intro * [where st = TCP_PCB_STATE_CLOSED and c = "sched_wakeup (tctx ?pcb)" and e' = ?e]) simp_all
  next
    case 2
    let ?e' = "?e\<lparr>q_last := clock s 0, q_rto := q_rto ?e * 2\<rparr>"
    from eq(2) [OF 2] show ?thesis by (intro * [where st = "tstate ?pcb" and c = "tctx ?pcb" and e' = ?e']) (auto simp: entry_timed_def)
  next
    case 3
    from eq(3) [OF 3] show ?thesis by (intro * [where st = "tstate ?pcb" and c = "tctx ?pcb" and e' = ?e]) simp_all
  qed
qed

text \<open>The entries from position \<open>m\<close> on are handled, each once.\<close>

lemma tcp_emit_all_ok:
  assumes "tcp_ok s" "i < 16" "m \<le> length (tqueue (tcp_pcbs s ! i))"
  shows "\<exists>s' st c q. tcp_emit_all i [m ..< length (tqueue (tcp_pcbs s ! i))] s = Some s' \<and> tcp_step i s s' \<and>
    tcp_pcbs s' ! i = (tcp_pcbs s ! i)\<lparr>tstate := st, tctx := c, tqueue := take m (tqueue (tcp_pcbs s ! i)) @ q\<rparr> \<and>
    list_all2 entry_timed (drop m (tqueue (tcp_pcbs s ! i))) q \<and>
    (st = tstate (tcp_pcbs s ! i) \<and> c = tctx (tcp_pcbs s ! i) \<or> st = TCP_PCB_STATE_CLOSED \<and> m < length (tqueue (tcp_pcbs s ! i)))"
  using assms
proof (induction "length (tqueue (tcp_pcbs s ! i)) - m" arbitrary: m s)
  case 0
  then show ?case
    using tcp_step_refl [OF 0(2)]
    by (auto intro!: exI [of _ "tstate (tcp_pcbs s ! i)"] exI [of _ "tctx (tcp_pcbs s ! i)"] exI [of _ "[]"])
next
  case (Suc n)
  let ?pcb = "tcp_pcbs s ! i"
  let ?q = "tqueue ?pcb"
  have m: "m < length ?q" using Suc.hyps(2) by simp
  obtain s1 st c e' where s1: "tcp_retransmit_queue_emit i m s = Some s1" "tcp_step i s s1"
      "tcp_pcbs s1 ! i = ?pcb\<lparr>tstate := st, tctx := c, tqueue := ?q[m := e']\<rparr>" "entry_timed (?q ! m) e'"
      "st = tstate ?pcb \<and> c = tctx ?pcb \<or> st = TCP_PCB_STATE_CLOSED"
    using tcp_emit_timed [OF Suc.prems(1,2) m] by blast
  have n: "n = length ?q - Suc m" using Suc.hyps(2) by simp
  have len: "length (tqueue (tcp_pcbs s1 ! i)) = length ?q" using s1(3) by simp
  obtain s' st' c' q where s': "tcp_emit_all i [Suc m ..< length ?q] s1 = Some s'" "tcp_step i s1 s'"
      "tcp_pcbs s' ! i = ?pcb\<lparr>tstate := st', tctx := c', tqueue := take (Suc m) (?q[m := e']) @ q\<rparr>"
      "list_all2 entry_timed (drop (Suc m) (?q[m := e'])) q"
      "st' = st \<and> c' = c \<or> st' = TCP_PCB_STATE_CLOSED"
    using Suc.hyps(1) [of s1 "Suc m"] n Suc.prems(2) tcp_step_ok [OF s1(2)] m unfolding len s1(3) by auto
  have "[m ..< length ?q] = m # [Suc m ..< length ?q]" using m by (rule upt_conv_Cons)
  then have "tcp_emit_all i [m ..< length ?q] s = Some s'" using s1(1) s'(1) by simp
  moreover have "tcp_step i s s'" using s1(2) s'(2) by (rule tcp_step_trans)
  moreover have "take (Suc m) (?q[m := e']) @ q = take m ?q @ e' # q" using m by (simp add: take_Suc_conv_app_nth)
  moreover have "list_all2 entry_timed (drop m ?q) (e' # q)"
    using s'(4) s1(4) m by (simp add: Cons_nth_drop_Suc [symmetric])
  ultimately show ?case using s'(3,5) s1(5) m by auto
qed

lemma tcp_timer_loop_ok:
  assumes "tcp_ok s" "distinct is" "set is \<subseteq> {..< 16}"
  shows "\<exists>s'. tcp_timer_loop is s = Some s' \<and> tcp_ok s' \<and> stack_frame s s' \<and>
    (\<forall>i. if i \<in> set is then pcb_timed (tcp_pcbs s ! i) (tcp_pcbs s' ! i) else tcp_pcbs s' ! i = tcp_pcbs s ! i)"
  using assms
proof (induction "is" arbitrary: s)
  case Nil
  then show ?case by simp
next
  case (Cons i "is")
  let ?pcb = "tcp_pcbs s ! i"
  have i: "i < 16" using Cons.prems(3) by simp
  obtain s1 where s1: "tcp_timer_loop (i # is) s = tcp_timer_loop is s1" "tcp_step i s s1" "pcb_timed ?pcb (tcp_pcbs s1 ! i)"
  proof (cases "tstate ?pcb = TCP_PCB_STATE_FREE")
    case True
    then show ?thesis using that [of s] tcp_step_refl [OF Cons.prems(1)] by simp
  next
    case False
    obtain s1 st c q where "tcp_emit_all i [0 ..< length (tqueue ?pcb)] s = Some s1" "tcp_step i s s1"
      "tcp_pcbs s1 ! i = ?pcb\<lparr>tstate := st, tctx := c, tqueue := q\<rparr>" "list_all2 entry_timed (tqueue ?pcb) q"
      "st = tstate ?pcb \<and> c = tctx ?pcb \<or> st = TCP_PCB_STATE_CLOSED \<and> 0 < length (tqueue ?pcb)"
      using tcp_emit_all_ok [OF Cons.prems(1) i, of 0] by auto
    then show ?thesis using that [of s1] False unfolding pcb_timed_def by auto
  qed
  obtain s' where s': "tcp_timer_loop is s1 = Some s'" "tcp_ok s'" "stack_frame s1 s'"
    "\<forall>i. if i \<in> set is then pcb_timed (tcp_pcbs s1 ! i) (tcp_pcbs s' ! i) else tcp_pcbs s' ! i = tcp_pcbs s1 ! i"
    using Cons.IH [of s1] Cons.prems(2,3) tcp_step_ok [OF s1(2)] by auto
  have "stack_frame s s'" using s1(2) s'(3) stack_frame_trans by (auto simp: tcp_step_def)
  moreover have "if j \<in> set (i # is) then pcb_timed (tcp_pcbs s ! j) (tcp_pcbs s' ! j) else tcp_pcbs s' ! j = tcp_pcbs s ! j" for j
    using s'(4) [rule_format, of j] s1(2,3) Cons.prems(2) by (cases "j = i") (auto simp: tcp_step_def)
  ultimately show ?case using s1(1) s'(1,2) by simp
qed

lemma tcp_timer_run:
  assumes "tcp_ok s"
  shows "\<exists>s'. tcp_timer s = Some s' \<and> tcp_ok s' \<and> stack_frame s s' \<and> list_all2 pcb_timed (tcp_pcbs s) (tcp_pcbs s')"
proof -
  have l: "length (tcp_pcbs s) = 16" using assms by (rule tcp_okD)
  have "set [0 ..< 16] \<subseteq> {..< 16 :: nat}" by auto
  then obtain s' where s': "tcp_timer s = Some s'" "tcp_ok s'" "stack_frame s s'"
    "\<forall>i. if i \<in> set [0 ..< 16] then pcb_timed (tcp_pcbs s ! i) (tcp_pcbs s' ! i) else tcp_pcbs s' ! i = tcp_pcbs s ! i"
    using tcp_timer_loop_ok [OF assms, of "[0 ..< 16]"] unfolding tcp_timer_def l by auto
  have "list_all2 pcb_timed (tcp_pcbs s) (tcp_pcbs s')"
    using s'(4) l tcp_okD(3) [OF s'(2)] unfolding list_all2_conv_all_nth by auto
  then show ?thesis using s' by blast
qed


section \<open>Evaluation\<close>

definition resend_pcb :: tcp_pcb where
  "resend_pcb = (pcb_example TCP_PCB_STATE_ESTABLISHED ep_b ep_a)\<lparr>tqueue := [tcp_entry \<lparr>tv_sec = 99, tv_usec = 0\<rparr> 5 TCP_FLG_ACK [1, 2]]\<rparr>"

lemma resend_ok: "tcp_ok (tcp_example 0x0A000002 [resend_pcb])"
  using tpcb_ok_pcb_example [of 5 ep_b ep_a]
  by (intro tcp_ok_example) (simp_all add: resend_pcb_def tpcb_ok_def tentry_ok_def tcp_entry_def)

theorem tcp_retransmit_policy_witness:
  "\<exists>s'. tcp_retransmit_queue_emit 0 0 (tcp_example 0x0A000002 [resend_pcb]) = Some s' \<and>
     map q_rto (tqueue (tcp_pcbs s' ! 0)) = [400000] \<and>
     tcp_emits (tcp_segment Big 5 0 TCP_FLG_ACK 1000 [1, 2] ep_b ep_a) ep_b ep_a (tcp_example 0x0A000002 [resend_pcb]) s'"
  using tcp_retransmit_policy [OF resend_ok, of 0 0, OF _ _ refl refl refl]
  by (auto simp: tcp_example_simps(2,7) resend_pcb_def tcp_entry_def timersub_def timercmp_less_def timeval_add_usec_def TCP_DEFAULT_RTO_def)


end
