(* ===== verification/Stack.thy ===== *)
theory Stack
  imports Icmp Tcp_Connect Tcp_Timer
begin

text \<open>
  The stack put together: the functions that call through function pointers and the thread that calls
  them. \<^verbatim>\<open>net_softirq_handler\<close>, \<^verbatim>\<open>net_timer_handler\<close>, \<^verbatim>\<open>net_event_handler\<close> and \<^verbatim>\<open>net_init\<close> of \<^verbatim>\<open>net.c\<close>, the
  interrupt thread of \<^verbatim>\<open>platform/linux/intr.c\<close>. A call through a function pointer is a case
  distinction over the functions that are registered anywhere.
\<close>

section \<open>Model\<close>

definition ip_call ::
  "ip_handler \<Rightarrow> bytes \<Rightarrow> nat \<Rightarrow> u32 \<Rightarrow> u32 \<Rightarrow> ip_iface \<Rightarrow> 'z tcp_scheme \<Rightarrow> 'z tcp_scheme option" where
  "ip_call handler data len src dst iface s =
     (case handler of
        Icmp_input \<Rightarrow> icmp_input data len src dst iface s
      | Udp_input \<Rightarrow> udp_input data len src dst iface s
      | Tcp_input \<Rightarrow> tcp_input data len src dst iface s)"

definition net_call :: "net_handler \<Rightarrow> bytes \<Rightarrow> nat \<Rightarrow> dev_id \<Rightarrow> 'z tcp_scheme \<Rightarrow> 'z tcp_scheme option" where
  "net_call handler data len dev s =
     (case handler of Ip_input \<Rightarrow> ip_input ip_call data len dev s | Arp_input \<Rightarrow> arp_input data len dev s)"

definition timer_call :: "timer_handler \<Rightarrow> 'z tcp_scheme \<Rightarrow> 'z tcp_scheme option" where
  "timer_call handler s = (case handler of Arp_timer_handler \<Rightarrow> Some (arp_timer_handler s) | Tcp_timer \<Rightarrow> tcp_timer s)"

definition event_call :: "event_handler \<Rightarrow> 'z tcp_scheme \<Rightarrow> 'z tcp_scheme" where
  "event_call handler s = (case handler of Udp_event_handler \<Rightarrow> udp_event_handler s | Tcp_event_handler \<Rightarrow> tcp_event_handler s)"

definition isr_call :: "isr \<Rightarrow> nat \<Rightarrow> dev_id \<Rightarrow> 'z tcp_scheme \<Rightarrow> (int \<times> 'z tcp_scheme) option" where
  "isr_call handler i dev s =
     (case handler of
        Dummy_isr \<Rightarrow> dummy_isr i dev s
      | Loopback_isr \<Rightarrow> loopback_isr i dev s
      | Ether_tap_isr \<Rightarrow> ether_tap_isr i dev s)"

subsection \<open>Handlers of the network layer\<close>

text \<open>The inner loop of \<^verbatim>\<open>net_softirq_handler\<close>. It runs until the queue is empty, for ever if handlers kept filling it.\<close>

partial_function (option) softirq_drain :: "nat \<Rightarrow> 'z tcp_scheme \<Rightarrow> 'z tcp_scheme option" where
  "softirq_drain i s =
     (case qpop (pqueue (protocols s ! i)) of
        (None, _) \<Rightarrow> Some s
      | (Some entry, q) \<Rightarrow> do {
          s \<leftarrow> net_call (phandler (protocols s ! i)) (qe_data entry) (qe_len entry) (qe_dev entry)
                (s\<lparr>protocols := (protocols s)[i := (protocols s ! i)\<lparr>pqueue := q\<rparr>]\<rparr>);
          softirq_drain i s
        })"

fun softirq_loop :: "nat list \<Rightarrow> 'z tcp_scheme \<Rightarrow> 'z tcp_scheme option" where
  "softirq_loop [] s = Some s"
| "softirq_loop (i # is) s = do { s \<leftarrow> softirq_drain i s; softirq_loop is s }"

definition net_softirq_handler :: "'z tcp_scheme \<Rightarrow> (int \<times> 'z tcp_scheme) option" where
  "net_softirq_handler s = map_option (Pair 0) (softirq_loop [0 ..< length (protocols s)] s)"

fun timer_loop :: "nat list \<Rightarrow> 'z tcp_scheme \<Rightarrow> 'z tcp_scheme option" where
  "timer_loop [] s = Some s"
| "timer_loop (i # is) s =
     (let timer = timers s ! i; (now, s) = gettimeofday s
      in if timercmp_less (interval timer) (timersub now (last_run timer))
         then do {
           s \<leftarrow> timer_call (thandler timer) s;
           timer_loop is (s\<lparr>timers := (timers s)[i := (timers s ! i)\<lparr>last_run := now\<rparr>]\<rparr>)
         }
         else timer_loop is s)"

definition net_timer_handler :: "'z tcp_scheme \<Rightarrow> (int \<times> 'z tcp_scheme) option" where
  "net_timer_handler s = map_option (Pair 0) (timer_loop [0 ..< length (timers s)] s)"

definition net_event_handler :: "'z tcp_scheme \<Rightarrow> int \<times> 'z tcp_scheme" where
  "net_event_handler s = (0, fold event_call (events s) s)"

definition net_init :: "'z tcp_scheme \<Rightarrow> int \<times> 'z tcp_scheme" where
  "net_init s =
     (let (r, s) = intr_init s in if r = -1 then (-1, s) else
      let (r, s) = ip_init s in if r = -1 then (-1, s) else
      let (r, s) = icmp_init s in if r = -1 then (-1, s) else
      let (r, s) = arp_init s in if r = -1 then (-1, s) else
      let (r, s) = udp_init s in if r = -1 then (-1, s) else
      let (r, s) = tcp_init s in if r = -1 then (-1, s) else (0, s))"

subsection \<open>The interrupt thread\<close>

definition intr_timer_setup :: "'z platform_scheme \<Rightarrow> int \<times> 'z platform_scheme" where
  "intr_timer_setup s =
     (let (r, s) = syscall s
      in if r = -1 then (-1, s) else let (r, s) = syscall s in if r = -1 then (-1, s) else (0, s))"

fun irq_loop :: "irq_entry list \<Rightarrow> nat \<Rightarrow> 'z tcp_scheme \<Rightarrow> 'z tcp_scheme option" where
  "irq_loop [] sig s = Some s"
| "irq_loop (entry # rest) sig s =
     (if irq entry = sig
      then do { (_, s) \<leftarrow> isr_call (irq_handler entry) (irq entry) (irq_dev entry) s; irq_loop rest sig s }
      else irq_loop rest sig s)"

text \<open>The \<^verbatim>\<open>switch\<close> over a signal; the first component is \<^verbatim>\<open>terminate\<close>.\<close>

definition intr_signal :: "nat \<Rightarrow> 'z tcp_scheme \<Rightarrow> (bool \<times> 'z tcp_scheme) option" where
  "intr_signal sig s =
     (if sig = SIGHUP then Some (True, s)
      else if sig = SIGALRM then map_option (\<lambda>(_, s). (False, s)) (net_timer_handler s)
      else if sig = SIGUSR1 then map_option (\<lambda>(_, s). (False, s)) (net_softirq_handler s)
      else if sig = SIGUSR2 then Some (False, snd (net_event_handler s))
      else map_option (Pair False) (irq_loop (irqs s) sig s))"

text \<open>The loop, for what the calls of \<^verbatim>\<open>sigwait\<close> give: an error or a signal. After the last one the thread waits.\<close>

fun intr_loop :: "(int + nat) list \<Rightarrow> 'z tcp_scheme \<Rightarrow> 'z tcp_scheme option" where
  "intr_loop [] s = Some s"
| "intr_loop (Inl err # _) s = Some s"
| "intr_loop (Inr sig # rest) s = do {
     (terminate, s) \<leftarrow> intr_signal sig s;
     if terminate then Some s else intr_loop rest s
   }"

definition intr_thread :: "(int + nat) list \<Rightarrow> 'z tcp_scheme \<Rightarrow> 'z tcp_scheme option" where
  "intr_thread sigs s = (let (r, s) = intr_timer_setup s in if r = -1 then Some s else intr_loop sigs s)"

section \<open>The handlers are safe\<close>

text \<open>
  What a packet must satisfy beyond what the code checks: the header length is at least 20 and at most the total
  length, and a TCP segment has the header that it says it has and text that fits the receive windows.
\<close>

definition segment_ok :: "bytes \<Rightarrow> nat \<Rightarrow> 'z tcp_scheme \<Rightarrow> bool" where
  "segment_ok data n s \<longleftrightarrow> tcp_hlen data \<le> n \<and>
     (\<forall>i < 16. tcp_takes_text (tcp_pcbs s ! i) \<longrightarrow> n - tcp_hlen data \<le> unat (rcv_wnd (tcp_pcbs s ! i)))"

definition packet_ok :: "bytes \<Rightarrow> 'z tcp_scheme \<Rightarrow> bool" where
  "packet_ok data s \<longleftrightarrow> 20 \<le> ip_hlen data \<and> ip_hlen data \<le> ip_total (host_order s) data \<and>
     (\<forall>p \<in> set (ip_protocols s). ip_type p = data ! 9 \<and> ip_handler p = Tcp_input \<longrightarrow>
        segment_ok (drop (ip_hlen data) data) (ip_total (host_order s) data - ip_hlen data) s)"

lemma udp_input_frame:
  assumes "udp_input data len src dst f s = Some s'" "len \<le> length data"
  shows "\<exists>al ps. s' = s\<lparr>allocs := al, udp_pcbs := ps\<rparr>"
proof -
  have "\<exists>al ps. udp_enqueue k e s = s\<lparr>allocs := al, udp_pcbs := ps\<rparr>" for k e
    by (auto simp: udp_enqueue_def set_udp_pcb_def) (metis udp.update_convs(1) udp.surjective)+
  moreover have "s' = s \<or> (\<exists>k e. s' = udp_enqueue k e s)"
  proof (cases "8 \<le> len")
    case True
    then obtain sp dp n where "rd16 (host_order s) data 0 = Some sp" "rd16 (host_order s) data 2 = Some dp" "rd16 (host_order s) data 4 = Some n"
      using assms(2) rd_Some(2) [of 0 data "host_order s"] rd_Some(2) [of 2 data "host_order s"] rd_Some(2) [of 4 data "host_order s"] by auto
    from udp_input_cases [OF assms(2) True refl this, of src dst f] assms(1) show ?thesis by (auto split: if_splits option.splits)
  qed (use assms(1) in \<open>simp add: udp_input_def\<close>)
  moreover have "s = s\<lparr>allocs := allocs s, udp_pcbs := udp_pcbs s\<rparr>" by simp
  ultimately show ?thesis by metis
qed

lemma tcp_ok_ip_frame: "tcp_ok s \<Longrightarrow> ip_frame s s' \<Longrightarrow> ip_ok s' \<Longrightarrow> tcp_ok s'"
  using udp_ok_frame [of s s'] by (simp add: tcp_ok_def ip_frame_tcp)

lemma udp_input_stack:
  assumes "tcp_ok s" "len \<le> length data"
  shows "\<exists>s'. udp_input data len src dst f s = Some s' \<and> tcp_ok s' \<and> stack_frame s s'"
proof -
  obtain s' where s': "udp_input data len src dst f s = Some s'" "udp_ok s'"
    using udp_input_effect [OF tcp_okD(1) [OF assms(1)] assms(2)] by blast
  from udp_input_frame [OF s'(1) assms(2)] obtain al ps where eq: "s' = s\<lparr>allocs := al, udp_pcbs := ps\<rparr>" by blast
  then have "tcp_ok s'" using assms(1) s'(2) by (simp add: tcp_ok_def)
  moreover have "stack_frame s s'" unfolding eq stack_frame_def by (simp add: ip_frame_def arp_frame_def output_frame_def)
  ultimately show ?thesis using s'(1) by blast
qed

lemma ip_call_ok:
  assumes ok: "tcp_ok s" and n: "n \<le> length data" "n \<le> 65515" and seg: "handler = Tcp_input \<longrightarrow> segment_ok data n s"
  shows "\<exists>s'. ip_call handler data n src dst f s = Some s' \<and> tcp_ok s' \<and> stack_frame s s'"
proof (cases handler)
  case Icmp_input
  then show ?thesis
    using icmp_input_total [OF tcp_okD(2) [OF ok] n, of src dst f] tcp_ok_ip_frame [OF ok] stack_frame_ip by (auto simp: ip_call_def)
next
  case Udp_input
  then show ?thesis using udp_input_stack [OF ok n(1)] by (simp add: ip_call_def)
next
  case Tcp_input
  then show ?thesis
    using tcp_input_ok [OF ok n(1), of src dst f] n(2) seg by (auto simp: ip_call_def segment_ok_def)
qed

lemma net_call_ok:
  assumes ok: "tcp_ok s" and dev: "dev_tab s dev = Some d" and len: "len \<le> length data"
    and pkt: "handler = Ip_input \<longrightarrow> ip_accept (host_order s) data len \<longrightarrow> packet_ok data s"
  shows "\<exists>s'. net_call handler data len dev s = Some s' \<and> tcp_ok s' \<and> stack_frame s s'"
proof (cases handler)
  case Arp_input
  have "arp_ok (caches s)" "drvs_ok s" "dev_ok dev d"
    using tcp_okD(2) [OF ok] net_okD(1) [OF _ dev] by (auto simp: ip_ok_def)
  from arp_input_total [OF this(1,2) dev this(3) len] obtain s'
    where s': "arp_input data len dev s = Some s'" "arp_ok (caches s')" "drvs_ok s'" "arp_frame s s'" by blast
  have "tcp_ok s'" using tcp_ok_ip_frame [OF ok ip_frame_arp [OF s'(4)]] ip_ok_frame [OF s'(4) tcp_okD(2) [OF ok] s'(3,2)] by blast
  then show ?thesis using Arp_input s'(1) stack_frame_ip [OF ip_frame_arp [OF s'(4)]] by (simp add: net_call_def)
next
  case Ip_input
  let ?n = "ip_total (host_order s) data - ip_hlen data" and ?data = "drop (ip_hlen data) data"
  from ip_input_reaches [OF len dev, of ip_call]
  show ?thesis
  proof
    assume "ip_input ip_call data len dev s = Some s"
    then show ?thesis using Ip_input ok by (auto simp: net_call_def)
  next
    assume "\<exists>f p n src dst. ip_accept (host_order s) data len \<and> net_device_get_iface d NET_IFACE_FAMILY_IP = Some f \<and>
       dst \<in> {unicast f, IP_ADDR_BROADCAST, broadcast f} \<and> p \<in> set (ip_protocols s) \<and> ip_type p = data ! 9 \<and>
       ip_input ip_call data len dev s = ip_call (ip_handler p) ?data n src dst f s \<and>
       (ip_hlen data \<le> ip_total (host_order s) data \<longrightarrow> n = ?n \<and> n \<le> length ?data)"
    then obtain f p n src dst where acc: "ip_accept (host_order s) data len" and p: "p \<in> set (ip_protocols s)" "ip_type p = data ! 9"
      and eq: "ip_input ip_call data len dev s = ip_call (ip_handler p) ?data n src dst f s"
      and n: "ip_hlen data \<le> ip_total (host_order s) data \<longrightarrow> n = ?n \<and> n \<le> length ?data" by blast
    have pok: "packet_ok data s" using pkt Ip_input acc by simp
    have "ip_total (host_order s) data < 65536" by (simp add: ip_total_def unat_u16_less)
    then have "n \<le> length ?data" "n \<le> 65515" "ip_handler p = Tcp_input \<longrightarrow> segment_ok ?data n s"
      using pok n p by (auto simp: packet_ok_def)
    from ip_call_ok [OF ok this, of src dst f] show ?thesis using Ip_input eq by (simp add: net_call_def)
  qed
qed

section \<open>The software interrupt\<close>

definition set_pqueue :: "nat \<Rightarrow> net_protocol_queue_entry list \<Rightarrow> 'z tcp_scheme \<Rightarrow> 'z tcp_scheme" where
  "set_pqueue i q s = s\<lparr>protocols := (protocols s)[i := (protocols s ! i)\<lparr>pqueue := q\<rparr>]\<rparr>"

lemma protocols_set_pqueue [simp]: "protocols (set_pqueue i q s) = (protocols s)[i := (protocols s ! i)\<lparr>pqueue := q\<rparr>]"
  by (simp add: set_pqueue_def)

text \<open>The invariant of the queues: entries hold as many bytes as they say and name a device that exists.\<close>

definition queue_ok :: "'z tcp_scheme \<Rightarrow> bool" where
  "queue_ok s \<longleftrightarrow> (\<forall>p \<in> set (protocols s). \<forall>e \<in> set (pqueue p). qe_len e \<le> length (qe_data e) \<and> dev_tab s (qe_dev e) \<noteq> None)"

text \<open>What every handler leaves alone: which devices there are, of which kind, and the interrupt requests.\<close>

definition stack_kept :: "'z tcp_scheme \<Rightarrow> 'z tcp_scheme \<Rightarrow> bool" where
  "stack_kept s s' \<longleftrightarrow> irqs s' = irqs s \<and> events s' = events s \<and> (\<forall>i. map_option dev_static (dev_tab s' i) = map_option dev_static (dev_tab s i))"

lemma stack_kept_refl [simp, intro]: "stack_kept s s"
  by (simp add: stack_kept_def)

lemma stack_kept_trans [trans]: "stack_kept s s' \<Longrightarrow> stack_kept s' s'' \<Longrightarrow> stack_kept s s''"
  by (simp add: stack_kept_def)

lemma stack_kept_frame: "stack_frame s s' \<Longrightarrow> stack_kept s s'"
  by (cases s; cases s') (simp add: stack_kept_def stack_frame_def ip_frame_def arp_frame_def output_frame_def)

lemma stack_kept_dev: "stack_kept s s' \<Longrightarrow> dev_tab s' i = None \<longleftrightarrow> dev_tab s i = None"
  unfolding stack_kept_def by (metis map_option_is_None)

lemma queue_ok_kept:
  "queue_ok s \<Longrightarrow> stack_kept s s' \<Longrightarrow> (\<And>p e. p \<in> set (protocols s') \<Longrightarrow> e \<in> set (pqueue p) \<Longrightarrow> \<exists>p \<in> set (protocols s). e \<in> set (pqueue p)) \<Longrightarrow>
   queue_ok s'"
  unfolding queue_ok_def using stack_kept_dev by metis

text \<open>
  The specification: the entries of a queue are handled one by one in order, each removed from the queue before its
  handler is called, and the protocols in the order of the list.
\<close>

fun handle_entries :: "nat \<Rightarrow> net_protocol_queue_entry list \<Rightarrow> 'z tcp_scheme \<Rightarrow> 'z tcp_scheme option" where
  "handle_entries i [] s = Some s"
| "handle_entries i (e # es) s = do {
     s \<leftarrow> net_call (phandler (protocols s ! i)) (qe_data e) (qe_len e) (qe_dev e) (set_pqueue i es s);
     handle_entries i es s
   }"

fun handle_protocols :: "nat list \<Rightarrow> 'z tcp_scheme \<Rightarrow> 'z tcp_scheme option" where
  "handle_protocols [] s = Some s"
| "handle_protocols (i # is) s = do { s \<leftarrow> handle_entries i (pqueue (protocols s ! i)) s; handle_protocols is s }"

text \<open>What must hold of every entry, in the state in which it is handled, beyond what the code checks.\<close>

definition entry_ok :: "net_handler \<Rightarrow> net_protocol_queue_entry \<Rightarrow> 'z tcp_scheme \<Rightarrow> bool" where
  "entry_ok handler e s \<longleftrightarrow>
     (handler = Ip_input \<longrightarrow> ip_accept (host_order s) (qe_data e) (qe_len e) \<longrightarrow> packet_ok (qe_data e) s)"

fun entries_ok :: "nat \<Rightarrow> net_protocol_queue_entry list \<Rightarrow> 'z tcp_scheme \<Rightarrow> bool" where
  "entries_ok i [] s = True"
| "entries_ok i (e # es) s \<longleftrightarrow> entry_ok (phandler (protocols s ! i)) e s \<and>
     (case net_call (phandler (protocols s ! i)) (qe_data e) (qe_len e) (qe_dev e) (set_pqueue i es s) of
        None \<Rightarrow> True | Some s \<Rightarrow> entries_ok i es s)"

fun protocols_ok :: "nat list \<Rightarrow> 'z tcp_scheme \<Rightarrow> bool" where
  "protocols_ok [] s = True"
| "protocols_ok (i # is) s \<longleftrightarrow> entries_ok i (pqueue (protocols s ! i)) s \<and>
     (case handle_entries i (pqueue (protocols s ! i)) s of None \<Rightarrow> True | Some s \<Rightarrow> protocols_ok is s)"

lemma tcp_ok_set_pqueue [simp]: "tcp_ok (set_pqueue i q s) = tcp_ok s"
proof -
  have "map ptype ((protocols s)[i := (protocols s ! i)\<lparr>pqueue := q\<rparr>]) = map ptype (protocols s)"
    by (simp add: map_update list_update_same_conv) (metis length_map list_update_beyond list_update_id map_update net_protocol.simps nth_map linorder_not_le)
  then show ?thesis by (simp add: set_pqueue_def tcp_ok_def udp_ok_def ip_ok_def net_ok_def drvs_ok_def)
qed

lemma set_pqueue_kept [simp]: "stack_kept s (set_pqueue i q s)"
  by (simp add: stack_kept_def set_pqueue_def)

lemma softirq_drain_ok:
  assumes "tcp_ok s" "queue_ok s" "i < length (protocols s)" "q = pqueue (protocols s ! i)" "entries_ok i q s"
  shows "\<exists>s'. softirq_drain i s = Some s' \<and> handle_entries i q s = Some s' \<and> tcp_ok s' \<and> stack_kept s s' \<and>
    protocols s' = (protocols s)[i := (protocols s ! i)\<lparr>pqueue := []\<rparr>] \<and> timers s' = timers s \<and> events s' = events s"
  using assms
proof (induction q arbitrary: s)
  case Nil
  from Nil.prems(4) have "(protocols s ! i)\<lparr>pqueue := []\<rparr> = protocols s ! i" by simp
  then have "(protocols s)[i := (protocols s ! i)\<lparr>pqueue := []\<rparr>] = protocols s" by simp
  moreover have "softirq_drain i s = Some s" using Nil.prems(4) by (subst softirq_drain.simps) (simp flip: Nil.prems(4))
  ultimately show ?case using Nil.prems(1) by simp
next
  case (Cons e q)
  let ?h = "phandler (protocols s ! i)" and ?s0 = "set_pqueue i q s"
  have e: "e \<in> set (pqueue (protocols s ! i))" "set q \<subseteq> set (pqueue (protocols s ! i))" using Cons.prems(4) [symmetric] by auto
  then have "qe_len e \<le> length (qe_data e)" "dev_tab s (qe_dev e) \<noteq> None"
    using Cons.prems(2,3) nth_mem unfolding queue_ok_def by blast+
  then obtain d where d: "dev_tab ?s0 (qe_dev e) = Some d" and len: "qe_len e \<le> length (qe_data e)"
    by (auto simp: set_pqueue_def)
  have pkt: "?h = Ip_input \<longrightarrow> ip_accept (host_order ?s0) (qe_data e) (qe_len e) \<longrightarrow> packet_ok (qe_data e) ?s0"
    using Cons.prems(5) by (auto simp: entry_ok_def set_pqueue_def packet_ok_def segment_ok_def)
  have "tcp_ok ?s0" using Cons.prems(1) by simp
  from net_call_ok [OF this d len pkt]
  obtain s1 where s1: "net_call ?h (qe_data e) (qe_len e) (qe_dev e) ?s0 = Some s1" "tcp_ok s1" "stack_frame ?s0 s1" by blast
  have pr: "protocols s1 = (protocols s)[i := (protocols s ! i)\<lparr>pqueue := q\<rparr>]" "timers s1 = timers s" "events s1 = events s"
    using stack_frameD [OF s1(3)] by (simp_all add: set_pqueue_def)
  have kept: "stack_kept s s1" using set_pqueue_kept stack_kept_frame [OF s1(3)] by (rule stack_kept_trans)
  have "queue_ok s1"
  proof (rule queue_ok_kept [OF Cons.prems(2) kept])
    fix p e' assume "p \<in> set (protocols s1)" "e' \<in> set (pqueue p)"
    then have "p \<in> set (protocols s) \<or> p = (protocols s ! i)\<lparr>pqueue := q\<rparr>"
      unfolding pr using set_update_subset_insert by fastforce
    then show "\<exists>p \<in> set (protocols s). e' \<in> set (pqueue p)"
      using \<open>e' \<in> set (pqueue p)\<close> e(2) nth_mem [OF Cons.prems(3)] by fastforce
  qed
  moreover have "entries_ok i q s1" "q = pqueue (protocols s1 ! i)" "i < length (protocols s1)"
    using Cons.prems(3,5) s1(1) by (simp_all add: pr)
  ultimately obtain s' where s': "softirq_drain i s1 = Some s'" "handle_entries i q s1 = Some s'" "tcp_ok s'" "stack_kept s1 s'"
    "protocols s' = (protocols s1)[i := (protocols s1 ! i)\<lparr>pqueue := []\<rparr>]" "timers s' = timers s1" "events s' = events s1"
    using Cons.IH [OF s1(2)] by blast
  have "softirq_drain i s = softirq_drain i s1"
    using s1(1) by (subst softirq_drain.simps) (simp add: set_pqueue_def flip: Cons.prems(4))
  then show ?case using s' s1(1) pr Cons.prems(3) stack_kept_trans [OF kept s'(4)] by simp
qed

lemma softirq_loop_ok:
  assumes "tcp_ok s" "queue_ok s" "protocols_ok is s" "set is \<subseteq> {..< length (protocols s)}"
  shows "\<exists>s'. softirq_loop is s = Some s' \<and> handle_protocols is s = Some s' \<and> tcp_ok s' \<and> stack_kept s s' \<and>
    length (protocols s') = length (protocols s) \<and> timers s' = timers s \<and> events s' = events s \<and>
    (\<forall>j < length (protocols s). protocols s' ! j =
       (if j \<in> set is then (protocols s ! j)\<lparr>pqueue := []\<rparr> else protocols s ! j))"
  using assms
proof (induction "is" arbitrary: s)
  case Nil
  then show ?case by simp
next
  case (Cons i "is")
  have i: "i < length (protocols s)" using Cons.prems(4) by simp
  obtain s1 where s1: "softirq_drain i s = Some s1" "handle_entries i (pqueue (protocols s ! i)) s = Some s1" "tcp_ok s1" "stack_kept s s1"
    "protocols s1 = (protocols s)[i := (protocols s ! i)\<lparr>pqueue := []\<rparr>]" "timers s1 = timers s" "events s1 = events s"
    using softirq_drain_ok [OF Cons.prems(1,2) i refl] Cons.prems(3) by auto
  have "queue_ok s1"
  proof (rule queue_ok_kept [OF Cons.prems(2) s1(4)])
    fix p e assume p: "p \<in> set (protocols s1)" "e \<in> set (pqueue p)"
    then have "p \<in> set (protocols s) \<or> p = (protocols s ! i)\<lparr>pqueue := []\<rparr>"
      unfolding s1(5) using set_update_subset_insert by fastforce
    then show "\<exists>p \<in> set (protocols s). e \<in> set (pqueue p)" using p(2) by auto
  qed
  moreover have "protocols_ok is s1" "set is \<subseteq> {..< length (protocols s1)}" using Cons.prems(3,4) s1(2,5) by simp_all
  ultimately obtain s' where s': "softirq_loop is s1 = Some s'" "handle_protocols is s1 = Some s'" "tcp_ok s'" "stack_kept s1 s'"
    "length (protocols s') = length (protocols s)" "timers s' = timers s" "events s' = events s"
    "\<forall>j < length (protocols s). protocols s' ! j = (if j \<in> set is then (protocols s1 ! j)\<lparr>pqueue := []\<rparr> else protocols s1 ! j)"
    using Cons.IH [OF s1(3)] s1(5-7) by auto
  have "\<forall>j < length (protocols s). protocols s' ! j = (if j \<in> set (i # is) then (protocols s ! j)\<lparr>pqueue := []\<rparr> else protocols s ! j)"
    using s'(8) s1(5) i by (simp add: nth_list_update)
  then show ?case using s1(1,2) s'(1-7) stack_kept_trans [OF s1(4) s'(4)] by simp
qed

lemma net_softirq_run:
  assumes "tcp_ok s" "queue_ok s" "protocols_ok [0 ..< length (protocols s)] s"
  shows "\<exists>s'. net_softirq_handler s = Some (0, s') \<and> handle_protocols [0 ..< length (protocols s)] s = Some s' \<and> tcp_ok s' \<and> stack_kept s s' \<and>
    protocols s' = map (\<lambda>p. p\<lparr>pqueue := []\<rparr>) (protocols s) \<and> timers s' = timers s \<and> events s' = events s"
proof -
  have "set [0 ..< length (protocols s)] \<subseteq> {..< length (protocols s)}" by auto
  then obtain s' where s': "softirq_loop [0 ..< length (protocols s)] s = Some s'" "handle_protocols [0 ..< length (protocols s)] s = Some s'"
    "tcp_ok s'" "stack_kept s s'" "length (protocols s') = length (protocols s)" "timers s' = timers s" "events s' = events s"
    "\<forall>j < length (protocols s). protocols s' ! j = (protocols s ! j)\<lparr>pqueue := []\<rparr>"
    using softirq_loop_ok [OF assms] by auto
  have "protocols s' = map (\<lambda>p. p\<lparr>pqueue := []\<rparr>) (protocols s)" using s'(5,8) by (simp add: list_eq_iff_nth_eq)
  then show ?thesis using s' by (simp add: net_softirq_handler_def)
qed

text \<open>
  C13. The software interrupt. When every queued IP packet is acceptable in the state in which it is handled,
  \<open>net_softirq_handler\<close> returns: it hands every entry of every protocol's queue to the protocol's handler exactly once,
  in the order of arrival, and leaves all queues empty, the tables unchanged and the invariant intact. One
  interrupt is therefore enough for any number of queued packets.
\<close>

theorem net_softirq_drains:
  assumes "tcp_ok s" "queue_ok s" "protocols_ok [0 ..< length (protocols s)] s"
  shows "\<exists>s'. net_softirq_handler s = Some (0, s') \<and> handle_protocols [0 ..< length (protocols s)] s = Some s' \<and> tcp_ok s' \<and> stack_kept s s' \<and>
    protocols s' = map (\<lambda>p. p\<lparr>pqueue := []\<rparr>) (protocols s) \<and> timers s' = timers s \<and> events s' = events s"
  using assms by (rule net_softirq_run)

section \<open>Timers\<close>

lemma arp_timer_stack:
  assumes "tcp_ok s"
  shows "tcp_ok (arp_timer_handler s)" "stack_frame s (arp_timer_handler s)"
proof -
  have "arp_ok (caches (arp_timer_handler s))"
    using arp_ok_free_some(1) tcp_okD(2) [OF assms] by (simp add: arp_timer_handler_def platform_defs ip_ok_def)
  then show "tcp_ok (arp_timer_handler s)"
    using assms by (simp add: arp_timer_handler_def platform_defs tcp_ok_def udp_ok_def ip_ok_def net_ok_def drvs_ok_def)
  show "stack_frame s (arp_timer_handler s)"
    by (simp add: arp_timer_handler_def platform_defs stack_frame_def ip_frame_def arp_frame_def output_frame_def)
qed

lemma timer_call_ok:
  assumes "tcp_ok s"
  shows "\<exists>s'. timer_call handler s = Some s' \<and> tcp_ok s' \<and> stack_frame s s'"
  using arp_timer_stack [OF assms] tcp_timer_run [OF assms] by (cases handler) (auto simp: timer_call_def)

lemma tcp_ok_timers [simp]: "tcp_ok (s\<lparr>timers := ts\<rparr>) = tcp_ok s"
  by (simp add: tcp_ok_def udp_ok_def ip_ok_def net_ok_def drvs_ok_def)

text \<open>A timer after the handler looked at it at the time \<open>now\<close>.\<close>

definition timer_checked :: "timeval \<Rightarrow> net_timer \<Rightarrow> net_timer" where
  "timer_checked now t = (if timercmp_less (interval t) (timersub now (last_run t)) then t\<lparr>last_run := now\<rparr> else t)"

lemma timer_loop_ok:
  assumes "tcp_ok s" "distinct is" "set is \<subseteq> {..< length (timers s)}"
  shows "\<exists>s' now. timer_loop is s = Some s' \<and> tcp_ok s' \<and> stack_kept s s' \<and> protocols s' = protocols s \<and> events s' = events s \<and>
    length (timers s') = length (timers s) \<and>
    (\<forall>j < length (timers s). timers s' ! j = (if j \<in> set is then timer_checked (now j) (timers s ! j) else timers s ! j)) \<and>
    (is \<noteq> [] \<longrightarrow> now (hd is) = clock s 0)"
  using assms
proof (induction "is" arbitrary: s)
  case Nil
  then show ?case by simp
next
  case (Cons i "is")
  let ?now = "clock s 0" and ?s0 = "s\<lparr>clock := advance (clock s)\<rparr>"
  obtain s1 where s1: "timer_loop (i # is) s = timer_loop is s1" "tcp_ok s1" "protocols s1 = protocols s" "events s1 = events s" "stack_kept s s1"
    "timers s1 = (timers s)[i := timer_checked ?now (timers s ! i)]"
  proof (cases "timercmp_less (interval (timers s ! i)) (timersub ?now (last_run (timers s ! i)))")
    case True
    obtain s1 where "timer_call (thandler (timers s ! i)) ?s0 = Some s1" "tcp_ok s1" "stack_frame ?s0 s1"
      using timer_call_ok [of ?s0] Cons.prems(1) by auto
    then show ?thesis
      using that [of "s1\<lparr>timers := (timers s1)[i := (timers s1 ! i)\<lparr>last_run := ?now\<rparr>]\<rparr>"] True stack_frameD(2-4) [of ?s0 s1]
        stack_kept_frame [of ?s0 s1]
      by (simp add: platform_defs timer_checked_def stack_kept_def)
  next
    case False
    then show ?thesis using that [of ?s0] Cons.prems(1) by (simp add: platform_defs timer_checked_def stack_kept_def)
  qed
  have "set is \<subseteq> {..< length (timers s1)}" using Cons.prems(3) s1(6) by simp
  from Cons.IH [OF s1(2) _ this] Cons.prems(2)
  obtain s' now where s': "timer_loop is s1 = Some s'" "tcp_ok s'" "protocols s' = protocols s" "events s' = events s" "stack_kept s1 s'"
    "length (timers s') = length (timers s)"
    "\<forall>j < length (timers s). timers s' ! j = (if j \<in> set is then timer_checked (now j) (timers s1 ! j) else timers s1 ! j)"
    using s1(3,4,6) by auto
  let ?f = "now(i := ?now)"
  have "timers s' ! j = (if j \<in> set (i # is) then timer_checked (?f j) (timers s ! j) else timers s ! j)" if "j < length (timers s)" for j
    using s'(7) that Cons.prems(2) s1(6) by (cases "j = i") auto
  then show ?case using s1(1) s'(1-6) stack_kept_trans [OF s1(5) s'(5)] by (intro exI [of _ s'] exI [of _ ?f]) simp
qed

lemma net_timer_run:
  assumes "tcp_ok s"
  shows "\<exists>s' now. net_timer_handler s = Some (0, s') \<and> tcp_ok s' \<and> stack_kept s s' \<and> protocols s' = protocols s \<and> events s' = events s \<and>
    (timers s \<noteq> [] \<longrightarrow> now 0 = clock s 0) \<and> length (timers s') = length (timers s) \<and>
    (\<forall>j < length (timers s). timers s' ! j = timer_checked (now j) (timers s ! j))"
proof -
  have "set [0 ..< length (timers s)] \<subseteq> {..< length (timers s)}" by auto
  from timer_loop_ok [OF assms _ this] show ?thesis by (auto simp: net_timer_handler_def hd_upt)
qed


section \<open>Events\<close>

definition interrupts_udp :: "udp_pcb list \<Rightarrow> udp_pcb list \<Rightarrow> bool" where
  "interrupts_udp ps qs \<longleftrightarrow> list_all2 (\<lambda>p q. \<exists>c. q = p\<lparr>uctx := c\<rparr> \<and>
     (if ustate p = UDP_PCB_STATE_OPEN then interrupted c else c = uctx p)) ps qs"

definition interrupts_tcp :: "tcp_pcb list \<Rightarrow> tcp_pcb list \<Rightarrow> bool" where
  "interrupts_tcp ps qs \<longleftrightarrow> list_all2 (\<lambda>p q. \<exists>c. q = p\<lparr>tctx := c\<rparr> \<and>
     (if tstate p \<noteq> TCP_PCB_STATE_FREE then interrupted c else c = tctx p)) ps qs"

lemma udp_interrupt_one:
  assumes "q = p\<lparr>uctx := c\<rparr>" "if ustate p = UDP_PCB_STATE_OPEN then interrupted c \<or> c = uctx p else c = uctx p"
  shows "\<exists>c. (if ustate q = UDP_PCB_STATE_OPEN then q\<lparr>uctx := sched_interrupt (uctx q)\<rparr> else q) = p\<lparr>uctx := c\<rparr> \<and>
    (if ustate p = UDP_PCB_STATE_OPEN then interrupted c else c = uctx p)"
proof (cases "ustate p = UDP_PCB_STATE_OPEN")
  case True
  then show ?thesis using assms(1) by (intro exI [of _ "sched_interrupt c"]) (simp add: sched_interrupt_def)
next
  case False
  then show ?thesis using assms by (intro exI [of _ c]) simp
qed

lemma udp_event_interrupts:
  assumes "interrupts_udp ps (udp_pcbs s) \<or> udp_pcbs s = ps"
  shows "interrupts_udp ps (udp_pcbs (udp_event_handler s))"
proof -
  have "list_all2 (\<lambda>p q. \<exists>c. q = p\<lparr>uctx := c\<rparr> \<and> (if ustate p = UDP_PCB_STATE_OPEN then interrupted c \<or> c = uctx p else c = uctx p)) ps (udp_pcbs s)"
    using assms
  proof
    assume "udp_pcbs s = ps"
    then show ?thesis by (auto simp: list_all2_same intro!: exI [of _ "uctx p" for p])
  qed (auto simp: interrupts_udp_def elim!: list_all2_mono split: if_splits)
  moreover have eq: "udp_pcbs (udp_event_handler s) =
      map (\<lambda>pcb. if ustate pcb = UDP_PCB_STATE_OPEN then pcb\<lparr>uctx := sched_interrupt (uctx pcb)\<rparr> else pcb) (udp_pcbs s)"
    by (simp add: udp_event_handler_def)
  ultimately show ?thesis
    unfolding interrupts_udp_def eq list_all2_map2 by (elim list_all2_mono) (elim exE conjE, rule udp_interrupt_one)
qed

lemma tcp_interrupt_one:
  assumes "q = p\<lparr>tctx := c\<rparr>" "if tstate p \<noteq> TCP_PCB_STATE_FREE then interrupted c \<or> c = tctx p else c = tctx p"
  shows "\<exists>c. (if tstate q \<noteq> TCP_PCB_STATE_FREE then q\<lparr>tctx := sched_interrupt (tctx q)\<rparr> else q) = p\<lparr>tctx := c\<rparr> \<and>
    (if tstate p \<noteq> TCP_PCB_STATE_FREE then interrupted c else c = tctx p)"
proof (cases "tstate p \<noteq> TCP_PCB_STATE_FREE")
  case True
  then show ?thesis using assms(1) by (intro exI [of _ "sched_interrupt c"]) (simp add: sched_interrupt_def)
next
  case False
  then show ?thesis using assms by (intro exI [of _ c]) simp
qed

lemma tcp_event_interrupts:
  assumes "interrupts_tcp ps (tcp_pcbs s) \<or> tcp_pcbs s = ps"
  shows "interrupts_tcp ps (tcp_pcbs (tcp_event_handler s))"
proof -
  have "list_all2 (\<lambda>p q. \<exists>c. q = p\<lparr>tctx := c\<rparr> \<and> (if tstate p \<noteq> TCP_PCB_STATE_FREE then interrupted c \<or> c = tctx p else c = tctx p)) ps (tcp_pcbs s)"
    using assms
  proof
    assume "tcp_pcbs s = ps"
    then show ?thesis by (auto simp: list_all2_same intro!: exI [of _ "tctx p" for p])
  qed (auto simp: interrupts_tcp_def elim!: list_all2_mono split: if_splits)
  moreover have eq: "tcp_pcbs (tcp_event_handler s) =
      map (\<lambda>pcb. if tstate pcb \<noteq> TCP_PCB_STATE_FREE then pcb\<lparr>tctx := sched_interrupt (tctx pcb)\<rparr> else pcb) (tcp_pcbs s)"
    by (simp add: tcp_event_handler_def)
  ultimately show ?thesis
    unfolding interrupts_tcp_def eq list_all2_map2 by (elim list_all2_mono) (elim exE conjE, rule tcp_interrupt_one)
qed

lemma event_calls:
  fixes es s
  defines "s' \<equiv> fold event_call es s"
  shows "(if Udp_event_handler \<in> set es then interrupts_udp (udp_pcbs s) (udp_pcbs s') else udp_pcbs s' = udp_pcbs s) \<and>
   (if Tcp_event_handler \<in> set es then interrupts_tcp (tcp_pcbs s) (tcp_pcbs s') else tcp_pcbs s' = tcp_pcbs s)"
  unfolding s'_def
proof (induction es rule: rev_induct)
  case (snoc x es)
  define t where "t = fold event_call es s"
  have t: "tcp_pcbs (udp_event_handler t) = tcp_pcbs t" "udp_pcbs (tcp_event_handler t) = udp_pcbs t"
    by (simp_all add: udp_event_handler_def tcp_event_handler_def)
  note IH = snoc.IH [folded t_def]
  then have "interrupts_udp (udp_pcbs s) (udp_pcbs (udp_event_handler t))" "interrupts_tcp (tcp_pcbs s) (tcp_pcbs (tcp_event_handler t))"
    by (intro udp_event_interrupts tcp_event_interrupts; simp split: if_splits)+
  moreover have "fold event_call (es @ [x]) s = event_call x t" by (simp add: t_def)
  ultimately show ?case using IH t by (cases x) (simp_all add: event_call_def split: if_splits)
qed simp

text \<open>
  Events reach every waiting task. When UDP and TCP have subscribed, the signal of \<open>net_raise_event\<close> makes the interrupt
  thread interrupt the context of every open UDP control block and of every TCP control block in use, and change nothing
  else of them; by the property of \<open>sched_interrupt\<close> all tasks that sleep there return with an error.
\<close>

lemma net_event_interrupts_all:
  assumes "{Udp_event_handler, Tcp_event_handler} \<subseteq> set (events s)"
  shows "\<exists>s'. intr_signal INTR_IRQ_EVENT s = Some (False, s') \<and>
    interrupts_udp (udp_pcbs s) (udp_pcbs s') \<and> interrupts_tcp (tcp_pcbs s) (tcp_pcbs s')"
  using assms event_calls [of "events s" s] by (simp add: intr_signal_def net_event_handler_def signal_defs)

section \<open>Initialisation\<close>

text \<open>
  Initialisation wires the stack. From empty tables and with memory available, \<open>net_init\<close> succeeds and leaves exactly
  this: IP and ARP registered for their frame types with their input functions, ICMP, UDP and TCP registered with IP, the
  timers of ARP (one second) and TCP (100 ms), the event handlers of UDP and TCP, and the four signals of
  the interrupt thread in its mask. The invariant of the stack is kept.
\<close>

lemma net_init_wires:
  assumes "protocols s = []" "ip_protocols s = []" "timers s = []" "events s = []" "\<forall>n. allocs s n" "tcp_ok s"
  shows "\<exists>s'. net_init s = (0, s') \<and> tcp_ok s' \<and>
    protocols s' = [\<lparr>ptype = NET_PROTOCOL_TYPE_ARP, pqueue = [], phandler = Arp_input\<rparr>,
      \<lparr>ptype = NET_PROTOCOL_TYPE_IP, pqueue = [], phandler = Ip_input\<rparr>] \<and>
    ip_protocols s' = [\<lparr>ip_type = IP_PROTOCOL_TCP, ip_handler = Tcp_input\<rparr>, \<lparr>ip_type = IP_PROTOCOL_UDP, ip_handler = Udp_input\<rparr>,
      \<lparr>ip_type = IP_PROTOCOL_ICMP, ip_handler = Icmp_input\<rparr>] \<and>
    map (\<lambda>t. (interval t, thandler t)) (timers s') =
      [(\<lparr>tv_sec = 0, tv_usec = 100000\<rparr>, Tcp_timer), (\<lparr>tv_sec = 1, tv_usec = 0\<rparr>, Arp_timer_handler)] \<and>
    events s' = [Tcp_event_handler, Udp_event_handler] \<and> sigmask s' = {SIGHUP, SIGUSR1, SIGUSR2, SIGALRM}"
  using assms
  by (simp add: net_init_def intr_init_def ip_init_def icmp_init_def arp_init_def udp_init_def tcp_init_def net_protocol_register_def
      ip_protocol_register_def net_timer_register_def net_event_subscribe_def platform_defs advance_def
      tcp_ok_def udp_ok_def ip_ok_def net_ok_def drvs_ok_def)

section \<open>From a received packet to the answer\<close>

lemma find_pos_find: "find P xs = Some x \<Longrightarrow> \<exists>i. find_pos P xs = Some i \<and> i < length xs \<and> xs ! i = x"
  by (cases "find_pos P xs") (auto simp: find_find_pos dest: find_pos_SomeD(1))

lemma handle_empty:
  assumes "\<forall>j \<in> set is. pqueue (protocols s ! j) = []"
  shows "softirq_loop is s = Some s"
  using assms
proof (induction "is")
  case (Cons i "is")
  have "softirq_drain i s = Some s" using Cons.prems by (subst softirq_drain.simps) simp
  then show ?case using Cons by simp
qed simp

text \<open>One packet in one queue: the interrupt is the call of its handler.\<close>

lemma softirq_single:
  fixes s :: "'z tcp_scheme"
  assumes i: "i < length (protocols s)" and empty: "\<forall>p \<in> set (protocols s). pqueue p = []"
    and call: "net_call (phandler (protocols s ! i)) (qe_data e) (qe_len e) (qe_dev e) s = Some s'" "protocols s' = protocols s"
  shows "net_softirq_handler (set_pqueue i [e] s) = Some (0, s')"
proof -
  let ?s1 = "set_pqueue i [e] s" and ?n = "length (protocols s)"
  have nth: "pqueue (protocols s ! j) = []" if "j < ?n" for j using empty that by simp
  have "[0 ..< ?n] = [0 ..< i] @ i # [Suc i ..< ?n]" 
    using upt_add_eq_append [of 0 i "?n - i"] upt_conv_Cons [OF i] i by simp
  moreover have "softirq_loop (is @ js) t = Option.bind (softirq_loop is t) (softirq_loop js)" for "is" js and t :: "'z tcp_scheme"
  proof (induction "is" arbitrary: t)
    case (Cons k "is")
    then show ?case by (cases "softirq_drain k t") simp_all
  qed simp
  ultimately have "softirq_loop [0 ..< ?n] ?s1 = Option.bind (softirq_loop [0 ..< i] ?s1) (softirq_loop (i # [Suc i ..< ?n]))" by simp
  moreover have "softirq_loop [0 ..< i] ?s1 = Some ?s1" using nth i by (intro handle_empty) auto
  moreover have "softirq_drain i ?s1 = Some s'"
  proof -
    have "(protocols s ! i)\<lparr>pqueue := []\<rparr> = protocols s ! i" using nth [OF i] by simp
    then have "set_pqueue i [] ?s1 = s" using i by (simp add: set_pqueue_def)
    then have "softirq_drain i ?s1 = softirq_drain i s'"
      using i call(1) by (subst softirq_drain.simps) (simp add: set_pqueue_def)
    also have "\<dots> = Some s'" using nth [OF i] call(2) by (subst softirq_drain.simps) simp
    finally show ?thesis .
  qed
  moreover have "softirq_loop [Suc i ..< ?n] s' = Some s'" using nth call(2) by (intro handle_empty) auto
  ultimately show ?thesis by (simp add: net_softirq_handler_def)
qed

text \<open>
  C25. A ping is answered. An ICMP echo request for an address of the receiving device's interface, in an IP packet as output
  builds it and with any padding, is queued by \<open>net_input_handler\<close> and raises the software interrupt; the
  interrupt passes it through IP and ICMP, whose answer is one IP output: the echo reply with the same
  identifier, sequence number and data, from the address that was asked for to the sender.
\<close>

theorem ping_answered:
  fixes s :: "'z tcp_scheme" and pad :: bytes and vals src :: u32 and code :: u8 and ident :: u16
  assumes ok: "tcp_ok s" and empty: "\<forall>p \<in> set (protocols s). pqueue p = []" and mem: "allocs s 0" "allocs s 1"
    and ip: "find (\<lambda>p. ptype p = NET_PROTOCOL_TYPE_IP) (protocols s) = Some p" "phandler p = Ip_input"
    and icmp: "find (\<lambda>p. ip_type p = IP_PROTOCOL_ICMP) (ip_protocols s) = Some q" "ip_handler q = Icmp_input"
    and dev: "dev_tab s dev = Some d" "net_device_get_iface d NET_IFACE_FAMILY_IP = Some f"
    and payload: "length payload \<le> 65507"
  defines "request \<equiv> ip_packet (host_order s) IP_PROTOCOL_ICMP ident src (unicast f)
      (icmp_message (host_order s) ICMP_TYPE_ECHO code vals payload) @ pad"
    and "t \<equiv> s\<lparr>allocs := advance (advance (allocs s)), raised := raised s @ [INTR_IRQ_SOFTIRQ]\<rparr>"
  shows "\<exists>s1 r s2. net_input_handler NET_PROTOCOL_TYPE_IP request (length request) dev s = Some (0, s1) \<and>
    raised s1 = raised s @ [INTR_IRQ_SOFTIRQ] \<and> net_softirq_handler s1 = Some (0, s2) \<and>
    ip_output IP_PROTOCOL_ICMP (icmp_message (host_order s) ICMP_TYPE_ECHOREPLY code vals payload) (8 + length payload)
      (unicast f) src t = Some (r, s2)"
proof -
  let ?m = "icmp_message (host_order s) ICMP_TYPE_ECHO code vals payload" and ?e = "\<lparr>qe_dev = dev, qe_len = length request, qe_data = request\<rparr>"
  let ?reply = "icmp_message (host_order s) ICMP_TYPE_ECHOREPLY code vals payload"
  obtain i where i: "find_pos (\<lambda>p. ptype p = NET_PROTOCOL_TYPE_IP) (protocols s) = Some i" "i < length (protocols s)" "protocols s ! i = p"
    using find_pos_find [OF ip(1)] by blast
  have pq: "pqueue p = []" using empty i(2,3) nth_mem by blast
  have "net_input_handler NET_PROTOCOL_TYPE_IP request (length request) dev s = Some (0, set_pqueue i [?e] t)"
    using i mem pq by (simp add: net_input_handler_def platform_defs rd_bytes_def qpush_def set_pqueue_def t_def advance_def)
  moreover have "raised (set_pqueue i [?e] t) = raised s @ [INTR_IRQ_SOFTIRQ]" by (simp add: set_pqueue_def t_def)
  moreover have "ip_ok t" using tcp_okD(2) [OF ok] by (simp add: t_def ip_ok_def net_ok_def drvs_ok_def)
  then obtain r s2 where out: "ip_output IP_PROTOCOL_ICMP ?reply (8 + length payload) (unicast f) src t = Some (r, s2)" "ip_frame t s2"
    by (rule ip_output_total [of t "8 + length payload" ?reply IP_PROTOCOL_ICMP "unicast f" src]) (simp_all add: icmp_message_def)
  moreover have "net_softirq_handler (set_pqueue i [?e] t) = Some (0, s2)"
  proof (rule softirq_single)
    have lm: "length ?m = 8 + length payload" by (simp add: icmp_message_def)
    have len: "length request = 20 + length ?m + length pad" by (simp add: request_def ip_packet_def Let_def)
    have "ip_input ip_call request (length request) dev t = ip_call Icmp_input (?m @ pad) (length ?m) src (unicast f) f t"
      using ip_packet_reaches [of ?m t src "host_order s" src "unicast f" "unicast f" dev d f IP_PROTOCOL_ICMP q ip_call ident pad]
        payload lm dev icmp len by (simp add: request_def t_def)
    also have "\<dots> = icmp_input (icmp_message (host_order t) ICMP_TYPE_ECHO code vals payload @ pad) (8 + length payload) src (unicast f) f t"
      by (simp add: ip_call_def lm t_def)
    also have "\<dots> = Some s2" using icmp_echo_answers [OF payload, of t ICMP_TYPE_ECHO code vals pad src "unicast f" f] out(1) by (simp add: t_def)
    finally show "net_call (phandler (protocols t ! i)) (qe_data ?e) (qe_len ?e) (qe_dev ?e) t = Some s2"
      using i(3) ip(2) by (simp add: net_call_def t_def)
    show "protocols s2 = protocols t" using out(2) by (rule ip_frameD(6))
  qed (use i(2) empty in \<open>simp_all add: t_def\<close>)
  ultimately show ?thesis by blast
qed

section \<open>Evaluation\<close>

definition stack_example :: tcp where
  "stack_example = (tcp_example 0x0A000002 [pcb_example 2 ep_b ep_a])\<lparr>
     protocols := [\<lparr>ptype = NET_PROTOCOL_TYPE_ARP, pqueue = [], phandler = Arp_input\<rparr>, \<lparr>ptype = NET_PROTOCOL_TYPE_IP, pqueue = [], phandler = Ip_input\<rparr>],
     ip_protocols := [\<lparr>ip_type = IP_PROTOCOL_ICMP, ip_handler = Icmp_input\<rparr>],
     timers := [\<lparr>interval = \<lparr>tv_sec = 1, tv_usec = 0\<rparr>, last_run = \<lparr>tv_sec = 90, tv_usec = 0\<rparr>, thandler = Arp_timer_handler\<rparr>],
     events := [Tcp_event_handler, Udp_event_handler]\<rparr>"

lemma stack_example_ok: "tcp_ok stack_example"
  using tcp_ok_one [of 2 "0x0A000002" ep_b ep_a]
  by (simp add: stack_example_def tcp_ok_def udp_ok_def ip_ok_def net_ok_def drvs_ok_def)

lemma stack_example_simps:
  "protocols stack_example = [\<lparr>ptype = NET_PROTOCOL_TYPE_ARP, pqueue = [], phandler = Arp_input\<rparr>, \<lparr>ptype = NET_PROTOCOL_TYPE_IP, pqueue = [], phandler = Ip_input\<rparr>]"
  "ip_protocols stack_example = [\<lparr>ip_type = IP_PROTOCOL_ICMP, ip_handler = Icmp_input\<rparr>]"
  "timers stack_example = [\<lparr>interval = \<lparr>tv_sec = 1, tv_usec = 0\<rparr>, last_run = \<lparr>tv_sec = 90, tv_usec = 0\<rparr>, thandler = Arp_timer_handler\<rparr>]"
  "events stack_example = [Tcp_event_handler, Udp_event_handler]" "allocs stack_example n" "host_order stack_example = Big"
  "dev_tab stack_example = [1 \<mapsto> host_dev 0x0A000002]" "tcp_pcbs stack_example ! 0 = pcb_example 2 ep_b ep_a"
  "clock stack_example n = \<lparr>tv_sec = 100, tv_usec = 0\<rparr>"
  by (simp_all add: stack_example_def tcp_example_simps del: One_nat_def)

definition queued_example :: tcp where
  "queued_example = set_pqueue 0 [\<lparr>qe_dev = 1, qe_len = 2, qe_data = [7, 8]\<rparr>] stack_example"

theorem net_softirq_drains_witness:
  "\<exists>s'. net_softirq_handler queued_example = Some (0, s') \<and> tcp_ok s' \<and> map pqueue (protocols s') = [[], []]"
proof -
  have "protocols_ok [0 ..< length (protocols queued_example)] queued_example"
    by (simp add: queued_example_def stack_example_simps entry_ok_def set_pqueue_def net_call_def arp_input_def)
  moreover have "queue_ok queued_example"
    by (simp add: queued_example_def queue_ok_def set_pqueue_def stack_example_simps)
  ultimately show ?thesis
    using net_softirq_drains [of queued_example] stack_example_ok by (auto simp: queued_example_def stack_example_simps)
qed


theorem ping_answered_witness:
  "\<exists>s1 r s2. net_input_handler 0x0800 (ip_packet Big 1 7 0x0A000001 0x0A000002 (icmp_message Big 8 0 0x00010002 [1, 2, 3])) 31 1 stack_example = Some (0, s1) \<and>
     net_softirq_handler s1 = Some (0, s2) \<and>
     ip_output 1 (icmp_message Big 0 0 0x00010002 [1, 2, 3]) 11 0x0A000002 0x0A000001
       (stack_example\<lparr>allocs := advance (advance (allocs stack_example)), raised := raised stack_example @ [10]\<rparr>) = Some (r, s2)"
proof -
  have "length (ip_packet Big 1 7 0x0A000001 0x0A000002 (icmp_message Big 8 0 0x00010002 [1, 2, 3])) = 31"
    by (simp add: ip_packet_def icmp_message_def Let_def)
  then show ?thesis
    using ping_answered [OF stack_example_ok, where payload = "[1, 2, 3]" and pad = "[]" and dev = 1 and d = "host_dev 0x0A000002"
        and f = "host_iface 0x0A000002" and src = "0x0A000001" and vals = "0x00010002" and code = 0 and ident = 7
        and p = "\<lparr>ptype = NET_PROTOCOL_TYPE_IP, pqueue = [], phandler = Ip_input\<rparr>" and q = "\<lparr>ip_type = IP_PROTOCOL_ICMP, ip_handler = Icmp_input\<rparr>"]
    by (auto simp: stack_example_simps host_dev_simps arp_example_simps signal_defs simp del: One_nat_def)
qed

end
