(* ===== verification/Intr_Thread.thy ===== *)
theory Intr_Thread
  imports Stack
begin

text \<open>
  The interrupt thread of \<^verbatim>\<open>platform/linux/intr.c\<close> under any sequence of signals: the invariant of the whole
  stack, of the protocol queues and of the table of interrupt requests, and that every handler which the
  thread runs returns and keeps it.
\<close>

section \<open>What the drivers' handlers do to the stack\<close>

text \<open>
  A driver's handler changes the private data of the devices and appends entries to the protocols' queues; what
  it appends holds as many bytes as it says and comes from a device that exists.
\<close>

definition input_frame :: "'z net_scheme \<Rightarrow> 'z net_scheme \<Rightarrow> bool" where
  "input_frame s s' \<longleftrightarrow>
     (\<forall>i. map_option dev_static (dev_tab s' i) = map_option dev_static (dev_tab s i)) \<and> (drvs_ok s \<longrightarrow> drvs_ok s') \<and>
     devices s' = devices s \<and> next_index s' = next_index s \<and> host_order s' = host_order s \<and> irqs s' = irqs s \<and> events s' = events s \<and>
     map ptype (protocols s') = map ptype (protocols s) \<and> net.more s' = net.more s \<and>
     (\<forall>p' \<in> set (protocols s'). \<forall>e \<in> set (pqueue p'). (\<exists>p \<in> set (protocols s). e \<in> set (pqueue p)) \<or>
        qe_len e \<le> length (qe_data e) \<and> dev_tab s (qe_dev e) \<noteq> None)"

lemma input_frame_refl [simp, intro]: "input_frame s s"
  by (auto simp: input_frame_def)

lemma input_frame_dev: "input_frame s s' \<Longrightarrow> dev_tab s' i = None \<longleftrightarrow> dev_tab s i = None"
  unfolding input_frame_def by (metis map_option_is_None)

lemma input_frame_trans [trans]:
  assumes "input_frame s s'" "input_frame s' s''"
  shows "input_frame s s''"
proof -
  have "(\<exists>p \<in> set (protocols s). e \<in> set (pqueue p)) \<or> qe_len e \<le> length (qe_data e) \<and> dev_tab s (qe_dev e) \<noteq> None"
    if "p \<in> set (protocols s'')" "e \<in> set (pqueue p)" for p e
    using that assms input_frame_dev [OF assms(1)] unfolding input_frame_def by meson
  then show ?thesis using assms unfolding input_frame_def by metis
qed

lemma net_input_frame:
  assumes "len \<le> length data" "dev_tab s dev \<noteq> None"
  shows "\<exists>r s'. net_input_handler type data len dev s = Some (r, s') \<and> input_frame s s'"
proof -
  obtain r s' where s': "net_input_handler type data len dev s = Some (r, s')"
    using net_input_queues [OF assms(1)] by blast
  have "protocols s' = protocols s \<or> (\<exists>i < length (protocols s). protocols s' = (protocols s)[i := (protocols s ! i)
      \<lparr>pqueue := pqueue (protocols s ! i) @ [\<lparr>qe_dev = dev, qe_len = len, qe_data = take len data\<rparr>]\<rparr>])"
    using s' assms(1)
    by (auto simp: net_input_handler_def platform_defs Let_def rd_bytes_def qpush_def
        split: option.splits if_splits dest: find_pos_SomeD)
  then have "(\<exists>p \<in> set (protocols s). e \<in> set (pqueue p)) \<or> qe_len e \<le> length (qe_data e) \<and> dev_tab s (qe_dev e) \<noteq> None"
    if e: "p \<in> set (protocols s')" "e \<in> set (pqueue p)" for p e
  proof
    assume "\<exists>i < length (protocols s). protocols s' = (protocols s)[i := (protocols s ! i)
      \<lparr>pqueue := pqueue (protocols s ! i) @ [\<lparr>qe_dev = dev, qe_len = len, qe_data = take len data\<rparr>]\<rparr>]"
    then obtain i where i: "i < length (protocols s)" and eq: "protocols s' = (protocols s)[i := (protocols s ! i)
      \<lparr>pqueue := pqueue (protocols s ! i) @ [\<lparr>qe_dev = dev, qe_len = len, qe_data = take len data\<rparr>]\<rparr>]" by blast
    from e(1) have "p \<in> set (protocols s) \<or> p = (protocols s ! i)
      \<lparr>pqueue := pqueue (protocols s ! i) @ [\<lparr>qe_dev = dev, qe_len = len, qe_data = take len data\<rparr>]\<rparr>"
      unfolding eq using set_update_subset_insert by fastforce
    then show ?thesis using e(2) nth_mem [OF i] assms by auto
  qed (use e in auto)
  then show ?thesis
    using s' net_input_handler_frame [OF s'] by (auto simp: input_frame_def drvs_ok_def)
qed

lemma loopback_set_queue_frame:
  assumes "loopback_priv dev s = Some (d, lo)" "lo_queue lo = e # q" "drvs_ok s" "ops d = Loopback_ops"
  shows "input_frame s (loopback_set_queue dev d lo q s)" "lo_entry_ok e" "drvs_ok (loopback_set_queue dev d lo q s)"
proof -
  have d: "dev_tab s dev = Some d" "priv d = Loopback lo"
    using assms(1) by (auto simp: loopback_priv_def bind_Some_iff split: option.splits dev_priv.splits)
  then have ok: "drv_ok d" using assms(3) by (blast dest: drvs_okD)
  then show "lo_entry_ok e" using d assms(2,4) by (simp add: drv_ok_def)
  have "drv_ok (d\<lparr>priv := Loopback (lo\<lparr>lo_queue := q\<rparr>)\<rparr>)" using ok d assms(2,4) by (simp add: drv_ok_def)
  then show drvs: "drvs_ok (loopback_set_queue dev d lo q s)"
    using assms(3) by (simp add: loopback_set_queue_def drvs_ok_def)
  then show "input_frame s (loopback_set_queue dev d lo q s)"
    using d by (auto simp: input_frame_def loopback_set_queue_def dev_static_def)
qed

lemma loopback_isr_frame:
  assumes "drvs_ok s" "dev_tab s dev = Some d" "ops d = Loopback_ops"
  shows "\<exists>s'. loopback_isr_loop dev s = Some s' \<and> input_frame s s'"
  using assms
proof (induction dev s arbitrary: d rule: loopback_isr_loop.induct)
  case (1 dev s)
  obtain lo where lo: "loopback_priv dev s = Some (d, lo)"
    using drvs_okD [OF 1(2,3)] 1(3,4) by (auto simp: drv_ok_def loopback_priv_def)
  show ?case
  proof (cases "lo_queue lo")
    case Nil
    then show ?thesis using lo by (simp add: loopback_isr_loop.simps [of dev s])
  next
    case (Cons e q)
    let ?s1 = "loopback_set_queue dev d lo q s"
    note s1 = loopback_set_queue_frame [OF lo Cons 1(2,4)]
    have "dev_tab ?s1 dev \<noteq> None" by (simp add: loopback_set_queue_def)
    then obtain r s2 where s2: "net_input_handler (lo_type e) (lo_data e) (lo_len e) dev ?s1 = Some (r, s2)" "input_frame ?s1 s2"
      using net_input_frame [of "lo_len e" "lo_data e" ?s1 dev "lo_type e"] s1(2) unfolding lo_entry_ok_def by auto
    have "drvs_ok s2" using s1(3) s2(2) by (simp add: input_frame_def)
    moreover have "dev_tab s2 dev = Some (d\<lparr>priv := Loopback (lo\<lparr>lo_queue := q\<rparr>)\<rparr>)"
      using net_input_handler_frame [OF s2(1)] by (simp add: loopback_set_queue_def)
    ultimately obtain s' where "loopback_isr_loop dev s2 = Some s'" "input_frame s2 s'"
      using 1(1) [OF lo refl _ refl s2(1) refl] Cons 1(4) by auto
    moreover have "input_frame s s2" using s1(1) s2(2) by (rule input_frame_trans)
    ultimately show ?thesis
      using lo Cons s2(1) by (auto simp: loopback_isr_loop.simps [of dev s] intro: input_frame_trans)
  qed
qed

lemma rx_input_frame [simp]: "input_frame s (s\<lparr>rx := r\<rparr>)"
  by (auto simp: input_frame_def drvs_ok_def)

lemma ether_input_frame':
  assumes "drvs_ok s" "dev_tab s dev = Some d" "ops d = Ether_tap_ops" "ether_input_helper dev ether_tap_read s = Some (r, s')"
  shows "input_frame s s'"
proof -
  obtain n b s1 where rd: "ether_tap_read dev 1514 s = Some (n, b, s1)"
    using assms(4) by (auto simp: ether_input_helper_def bind_Some_iff)
  then have s1: "input_frame s s1" "dev_tab s1 dev \<noteq> None" and n: "n = -1 \<or> n = int (length b)"
    using assms(2) by (auto simp: ether_tap_read_def bind_Some_iff Let_def split: list.splits rx_event.splits if_splits)
  show ?thesis
  proof (cases "s' = s1")
    case False
    then obtain t where "net_input_handler t (drop 14 b) (nat n - 14) dev s1 = Some (r, s')" "nat n - 14 \<le> length (drop 14 b)"
      using assms(4) rd n by (auto simp: ether_input_helper_def bind_Some_iff split: if_splits)
    then have "input_frame s1 s'" using net_input_frame [OF _ s1(2), of "nat n - 14" "drop 14 b" t] by auto
    with s1(1) show ?thesis by (rule input_frame_trans)
  qed (use s1 in simp)
qed

lemma ether_tap_isr_frame:
  assumes "drvs_ok s" "dev_tab s dev = Some d" "ops d = Ether_tap_ops" "ether_tap_isr i dev s = Some (r, s')"
  shows "input_frame s s'"
  using assms
proof (induction i dev s rule: ether_tap_isr.induct)
  case (1 i dev s)
  obtain tap where tap: "ether_tap_priv dev s = Some (d, tap)"
    using drvs_okD [OF 1(4,5)] 1(5,6) by (auto simp: drv_ok_def ether_tap_priv_def)
  obtain r1 s1 where in1: "ether_input_helper dev ether_tap_read s = Some (r1, s1)"
    using ether_input_total [OF 1(4-6)] by blast
  note step = ether_tap_isr.simps [of i dev s] and f1 = ether_input_frame' [OF 1(4-6) in1]
  show ?case
  proof (cases "rx s dev")
    case Nil
    then show ?thesis using tap 1(7) by (simp add: step)
  next
    case (Cons e rest)
    have s1: "drvs_ok s1" "dev_tab s1 dev = Some d"
      using ether_input_consumes [OF Cons in1] 1(4,5) by (simp_all add: drvs_ok_cong [of s1 s])
    show ?thesis
    proof (cases e)
      case Poll_eintr
      let ?s2 = "s\<lparr>rx := (rx s)(dev := rest)\<rparr>"
      have "drvs_ok ?s2" using 1(4) by (simp add: drvs_ok_def)
      then have "input_frame ?s2 s'" using 1(1) [OF tap Cons Poll_eintr] 1(5-7) tap Cons Poll_eintr by (simp add: step)
      with rx_input_frame show ?thesis by (rule input_frame_trans)
    next
      case Poll_error
      then show ?thesis using tap Cons 1(7) by (auto simp: step)
    next
      case Read_error
      then have "input_frame s1 s'" using 1(2) [OF tap Cons Read_error in1 refl s1 1(6)] 1(7) tap Cons in1 by (simp add: step)
      with f1 show ?thesis by (rule input_frame_trans)
    next
      case (Rx_frame f)
      then have "input_frame s1 s'" using 1(3) [OF tap Cons Rx_frame in1 refl s1 1(6)] 1(7) tap Cons in1 by (simp add: step)
      with f1 show ?thesis by (rule input_frame_trans)
    qed
  qed
qed

section \<open>The invariant of the thread\<close>

text \<open>Every interrupt request belongs to a device that exists and whose driver is the one of the handler.\<close>

definition irq_ok :: "'z tcp_scheme \<Rightarrow> bool" where
  "irq_ok s \<longleftrightarrow> (\<forall>e \<in> set (irqs s). \<exists>d. dev_tab s (irq_dev e) = Some d \<and>
     (irq_handler e = Loopback_isr \<longrightarrow> ops d = Loopback_ops) \<and> (irq_handler e = Ether_tap_isr \<longrightarrow> ops d = Ether_tap_ops))"

definition intr_ok :: "'z tcp_scheme \<Rightarrow> bool" where
  "intr_ok s \<longleftrightarrow> tcp_ok s \<and> queue_ok s \<and> irq_ok s"

lemma stack_kept_ops:
  assumes "stack_kept s s'" "dev_tab s i = Some d"
  obtains d' where "dev_tab s' i = Some d'" "ops d' = ops d"
proof -
  from assms obtain d' where d': "dev_tab s' i = Some d'" "dev_static d' = dev_static d"
    unfolding stack_kept_def by (metis map_option_eq_Some option.simps(9))
  then have "ops d' = ops d" by (cases d; cases d') (simp add: dev_static_def)
  with d'(1) show ?thesis by (rule that)
qed

lemma irq_ok_kept:
  assumes "irq_ok s" "stack_kept s s'"
  shows "irq_ok s'"
  unfolding irq_ok_def
proof
  fix e assume "e \<in> set (irqs s')"
  then obtain d where d: "dev_tab s (irq_dev e) = Some d"
    "irq_handler e = Loopback_isr \<longrightarrow> ops d = Loopback_ops" "irq_handler e = Ether_tap_isr \<longrightarrow> ops d = Ether_tap_ops"
    using assms by (auto simp: irq_ok_def stack_kept_def)
  obtain d' where "dev_tab s' (irq_dev e) = Some d'" "ops d' = ops d" using assms(2) d(1) by (rule stack_kept_ops)
  with d(2,3) show "\<exists>d. dev_tab s' (irq_dev e) = Some d \<and>
     (irq_handler e = Loopback_isr \<longrightarrow> ops d = Loopback_ops) \<and> (irq_handler e = Ether_tap_isr \<longrightarrow> ops d = Ether_tap_ops)" by simp
qed

lemma input_frame_kept: "input_frame s s' \<Longrightarrow> stack_kept s s'"
  by (simp add: input_frame_def stack_kept_def)

lemma input_frame_queue_ok: "queue_ok s \<Longrightarrow> input_frame s s' \<Longrightarrow> queue_ok s'"
  using input_frame_dev [of s s'] unfolding queue_ok_def input_frame_def by metis

lemma input_frame_net_ok:
  assumes "input_frame s s'" "net_ok s"
  shows "net_ok s'"
proof -
  have tab: "map_option dev_static (dev_tab s' i) = map_option dev_static (dev_tab s i)" for i
    using assms(1) by (simp add: input_frame_def)
  have "i < next_index s' \<and> dev_ok i d" if "dev_tab s' i = Some d" for i d
  proof -
    from that tab [of i] obtain d0 where d0: "dev_tab s i = Some d0" "dev_static d0 = dev_static d"
      by (auto simp: map_option_case split: option.splits)
    then show ?thesis
      using net_okD(1,2) [OF assms(2) d0(1)] dev_ok_static [of i d] dev_ok_static [of i d0] assms(1)
      by (simp add: input_frame_def)
  qed
  then show ?thesis using assms input_frame_dev [OF assms(1)] by (auto simp: net_ok_def input_frame_def)
qed

lemma input_frame_tcp_ok:
  assumes "input_frame s s'" "tcp_ok s"
  shows "tcp_ok s'"
proof -
  have more: "routes s' = routes s" "caches s' = caches s" "udp_pcbs s' = udp_pcbs s" "tcp_pcbs s' = tcp_pcbs s"
    using assms(1) by (cases s; cases s'; simp add: input_frame_def)+
  have "unat (dev_alen d) \<le> 16" if "dev_tab s' i = Some d" for i d
  proof -
    from assms(1) have "map_option dev_static (dev_tab s' i) = map_option dev_static (dev_tab s i)" by (simp add: input_frame_def)
    with that obtain d0 where "dev_tab s i = Some d0" "dev_static d = dev_static d0" by (cases "dev_tab s i") auto
    moreover from this have "dev_alen d = dev_alen d0" by (cases d; cases d0) (simp add: dev_static_def)
    ultimately show ?thesis using tcp_okD(2) [OF assms(2)] by (simp add: ip_ok_def)
  qed
  moreover have "drvs_ok s'" using assms tcp_okD(2) [OF assms(2)] by (simp add: input_frame_def ip_ok_def)
  ultimately have "ip_ok s'"
    using tcp_okD(2) [OF assms(2)] input_frame_net_ok [OF assms(1)] input_frame_dev [OF assms(1)] more by (simp add: ip_ok_def)
  then show ?thesis using assms(2) more by (simp add: tcp_ok_def udp_ok_def)
qed

lemma intr_ok_input: "intr_ok s \<Longrightarrow> input_frame s s' \<Longrightarrow> intr_ok s'"
  using input_frame_tcp_ok [of s s'] input_frame_queue_ok [of s s'] irq_ok_kept [OF _ input_frame_kept, of s s'] by (simp add: intr_ok_def)

lemma isr_call_ok:
  assumes "intr_ok s" "e \<in> set (irqs s)"
  shows "\<exists>r s'. isr_call (irq_handler e) (irq e) (irq_dev e) s = Some (r, s') \<and> input_frame s s'"
proof -
  have drvs: "drvs_ok s" using assms(1) tcp_okD(2) [of s] by (simp add: intr_ok_def ip_ok_def)
  obtain d where d: "dev_tab s (irq_dev e) = Some d"
    "irq_handler e = Loopback_isr \<longrightarrow> ops d = Loopback_ops" "irq_handler e = Ether_tap_isr \<longrightarrow> ops d = Ether_tap_ops"
    using assms by (auto simp: intr_ok_def irq_ok_def)
  show ?thesis
  proof (cases "irq_handler e")
    case Dummy_isr
    then show ?thesis by (simp add: isr_call_def dummy_isr_def)
  next
    case Loopback_isr
    then show ?thesis using loopback_isr_frame [OF drvs d(1)] d(2) by (auto simp: isr_call_def loopback_isr_def)
  next
    case Ether_tap_isr
    with d(3) have op: "ops d = Ether_tap_ops" by simp
    obtain r s' where s': "ether_tap_isr (irq e) (irq_dev e) s = Some (r, s')"
      using ether_tap_isr_total [OF drvs d(1) op] by blast
    with ether_tap_isr_frame [OF drvs d(1) op] show ?thesis using Ether_tap_isr by (simp add: isr_call_def)
  qed
qed

lemma irq_loop_ok:
  assumes "intr_ok s" "set es \<subseteq> set (irqs s)"
  shows "\<exists>s'. irq_loop es sig s = Some s' \<and> input_frame s s'"
  using assms
proof (induction es arbitrary: s)
  case (Cons e es)
  show ?case
  proof (cases "irq e = sig")
    case True
    obtain r s1 where s1: "isr_call (irq_handler e) (irq e) (irq_dev e) s = Some (r, s1)" "input_frame s s1"
      using isr_call_ok [OF Cons.prems(1), of e] Cons.prems(2) by auto
    moreover have "set es \<subseteq> set (irqs s1)" using Cons.prems(2) s1(2) by (simp add: input_frame_def)
    ultimately obtain s' where "irq_loop es sig s1 = Some s'" "input_frame s1 s'"
      using Cons.IH [OF intr_ok_input [OF Cons.prems(1) s1(2)]] by blast
    then show ?thesis using True s1(1) input_frame_trans [OF s1(2)] by simp
  next
    case False
    then show ?thesis using Cons.IH [OF Cons.prems(1)] Cons.prems(2) by simp
  qed
qed simp

lemma event_call_ok:
  "tcp_ok s \<Longrightarrow> tcp_ok (event_call e s) \<and> stack_kept s (event_call e s) \<and> protocols (event_call e s) = protocols s"
  by (cases e) (auto simp: event_call_def udp_event_handler_def tcp_event_handler_def tcp_ok_def udp_ok_def ip_ok_def net_ok_def
      drvs_ok_def tpcb_ok_def upcb_ok_def stack_kept_def)

lemma event_calls_ok:
  "tcp_ok s \<Longrightarrow> tcp_ok (fold event_call es s) \<and> stack_kept s (fold event_call es s) \<and> protocols (fold event_call es s) = protocols s"
proof (induction es arbitrary: s)
  case (Cons e es)
  note e = event_call_ok [OF Cons.prems, of e]
  then have "tcp_ok (event_call e s)" by blast
  from Cons.IH [OF this] e show ?case using stack_kept_trans [of s "event_call e s"] by simp
qed simp

section \<open>Any sequence of signals\<close>

text \<open>The packets that a software interrupt finds are acceptable in the state in which they are handled.\<close>

fun signals_ok :: "(int + nat) list \<Rightarrow> 'z tcp_scheme \<Rightarrow> bool" where
  "signals_ok [] s = True"
| "signals_ok (Inl err # _) s = True"
| "signals_ok (Inr sig # rest) s =
     ((sig = INTR_IRQ_SOFTIRQ \<longrightarrow> protocols_ok [0 ..< length (protocols s)] s) \<and>
      (case intr_signal sig s of Some (False, s') \<Rightarrow> signals_ok rest s' | _ \<Rightarrow> True))"

lemma intr_signal_ok:
  assumes "intr_ok s" "sig = INTR_IRQ_SOFTIRQ \<longrightarrow> protocols_ok [0 ..< length (protocols s)] s"
  shows "\<exists>s'. intr_signal sig s = Some (sig = SIGHUP, s') \<and> intr_ok s' \<and> stack_kept s s'"
proof -
  have ok: "tcp_ok s" "queue_ok s" "irq_ok s" using assms(1) by (simp_all add: intr_ok_def)
  have same: "intr_ok s'" if "tcp_ok s'" "stack_kept s s'" "protocols s' = protocols s" for s'
    using that ok irq_ok_kept queue_ok_kept [OF ok(2) that(2)] by (auto simp: intr_ok_def)
  consider "sig = SIGHUP" | "sig = SIGALRM" | "sig = SIGUSR1" | "sig = SIGUSR2" | "sig \<notin> {SIGHUP, SIGALRM, SIGUSR1, SIGUSR2}" by blast
  then show ?thesis
  proof cases
    case 1
    then show ?thesis using assms(1) by (simp add: intr_signal_def)
  next
    case 2
    obtain s' where s': "net_timer_handler s = Some (0, s')" "tcp_ok s'" "stack_kept s s'" "protocols s' = protocols s"
      using net_timer_run [OF ok(1)] by blast
    from same [OF s'(2-4)] show ?thesis using 2 s'(1,3) by (simp add: intr_signal_def signal_defs)
  next
    case 3
    then obtain s' where s': "net_softirq_handler s = Some (0, s')" "tcp_ok s'" "stack_kept s s'"
      "protocols s' = map (\<lambda>p. p\<lparr>pqueue := []\<rparr>) (protocols s)"
      using net_softirq_run [OF ok(1,2)] assms(2) by (auto simp: signal_defs)
    have "queue_ok s'" by (simp add: queue_ok_def s'(4))
    then show ?thesis using 3 s'(1-3) irq_ok_kept [OF ok(3) s'(3)] by (simp add: intr_signal_def signal_defs intr_ok_def)
  next
    case 4
    then show ?thesis
      using same event_calls_ok [OF ok(1), of "events s"] by (simp add: intr_signal_def net_event_handler_def signal_defs)
  next
    case 5
    then show ?thesis
      using irq_loop_ok [OF assms(1) order_refl, of sig] intr_ok_input [OF assms(1)] input_frame_kept [of s] by (auto simp: intr_signal_def)
  qed
qed

lemma intr_loop_ok:
  assumes "intr_ok s" "signals_ok sigs s"
  shows "\<exists>s'. intr_loop sigs s = Some s' \<and> intr_ok s'"
  using assms
proof (induction sigs s rule: intr_loop.induct)
  case (3 sig rest s)
  then obtain s1 where "intr_signal sig s = Some (sig = SIGHUP, s1)" "intr_ok s1" using intr_signal_ok [of s sig] by auto
  then show ?case using 3 by (cases "sig = SIGHUP") simp_all
qed auto

lemma intr_timer_setup_frame: "\<exists>f. snd (intr_timer_setup s) = s\<lparr>syscalls := f\<rparr>"
  by (auto simp: intr_timer_setup_def platform_defs Let_def)

lemma intr_ok_syscalls [simp]: "intr_ok (s\<lparr>syscalls := f\<rparr>) = intr_ok s"
  by (simp add: intr_ok_def queue_ok_def irq_ok_def tcp_ok_def udp_ok_def ip_ok_def net_ok_def drvs_ok_def)

text \<open>
  C15. The interrupt thread. Whatever sequence of signals and errors \<open>sigwait\<close> delivers - timer signals, software interrupts, events
  and the signals of the devices, whose handlers take whatever frames have arrived - the thread runs every handler to
  its end, reads and writes nothing out of bounds, and keeps the invariant of the whole stack: of the device and
  protocol tables, of the ARP cache, of the queues and of all control blocks. The only condition is on
  the IP packets that a software interrupt finds: what the code does not check (the conditions \<open>protocols_ok\<close>) holds of them.
\<close>

theorem intr_thread_safe:
  assumes "intr_ok s" "signals_ok sigs (snd (intr_timer_setup s))"
  shows "\<exists>s'. intr_thread sigs s = Some s' \<and> intr_ok s'"
proof -
  obtain f where f: "snd (intr_timer_setup s) = s\<lparr>syscalls := f\<rparr>" using intr_timer_setup_frame by blast
  with assms(1) have "intr_ok (snd (intr_timer_setup s))" by simp
  from intr_loop_ok [OF this assms(2)] this show ?thesis
    by (cases "intr_timer_setup s") (auto simp: intr_thread_def)
qed

section \<open>Evaluation\<close>

text \<open>A host whose tap device has received frames of all kinds and whose ARP queue holds a packet that is too short.\<close>

definition intr_example :: tcp where
  "intr_example = queued_example\<lparr>rx := (\<lambda>_. [Rx_frame [1, 2, 3], Read_error, Poll_eintr, Rx_frame (replicate 2000 0xff), Poll_error]),
     irqs := [\<lparr>irq = ETHER_TAP_IRQ, irq_handler = Ether_tap_isr, irq_flags = 1, irq_name = ''net1'', irq_dev = 1\<rparr>]\<rparr>"

lemma signals_ok_no_softirq: "Inr INTR_IRQ_SOFTIRQ \<notin> set sigs \<Longrightarrow> signals_ok sigs s"
  by (induction sigs s rule: signals_ok.induct) (auto split: option.splits bool.splits)

lemma intr_example_ok: "intr_ok intr_example"
proof -
  have "tcp_ok intr_example" using stack_example_ok
    by (simp add: intr_example_def queued_example_def set_pqueue_def tcp_ok_def udp_ok_def ip_ok_def net_ok_def drvs_ok_def
        stack_example_simps)
  moreover have "queue_ok intr_example" "irq_ok intr_example"
    by (simp_all add: intr_example_def queued_example_def queue_ok_def irq_ok_def set_pqueue_def stack_example_simps host_dev_simps
        del: One_nat_def)
  ultimately show ?thesis by (simp add: intr_ok_def)
qed

theorem intr_thread_safe_witness:
  "intr_ok intr_example \<and>
   (\<exists>s'. intr_thread [Inr SIGUSR1, Inr ETHER_TAP_IRQ, Inr SIGALRM, Inr SIGUSR2, Inr SIGHUP, Inr SIGALRM] intr_example = Some s' \<and> intr_ok s')"
proof -
  let ?sigs = "[Inr ETHER_TAP_IRQ, Inr SIGALRM, Inr SIGUSR2, Inr SIGHUP, Inr SIGALRM]"
  obtain f where f: "snd (intr_timer_setup intr_example) = intr_example\<lparr>syscalls := f\<rparr>" using intr_timer_setup_frame by blast
  have "protocols_ok [0 ..< length (protocols (intr_example\<lparr>syscalls := f\<rparr>))] (intr_example\<lparr>syscalls := f\<rparr>)"
    by (simp add: intr_example_def queued_example_def stack_example_simps entry_ok_def set_pqueue_def net_call_def arp_input_def)
  moreover have "signals_ok ?sigs s" for s :: tcp
    by (rule signals_ok_no_softirq) (simp add: signal_defs ETHER_TAP_IRQ_def)
  ultimately have "signals_ok (Inr SIGUSR1 # ?sigs) (snd (intr_timer_setup intr_example))"
    unfolding f by (simp split: option.splits bool.splits)
  from intr_thread_safe [OF intr_example_ok this] intr_example_ok show ?thesis by blast
qed

end
