(* ===== verification/Commands.thy ===== *)
theory Commands
  imports Stack
begin

text \<open>
  The user commands of \<^verbatim>\<open>udp.c\<close> and \<^verbatim>\<open>tcp.c\<close>, from their call to their return or wait and from the end of a wait
  on: whatever the state of the stack and the arguments are, each of them is defined, keeps the invariant of
  the stack and leaves the tables of the layers below alone.
\<close>

section \<open>The contract of a command\<close>

definition command_ok :: "'z tcp_scheme \<Rightarrow> 'z tcp_scheme \<Rightarrow> bool" where
  "command_ok s s' \<longleftrightarrow> tcp_ok s' \<and> stack_frame s s'"

lemma command_ok_refl: "tcp_ok s \<Longrightarrow> command_ok s s"
  by (simp add: command_ok_def)

lemma command_ok_trans [trans]: "command_ok s s' \<Longrightarrow> command_ok s' s'' \<Longrightarrow> command_ok s s''"
  unfolding command_ok_def using stack_frame_trans by blast

lemma command_ok_step: "tcp_step i s s' \<Longrightarrow> command_ok s s'"
  by (simp add: command_ok_def tcp_step_def)

lemma command_okD: "command_ok s s' \<Longrightarrow> tcp_ok s'"
  by (simp add: command_ok_def)

lemma tcp_pcb_get_less: "tcp_pcb_get i s = Some k \<Longrightarrow> tcp_ok s \<Longrightarrow> k < 16"
  using tcp_okD(3) [of s] by (auto simp: tcp_pcb_get_def split: if_splits)

section \<open>TCP\<close>

lemma command_ctx:
  assumes "tcp_ok s" "k < 16"
  shows "command_ok s (upd_tcp_pcb k (\<lambda>pcb. pcb\<lparr>tctx := c\<rparr>) s)"
  using tcp_okD(4) [OF assms] by (intro command_ok_step [of k] tcp_step_upd [OF assms]) (simp add: tpcb_ok_def)

lemma command_abort:
  assumes "tcp_ok s" "k < 16"
  shows "command_ok s (tcp_abort k s)"
  using tcp_abort_ok [OF assms] command_ok_step by blast

lemma tcp_open_sleep_total:
  assumes "tcp_ok s" "k < 16" "tcp_open_sleep k st s = (res, s')"
  shows "command_ok s s'"
proof -
  obtain r c where sl: "sched_sleep_enter (tctx (tcp_pcbs s ! k)) = (r, c)" by fastforce
  note ctx = command_ctx [OF assms(1,2), of c]
  show ?thesis
  proof (cases r)
    case None
    then show ?thesis using assms(3) sl ctx by (simp add: tcp_open_sleep_def)
  next
    case (Some e)
    then have "s' = tcp_abort k (upd_tcp_pcb k (\<lambda>pcb. pcb\<lparr>tctx := c\<rparr>) s)" using assms(3) sl by (simp add: tcp_open_sleep_def)
    then show ?thesis using command_ok_trans [OF ctx command_abort [OF command_okD [OF ctx] assms(2)]] by simp
  qed
qed

lemma tcp_open_loop_total:
  assumes "tcp_ok s" "k < 16" "tcp_open_loop k st s = (res, s')"
  shows "command_ok s s'"
  using tcp_open_sleep_total [OF assms(1,2)] command_abort [OF assms(1,2)] command_ok_refl [OF assms(1)] assms(3)
  by (auto simp: tcp_open_loop_def Let_def split: if_splits)

lemma tcp_open_resume_total:
  assumes "tcp_ok s" "k < 16" "tcp_open_resume k st ret s = (res, s')"
  shows "command_ok s s'"
proof -
  obtain e c where sl: "sched_sleep_resume ret (tctx (tcp_pcbs s ! k)) = (e, c)" by fastforce
  note ctx = command_ctx [OF assms(1,2), of c]
  let ?s = "upd_tcp_pcb k (\<lambda>pcb. pcb\<lparr>tctx := c\<rparr>) s"
  have "command_ok ?s s'"
    using assms(3) sl command_abort [OF command_okD [OF ctx] assms(2)] tcp_open_loop_total [OF command_okD [OF ctx] assms(2)]
    by (auto simp: tcp_open_resume_def Let_def split: if_splits)
  with ctx show ?thesis by (rule command_ok_trans)
qed

lemma tcp_close_total:
  assumes "tcp_ok s"
  shows "\<exists>r s'. tcp_close i s = Some (r, s') \<and> command_ok s s'"
proof (cases "tcp_pcb_get i s")
  case None
  then show ?thesis using command_ok_refl [OF assms] by (simp add: tcp_close_def)
next
  case (Some k)
  show ?thesis
  proof (cases "tstate (tcp_pcbs s ! k) \<in> {TCP_PCB_STATE_ESTABLISHED, TCP_PCB_STATE_CLOSE_WAIT}")
    case True
    then obtain s' where "tcp_close i s = Some (0, s')" "tcp_step k s s'"
      using tcp_close_ok [OF assms, of i] unfolding Some option.case Let_def if_P [OF True] by blast
    then show ?thesis using command_ok_step by blast
  next
    case False
    then show ?thesis using Some command_ok_refl [OF assms] by (simp add: tcp_close_def Let_def)
  qed
qed

text \<open>
  The loop of \<^verbatim>\<open>tcp_send\<close> ends whatever the window is, when a segment can carry at least one byte. It does not wait on a context that is
  interrupted.
\<close>

definition send_returns :: "nat \<Rightarrow> 'z tcp_scheme \<Rightarrow> (int, nat) command \<Rightarrow> bool" where
  "send_returns k s res \<longleftrightarrow> (interrupted (tctx (tcp_pcbs s ! k)) \<longrightarrow> (\<exists>n. res = Returned n))"

lemma send_returns_Returned [simp]: "send_returns k s (Returned n)"
  by (simp add: send_returns_def)

lemma tcp_send_loop_total:
  assumes "tcp_ok s" "k < 16" "0 < mss" "mss \<le> 65495" "len \<le> length data" "sent \<le> len"
  shows "\<exists>res s'. tcp_send_loop k mss data len sent s = Some (res, s') \<and> command_ok s s' \<and> send_returns k s res"
  using assms
proof (induction "len - sent" arbitrary: sent s rule: less_induct)
  case less
  note ok = less.prems(1,2)
  let ?pcb = "tcp_pcbs s ! k"
  consider (all) "sent = len" | (full) "sent < len" "tcp_send_cap ?pcb = 0" | (go) "sent < len" "tcp_send_cap ?pcb \<noteq> 0"
    using less.prems(6) by linarith
  then show ?case
  proof cases
    case all
    then show ?thesis using command_ok_refl [OF ok(1)] by (subst tcp_send_loop.simps) simp
  next
    case full
    obtain r c where sl: "sched_sleep_enter (tctx ?pcb) = (r, c)" by fastforce
    then show ?thesis
      using full command_ctx [OF ok] by (subst tcp_send_loop.simps) (cases r; simp add: send_returns_def sched_sleep_enter_def split: if_splits)
  next
    case go
    define n where "n = min (min mss (len - sent)) (tcp_send_cap ?pcb)"
    have n: "0 < n" "n \<le> length (drop sent data)" "n \<le> 65495" "n \<le> len - sent"
      using go less.prems(3-6) by (auto simp: n_def)
    let ?fl = "TCP_FLG_ACK OR TCP_FLG_PSH"
    from tcp_output_ok [OF ok n(2,3), of ?fl]
    obtain r s1 where s1: "tcp_output k ?fl (drop sent data) n s = Some (r, s1)" "command_ok s s1" "tctx (tcp_pcbs s1 ! k) = tctx ?pcb"
      using ok(2) tcp_okD(3) [OF ok(1)] by (auto simp: command_ok_def)
    note ok1 = command_okD [OF s1(2)]
    let ?s2 = "upd_tcp_pcb k (\<lambda>pcb. pcb\<lparr>snd_nxt := snd_nxt pcb + mk32 n\<rparr>) s1"
    have eq: "tcp_send_loop k mss data len sent s =
        (if r = -1 then Some (Returned (-1), tcp_abort k s1) else tcp_send_loop k mss data len (sent + n) ?s2)"
      using go s1(1) by (subst tcp_send_loop.simps) (simp add: n_def Let_def)
    have "tcp_step k s1 ?s2" using tcp_okD(4) [OF ok1 ok(2)] by (intro tcp_step_upd [OF ok1 ok(2)]) (simp add: tpcb_ok_def)
    then have s2: "command_ok s1 ?s2" by (rule command_ok_step)
    have "sent + n \<le> len" "len - (sent + n) < len - sent" using n(1,4) go(1) by linarith+
    from less.hyps [OF this(2) command_okD [OF s2] ok(2) less.prems(3-5) this(1)]
    obtain res s' where s': "tcp_send_loop k mss data len (sent + n) ?s2 = Some (res, s')" "command_ok ?s2 s'" "send_returns k ?s2 res" by blast
    have "send_returns k s res" using s'(3) s1(3) ok(2) tcp_okD(3) [OF ok1] by (simp add: send_returns_def upd_tcp_pcb_def)
    moreover have "command_ok s s'" using s1(2) s2 s'(2) command_ok_trans by blast
    moreover have "command_ok s (tcp_abort k s1)" using s1(2) command_abort [OF ok1 ok(2)] by (rule command_ok_trans)
    ultimately show ?thesis using eq s'(1) by (cases "r = -1") simp_all
  qed
qed

text \<open>Every device carries packets with room for an IP and a TCP header and a byte.\<close>

definition mtu_ok :: "'z tcp_scheme \<Rightarrow> bool" where
  "mtu_ok s \<longleftrightarrow> (\<forall>i d. dev_tab s i = Some d \<longrightarrow> 40 < unat (mtu d))"

lemma ip_route_get_dev:
  assumes "ip_ok s" "ip_route_get_iface dst s = Some f"
  shows "\<exists>d. dev_tab s (iface_dev f) = Some d"
proof -
  obtain r where "ip_route_lookup dst s = Some r" "f = route_iface r"
    using assms(2) by (auto simp: ip_route_get_iface_def)
  with ip_route_lookup_in [of dst s r] assms(1) show ?thesis by (auto simp: ip_ok_def)
qed

lemma tcp_send_retry_total:
  assumes "tcp_ok s" "mtu_ok s" "k < 16" "len \<le> length data" "sent \<le> len"
  shows "\<exists>res s'. tcp_send_retry k data len sent s = Some (res, s') \<and> command_ok s s' \<and> send_returns k s res"
proof (cases "ip_route_get_iface (ep_addr (tforeign (tcp_pcbs s ! k))) s")
  case None
  then show ?thesis using command_ok_refl [OF assms(1)] by (simp add: tcp_send_retry_def)
next
  case (Some f)
  then obtain d where d: "dev_tab s (iface_dev f) = Some d" using ip_route_get_dev [OF tcp_okD(2) [OF assms(1)]] by blast
  then have m: "40 < unat (mtu d)" using assms(2) by (simp add: mtu_ok_def)
  have "size_of_int (int (unat (mtu d)) - int (IP_HDR_SIZE_MIN + TCP_HDR_SIZE)) = unat (mtu d) - 40"
    using m unat_u16_less [of "mtu d"] by (subst size_of_int_diff) simp_all
  moreover have "unat (mtu d) - 40 \<le> 65495" using unat_u16_less [of "mtu d"] by linarith
  ultimately show ?thesis
    using tcp_send_loop_total [OF assms(1,3), of "unat (mtu d) - 40" len data sent] m assms(4,5) Some d command_ok_refl [OF assms(1)]
    by (simp only: tcp_send_retry_def option.case bind.bind_lunit zero_less_diff split: if_split) (blast intro: send_returns_Returned)
qed

lemma tcp_recv_retry_total:
  assumes "tcp_ok s" "k < 16"
  shows "\<exists>res s'. tcp_recv_retry k sz s = Some (res, s') \<and> command_ok s s'"
proof -
  obtain s' res where "tcp_copy_out k sz (TCP_BUF_SIZE - unat (rcv_wnd (tcp_pcbs s ! k))) s = Some (res, s')" "command_ok s s'"
    using tcp_copy_out_ok [OF assms, of sz] command_ok_step by blast
  moreover obtain r c where "sched_sleep_enter (tctx (tcp_pcbs s ! k)) = (r, c)" by fastforce
  ultimately show ?thesis
    using command_ctx [OF assms, of c] command_ok_refl [OF assms(1)] by (cases r) (auto simp: tcp_recv_retry_def Let_def)
qed

lemma tcp_resume_total:
  assumes "tcp_ok s" "k < 16"
  shows "\<exists>res s'. tcp_receive_resume k ret sz s = Some (res, s') \<and> command_ok s s'"
    and "mtu_ok s \<Longrightarrow> len \<le> length data \<Longrightarrow> sent \<le> len \<Longrightarrow>
      \<exists>res s'. tcp_send_resume k ret data len sent s = Some (res, s') \<and> command_ok s s'"
proof -
  obtain e c where sl: "sched_sleep_resume ret (tctx (tcp_pcbs s ! k)) = (e, c)" by fastforce
  let ?s = "upd_tcp_pcb k (\<lambda>pcb. pcb\<lparr>tctx := c\<rparr>) s"
  note ctx = command_ctx [OF assms, of c]
  note ok = command_okD [OF ctx]
  show "\<exists>res s'. tcp_receive_resume k ret sz s = Some (res, s') \<and> command_ok s s'"
    using tcp_recv_retry_total [OF ok assms(2), of sz] command_ok_trans [OF ctx] ctx sl
    by (auto simp: tcp_receive_resume_def Let_def)
  assume "mtu_ok s" "len \<le> length data" "sent \<le> len"
  then have "mtu_ok ?s" "len \<le> length data" "sent \<le> len" by (simp_all add: mtu_ok_def upd_tcp_pcb_def set_tcp_pcb_def)
  from tcp_send_retry_total [OF ok this(1) assms(2) this(2,3)]
  show "\<exists>res s'. tcp_send_resume k ret data len sent s = Some (res, s') \<and> command_ok s s'"
    using command_ok_trans [OF ctx] ctx sl by (auto simp: tcp_send_resume_def Let_def)
qed

lemma tcp_open_total:
  assumes "tcp_ok s" "active \<longrightarrow> foreign \<noteq> None"
  shows "\<exists>res s'. tcp_open_rfc793 local foreign active s = Some (res, s') \<and> command_ok s s'"
proof -
  obtain res s' where s': "tcp_open_rfc793 local foreign active s = Some (res, s')"
    "case find_pos (\<lambda>pcb. tstate pcb = TCP_PCB_STATE_FREE) (tcp_pcbs s) of None \<Rightarrow> s' = s | Some i \<Rightarrow> tcp_step i s s'"
    using tcp_open_ok [OF assms, of local] by (auto split: option.splits)
  then show ?thesis using command_ok_step command_ok_refl [OF assms(1)] by (auto split: option.splits)
qed

section \<open>UDP\<close>

lemma command_udp:
  assumes "tcp_ok s" "k < 16" "upcb_ok pcb"
  shows "command_ok s (set_udp_pcb k pcb s)" "command_ok s (set_udp_pcb k pcb (s\<lparr>cond_results := cr\<rparr>))"
proof -
  have ok: "udp_ok (set_udp_pcb k pcb s)" "tcp_ok (s\<lparr>cond_results := cr\<rparr>)"
    using udp_ok_set [OF tcp_okD(1) [OF assms(1)] assms(3)] udp_okD(2) [OF tcp_okD(1) [OF assms(1)]] assms by simp_all
  then have "tcp_ok (set_udp_pcb k pcb s)" using assms(1) by (simp add: tcp_ok_def set_udp_pcb_def)
  then show "command_ok s (set_udp_pcb k pcb s)"
    by (simp add: command_ok_def set_udp_pcb_def stack_frame_def ip_frame_def arp_frame_def output_frame_def)
  have "udp_ok (set_udp_pcb k pcb (s\<lparr>cond_results := cr\<rparr>))"
    using udp_ok_set [OF tcp_okD(1) [OF ok(2)] assms(3)] udp_okD(2) [OF tcp_okD(1) [OF assms(1)]] assms by simp
  then have "tcp_ok (set_udp_pcb k pcb (s\<lparr>cond_results := cr\<rparr>))" using assms(1) by (simp add: tcp_ok_def set_udp_pcb_def)
  then show "command_ok s (set_udp_pcb k pcb (s\<lparr>cond_results := cr\<rparr>))"
    by (simp add: command_ok_def set_udp_pcb_def stack_frame_def ip_frame_def arp_frame_def output_frame_def)
qed

lemma tcp_ok_udp: "tcp_ok s \<Longrightarrow> k < 16 \<Longrightarrow> upcb_ok (udp_pcbs s ! k)"
  using udp_okD(3) [of s k] tcp_okD(1) [of s] by simp

lemma udp_pcb_get_less: "udp_pcb_get i s = Some k \<Longrightarrow> tcp_ok s \<Longrightarrow> k < 16"
  using udp_okD(2) [of s] tcp_okD(1) [of s] by (simp add: udp_pcb_get_Some)

lemma udp_release_command:
  assumes "tcp_ok s" "k < 16"
  shows "command_ok s (udp_pcb_release k s)"
  using command_udp(2) [OF assms] tcp_ok_udp [OF assms]
  by (simp add: udp_pcb_release_def sched_ctx_destroy_def Let_def upcb_ok_def)

lemma udp_table_commands:
  assumes "tcp_ok s"
  shows "command_ok s (snd (udp_open s))" "command_ok s (snd (udp_close i s))" "command_ok s (snd (udp_bind i local s))"
proof -
  note refl = command_ok_refl [OF assms]
  show "command_ok s (snd (udp_open s))"
  proof (cases "find_pos (\<lambda>pcb. ustate pcb = UDP_PCB_STATE_FREE) (udp_pcbs s)")
    case None
    then show ?thesis using refl by (simp add: udp_open_def udp_pcb_alloc_def)
  next
    case (Some k)
    then have k: "k < 16" using find_pos_SomeD(1) [OF Some] udp_okD(2) [OF tcp_okD(1) [OF assms]] by simp
    then show ?thesis
      using Some command_udp(1) [OF assms k] tcp_ok_udp [OF assms k] by (simp add: udp_open_def udp_pcb_alloc_def upcb_ok_def)
  qed
  show "command_ok s (snd (udp_close i s))"
    using refl udp_release_command [OF assms] udp_pcb_get_less [OF _ assms] by (auto simp: udp_close_def split: option.split)
  show "command_ok s (snd (udp_bind i local s))"
  proof (cases "udp_pcb_get i s")
    case (Some k)
    then have "k < 16" using assms by (rule udp_pcb_get_less)
    with command_udp(1) [OF assms this, of "(udp_pcbs s ! k)\<lparr>ulocal := local\<rparr>"] tcp_ok_udp [OF assms this] Some refl show ?thesis
      by (auto simp: udp_bind_def upcb_ok_def split: option.split)
  qed (use refl in \<open>simp add: udp_bind_def\<close>)
qed

lemma udp_output_command:
  assumes "tcp_ok s" "len \<le> length data"
  shows "\<exists>r s'. udp_output src dst data len s = Some (r, s') \<and> command_ok s s'"
proof -
  obtain r s' where s': "udp_output src dst data len s = Some (r, s')" "udp_ok s'" "ip_frame s s'"
    using udp_output_total [OF tcp_okD(1) [OF assms(1)] assms(2)] by blast
  then show ?thesis
    using tcp_ok_ip_frame [OF assms(1) s'(3) udp_okD(1) [OF s'(2)]] stack_frame_ip [OF s'(3)] by (auto simp: command_ok_def)
qed

lemma ip_output_command:
  assumes "tcp_ok s" "len \<le> length data"
  shows "\<exists>r s'. ip_output protocol data len src dst s = Some (r, s') \<and> command_ok s s'"
proof -
  obtain r s' where s': "ip_output protocol data len src dst s = Some (r, s')" "ip_ok s'" "ip_frame s s'"
    using ip_output_total [OF udp_okD(1) [OF tcp_okD(1) [OF assms(1)]] assms(2)] by blast
  then show ?thesis
    using tcp_ok_ip_frame [OF assms(1) s'(3,2)] stack_frame_ip [OF s'(3)] by (auto simp: command_ok_def)
qed

lemma icmp_output_command:
  assumes "tcp_ok s" "len \<le> length data" "len \<le> 65507"
  shows "\<exists>r s'. icmp_output type code vals data len src dst s = Some (r, s') \<and> command_ok s s'"
  unfolding icmp_output_message [OF assms(2,3)] using assms(1,2) by (intro ip_output_command) simp_all

lemma udp_sendto_total:
  assumes "tcp_ok s" "len \<le> length data"
  shows "\<exists>r s'. udp_sendto i data len foreign s = Some (r, s') \<and> command_ok s s'"
proof (cases "udp_pcb_get i s")
  case None
  then show ?thesis using command_ok_refl [OF assms(1)] by (simp add: udp_sendto_def)
next
  case (Some k)
  let ?pcb = "udp_pcbs s ! k"
  have k: "k < 16" using Some assms(1) by (rule udp_pcb_get_less)
  have out: "\<exists>r s'. udp_output src foreign data len (set_udp_pcb k (?pcb\<lparr>ulocal := l\<rparr>) s) = Some (r, s') \<and> command_ok s s'" for src l
  proof -
    have "command_ok s (set_udp_pcb k (?pcb\<lparr>ulocal := l\<rparr>) s)"
      using command_udp(1) [OF assms(1) k] tcp_ok_udp [OF assms(1) k] by (simp add: upcb_ok_def)
    then show ?thesis using udp_output_command [OF command_okD assms(2)] command_ok_trans by blast
  qed
  show ?thesis
    using Some udp_output_command [OF assms] command_ok_refl [OF assms(1)] out
    by (auto simp: udp_sendto_def Let_def split: option.split if_split)
qed

lemma udp_recv_loop_command:
  assumes "tcp_ok s" "k < 16"
  shows "\<exists>r s'. udp_recv_loop k sz s = Some (r, s') \<and> command_ok s s'"
proof (cases "uqueue (udp_pcbs s ! k)")
  case Nil
  obtain e c where "sched_sleep_enter (uctx (udp_pcbs s ! k)) = (e, c)" by fastforce
  then show ?thesis
    using Nil command_udp(1) [OF assms] tcp_ok_udp [OF assms] by (cases e) (simp_all add: udp_recv_loop_def Let_def upcb_ok_def)
next
  case (Cons e q)
  then show ?thesis
    using tcp_ok_udp [OF assms] udp_recv_loop_pop [OF Cons, of sz] command_udp(1) [OF assms] by (simp add: upcb_ok_def)
qed

lemma udp_recvfrom_total:
  assumes "tcp_ok s"
  shows "\<exists>r s'. udp_recvfrom i sz s = Some (r, s') \<and> command_ok s s'"
    and "k < 16 \<Longrightarrow> \<exists>r s'. udp_recvfrom_resume k ret sz s = Some (r, s') \<and> command_ok s s'"
proof -
  show "\<exists>r s'. udp_recvfrom i sz s = Some (r, s') \<and> command_ok s s'"
    using udp_recv_loop_command [OF assms] udp_pcb_get_less [OF _ assms] command_ok_refl [OF assms]
    by (cases "udp_pcb_get i s") (auto simp: udp_recvfrom_def)
  assume k: "k < 16"
  obtain e c where sl: "sched_sleep_resume ret (uctx (udp_pcbs s ! k)) = (e, c)" by fastforce
  let ?s = "set_udp_pcb k ((udp_pcbs s ! k)\<lparr>uctx := c\<rparr>) s"
  have ctx: "command_ok s ?s" using command_udp(1) [OF assms k] tcp_ok_udp [OF assms k] by (simp add: upcb_ok_def)
  note ok = command_okD [OF ctx]
  show "\<exists>r s'. udp_recvfrom_resume k ret sz s = Some (r, s') \<and> command_ok s s'"
    using sl ctx udp_recv_loop_command [OF ok k, of sz] udp_release_command [OF ok k] command_ok_trans [OF ctx]
    by (auto simp: udp_recvfrom_resume_def Let_def)
qed

end
