(* ===== verification/System.thy ===== *)
theory System
  imports Intr_Thread Commands
begin

text \<open>
  The whole program as a transition system: tasks call the user commands of UDP and TCP and go on after a wait,
  frames arrive at the devices, and the interrupt thread takes signals, in any order. A command holds the
  lock of its protocol from its call to its return or wait, so it is one step. The output functions, which tests call directly, only lock
  the tables they use one after the other; they are taken as one step too. The theorem of this theory is
  that no sequence of steps leaves the invariant or gets stuck.
\<close>

section \<open>Safe transition systems\<close>

text \<open>Runs of operations, each of which is allowed in the state in which it is executed.\<close>

inductive runs :: "('o \<Rightarrow> 's \<Rightarrow> 's option) \<Rightarrow> ('o \<Rightarrow> 's \<Rightarrow> bool) \<Rightarrow> 's \<Rightarrow> 'o list \<Rightarrow> 's \<Rightarrow> bool" for exec allowed where
  none: "runs exec allowed s [] s"
| one: "\<lbrakk>allowed x s; exec x s = Some s1; runs exec allowed s1 xs s2\<rbrakk> \<Longrightarrow> runs exec allowed s (x # xs) s2"

inductive_simps runs_Nil: "runs exec allowed s [] s'"
inductive_simps runs_Cons: "runs exec allowed s (x # xs) s'"

text \<open>
  The contract: in a state with the invariant every allowed operation is defined and keeps the invariant. Then every run
  keeps it and no run gets stuck at an allowed operation.
\<close>

locale safe_steps =
  fixes exec :: "'o \<Rightarrow> 's \<Rightarrow> 's option" and allowed :: "'o \<Rightarrow> 's \<Rightarrow> bool" and inv :: "'s \<Rightarrow> bool"
  assumes exec_safe: "inv s \<Longrightarrow> allowed x s \<Longrightarrow> \<exists>s'. exec x s = Some s' \<and> inv s'"
begin

lemma runs_inv:
  assumes "runs exec allowed s xs s'" "inv s"
  shows "inv s'"
  using assms by induction (use exec_safe in fastforce)+

lemma runs_not_stuck:
  assumes "runs exec allowed s xs s'" "inv s" "allowed x s'"
  shows "\<exists>s''. exec x s' = Some s'' \<and> inv s''"
  using exec_safe runs_inv assms by blast

lemma runs_snoc:
  assumes "runs exec allowed s xs s'" "inv s" "allowed x s'"
  shows "\<exists>s''. runs exec allowed s (xs @ [x]) s''"
  using assms
proof induction
  case (none s)
  then show ?case using exec_safe by (fastforce intro: runs.intros)
next
  case (one y s s1 xs s2)
  then have "inv s1" using exec_safe by fastforce
  then show ?case using one by (auto intro: runs.one)
qed

end

section \<open>The operations\<close>

text \<open>The calls of the tasks, the ends of their waits, the arrival of a frame or error at a device, and the signals.\<close>

datatype operation =
    Udp_open | Udp_bind int ip_endpoint | Udp_close int
  | Udp_sendto int bytes nat ip_endpoint | Udp_recvfrom int nat | Udp_recvfrom_wake nat int nat
  | Tcp_open ip_endpoint "ip_endpoint option" bool | Tcp_open_wake nat int int | Tcp_close int
  | Tcp_send int bytes nat | Tcp_send_wake nat int bytes nat nat
  | Tcp_receive int nat | Tcp_receive_wake nat int nat
  | Ip_output u8 bytes nat u32 u32 | Icmp_output u8 u8 u32 bytes nat u32 u32 | Udp_output ip_endpoint ip_endpoint bytes nat
  | Raise_event | Arrival dev_id rx_event | Signal nat

fun exec :: "operation \<Rightarrow> 'z tcp_scheme \<Rightarrow> 'z tcp_scheme option" where
  "exec Udp_open s = Some (snd (udp_open s))"
| "exec (Udp_bind i local) s = Some (snd (udp_bind i local s))"
| "exec (Udp_close i) s = Some (snd (udp_close i s))"
| "exec (Udp_sendto i data len foreign) s = map_option snd (udp_sendto i data len foreign s)"
| "exec (Udp_recvfrom i sz) s = map_option snd (udp_recvfrom i sz s)"
| "exec (Udp_recvfrom_wake k ret sz) s = map_option snd (udp_recvfrom_resume k ret sz s)"
| "exec (Tcp_open local foreign active) s = map_option snd (tcp_open_rfc793 local foreign active s)"
| "exec (Tcp_open_wake k st ret) s = Some (snd (tcp_open_resume k st ret s))"
| "exec (Tcp_close i) s = map_option snd (tcp_close i s)"
| "exec (Tcp_send i data len) s = map_option snd (tcp_send i data len s)"
| "exec (Tcp_send_wake k ret data len sent) s = map_option snd (tcp_send_resume k ret data len sent s)"
| "exec (Tcp_receive i sz) s = map_option snd (tcp_receive i sz s)"
| "exec (Tcp_receive_wake k ret sz) s = map_option snd (tcp_receive_resume k ret sz s)"
| "exec (Ip_output protocol data len src dst) s = map_option snd (ip_output protocol data len src dst s)"
| "exec (Icmp_output type code vals data len src dst) s = map_option snd (icmp_output type code vals data len src dst s)"
| "exec (Udp_output src dst data len) s = map_option snd (udp_output src dst data len s)"
| "exec Raise_event s = Some (net_raise_event s)"
| "exec (Arrival dev e) s = Some (s\<lparr>rx := (rx s)(dev := rx s dev @ [e])\<rparr>)"
| "exec (Signal sig) s = map_option snd (intr_signal sig s)"

text \<open>
  What the callers guarantee: buffers are as long as their length says, an active open names a foreign endpoint, a wait
  ends on a control block of the table; and what the code does not check of the packets that a software
  interrupt finds.
\<close>

fun allowed :: "operation \<Rightarrow> 'z tcp_scheme \<Rightarrow> bool" where
  "allowed (Udp_sendto i data len foreign) s \<longleftrightarrow> len \<le> length data"
| "allowed (Udp_recvfrom_wake k ret sz) s \<longleftrightarrow> k < UDP_PCB_SIZE"
| "allowed (Tcp_open local foreign active) s \<longleftrightarrow> (active \<longrightarrow> foreign \<noteq> None)"
| "allowed (Tcp_open_wake k st ret) s \<longleftrightarrow> k < TCP_PCB_SIZE"
| "allowed (Tcp_send i data len) s \<longleftrightarrow> len \<le> length data"
| "allowed (Tcp_send_wake k ret data len sent) s \<longleftrightarrow> k < TCP_PCB_SIZE \<and> len \<le> length data \<and> sent \<le> len"
| "allowed (Tcp_receive_wake k ret sz) s \<longleftrightarrow> k < TCP_PCB_SIZE"
| "allowed (Ip_output protocol data len src dst) s \<longleftrightarrow> len \<le> length data"
| "allowed (Icmp_output type code vals data len src dst) s \<longleftrightarrow> len \<le> length data \<and> len \<le> ICMP_BUFSIZ - ICMP_HDR_SIZE"
| "allowed (Udp_output src dst data len) s \<longleftrightarrow> len \<le> length data"
| "allowed (Signal sig) s \<longleftrightarrow> (sig = INTR_IRQ_SOFTIRQ \<longrightarrow> protocols_ok [0 ..< length (protocols s)] s)"
| "allowed _ s \<longleftrightarrow> True"

section \<open>Every run is safe\<close>

definition sys_ok :: "'z tcp_scheme \<Rightarrow> bool" where
  "sys_ok s \<longleftrightarrow> intr_ok s \<and> mtu_ok s"

lemma mtu_ok_kept:
  assumes "mtu_ok s" "stack_kept s s'"
  shows "mtu_ok s'"
  unfolding mtu_ok_def
proof (intro allI impI)
  fix i d assume "dev_tab s' i = Some d"
  moreover from assms(2) have "map_option dev_static (dev_tab s' i) = map_option dev_static (dev_tab s i)"
    by (simp add: stack_kept_def)
  ultimately obtain d0 where d0: "dev_tab s i = Some d0" "dev_static d = dev_static d0" by (cases "dev_tab s i") auto
  then have "mtu d = mtu d0" by (cases d; cases d0) (simp add: dev_static_def)
  then show "40 < unat (mtu d)" using d0(1) assms(1) by (simp add: mtu_ok_def)
qed

lemma sys_ok_command:
  assumes "sys_ok s" "command_ok s s'"
  shows "sys_ok s'"
proof -
  have kept: "stack_kept s s'" and pr: "protocols s' = protocols s" and ok: "tcp_ok s'"
    using assms(2) stack_kept_frame [of s s'] stack_frameD(2) [of s s'] by (simp_all add: command_ok_def)
  have "queue_ok s'" using queue_ok_kept [OF _ kept] pr assms(1) by (auto simp: sys_ok_def intr_ok_def)
  then show ?thesis
    using ok irq_ok_kept [OF _ kept] mtu_ok_kept [OF _ kept] assms(1) by (simp add: sys_ok_def intr_ok_def)
qed

text \<open>The subscriptions of events stay what they are.\<close>

definition sys_step :: "'z tcp_scheme \<Rightarrow> 'z tcp_scheme \<Rightarrow> bool" where
  "sys_step s s' \<longleftrightarrow> sys_ok s' \<and> events s' = events s"

lemma sys_step_command: "sys_ok s \<Longrightarrow> command_ok s s' \<Longrightarrow> sys_step s s'"
  using sys_ok_command [of s s'] stack_kept_frame [of s s'] by (simp add: sys_step_def command_ok_def stack_kept_def)

lemma command_result:
  assumes "sys_ok s" "\<exists>r s'. X = Some (r, s') \<and> command_ok s s'"
  shows "\<exists>s'. map_option snd X = Some s' \<and> sys_step s s'"
  using assms(2) sys_step_command [OF assms(1)] by auto

lemma sys_ok_signal:
  assumes "sys_ok s" "allowed (Signal sig) s"
  shows "\<exists>s'. exec (Signal sig) s = Some s' \<and> sys_step s s'"
proof -
  have "intr_ok s" "sig = INTR_IRQ_SOFTIRQ \<longrightarrow> protocols_ok [0 ..< length (protocols s)] s" using assms by (simp_all add: sys_ok_def)
  from intr_signal_ok [OF this] obtain s' where "intr_signal sig s = Some (sig = SIGHUP, s')" "intr_ok s'" "stack_kept s s'" by blast
  then show ?thesis using mtu_ok_kept [of s s'] assms(1) by (simp add: sys_step_def sys_ok_def stack_kept_def)
qed

lemma sys_ok_below:
  assumes "sys_ok s"
  shows "sys_ok (net_raise_event s)" "sys_ok (s\<lparr>rx := r\<rparr>)"
  using assms
  by (simp_all add: sys_ok_def mtu_ok_def intr_ok_def queue_ok_def irq_ok_def tcp_ok_def udp_ok_def ip_ok_def net_ok_def drvs_ok_def
      net_raise_event_def intr_raise_irq_def)

lemma exec_sys_step:
  assumes "sys_ok s" "allowed x s"
  shows "\<exists>s'. exec x s = Some s' \<and> sys_step s s'"
proof -
  have ok: "tcp_ok s" "mtu_ok s" using assms(1) by (simp_all add: sys_ok_def intr_ok_def)
  note cmd = command_result [OF assms(1)] and upd = sys_step_command [OF assms(1)]
  have get: "\<exists>r s'. tcp_send i data len s = Some (r, s') \<and> command_ok s s'" if "len \<le> length data" for i data len
    using tcp_send_retry_total [OF ok, of _ len data 0] that tcp_pcb_get_less [OF _ ok(1)] command_ok_refl [OF ok(1)]
    by (cases "tcp_pcb_get i s") (fastforce simp: tcp_send_def)+
  have rcv: "\<exists>r s'. tcp_receive i sz s = Some (r, s') \<and> command_ok s s'" for i sz
    using tcp_recv_retry_total [OF ok(1), of _ sz] tcp_pcb_get_less [OF _ ok(1)] command_ok_refl [OF ok(1)]
    by (cases "tcp_pcb_get i s") (auto simp: tcp_receive_def)
  show ?thesis
  proof (cases x)
    case Udp_open
    then show ?thesis using upd udp_table_commands(1) [OF ok(1)] by simp
  next
    case (Udp_bind i local)
    then show ?thesis using upd udp_table_commands(3) [OF ok(1)] by simp
  next
    case (Udp_close i)
    then show ?thesis using upd udp_table_commands(2) [OF ok(1)] by simp
  next
    case (Udp_sendto i data len foreign)
    then show ?thesis using cmd [OF udp_sendto_total [OF ok(1)]] assms(2) by simp
  next
    case (Ip_output protocol data len src dst)
    then show ?thesis using cmd [OF ip_output_command [OF ok(1)]] assms(2) by simp
  next
    case (Icmp_output type code vals data len src dst)
    then show ?thesis using cmd [OF icmp_output_command [OF ok(1)]] assms(2) by simp
  next
    case (Udp_output src dst data len)
    then show ?thesis using cmd [OF udp_output_command [OF ok(1)]] assms(2) by simp
  next
    case (Udp_recvfrom i sz)
    then show ?thesis using cmd [OF udp_recvfrom_total(1) [OF ok(1)]] by simp
  next
    case (Udp_recvfrom_wake k ret sz)
    then show ?thesis using cmd [OF udp_recvfrom_total(2) [OF ok(1)]] assms(2) by simp
  next
    case (Tcp_open local foreign active)
    then show ?thesis using cmd [OF tcp_open_total [OF ok(1)]] assms(2) by simp
  next
    case (Tcp_open_wake k st ret)
    then show ?thesis
      using upd tcp_open_resume_total [OF ok(1), of k st ret] assms(2) by (cases "tcp_open_resume k st ret s") simp
  next
    case (Tcp_close i)
    then show ?thesis using cmd [OF tcp_close_total [OF ok(1)]] by simp
  next
    case (Tcp_send i data len)
    then show ?thesis using cmd [OF get] assms(2) by simp
  next
    case (Tcp_send_wake k ret data len sent)
    then show ?thesis using cmd [OF tcp_resume_total(2) [OF ok(1) _ ok(2)]] assms(2) by simp
  next
    case (Tcp_receive i sz)
    then show ?thesis using cmd [OF rcv] by simp
  next
    case (Tcp_receive_wake k ret sz)
    then show ?thesis using cmd [OF tcp_resume_total(1) [OF ok(1)]] assms(2) by simp
  next
    case Raise_event
    then show ?thesis using sys_ok_below(1) [OF assms(1)] by (simp add: sys_step_def net_raise_event_def intr_raise_irq_def)
  next
    case (Arrival dev e)
    then show ?thesis using sys_ok_below(2) [OF assms(1)] by (simp add: sys_step_def)
  next
    case (Signal sig)
    then show ?thesis using sys_ok_signal assms by blast
  qed
qed

lemma exec_sys_ok: "sys_ok s \<Longrightarrow> allowed x s \<Longrightarrow> \<exists>s'. exec x s = Some s' \<and> sys_ok s'"
  using exec_sys_step [of s x] by (auto simp: sys_step_def)

interpretation sys: safe_steps exec allowed sys_ok
  by unfold_locales (rule exec_sys_ok)

end
