(* ===== verification/Setup.thy ===== *)
theory Setup
  imports System
begin

text \<open>
  How a program brings the stack up: \<^verbatim>\<open>setup\<close> and \<^verbatim>\<open>cleanup\<close> of the demonstration programs (\<^verbatim>\<open>test/step28.c\<close>, with
  the addresses of \<^verbatim>\<open>test/test.h\<close>). From the zero-initialised state of the process, with memory and system calls
  free to fail at any point, a successful \<^verbatim>\<open>setup\<close> establishes the invariant of the whole system, so that
  every run of the program is safe.
\<close>

section \<open>Model\<close>

definition LOOPBACK_IP_ADDR :: string where "LOOPBACK_IP_ADDR = ''127.0.0.1''"
definition LOOPBACK_NETMASK :: string where "LOOPBACK_NETMASK = ''255.0.0.0''"
definition ETHER_TAP_NAME :: string where "ETHER_TAP_NAME = ''tap0''"
definition ETHER_TAP_HW_ADDR :: string where "ETHER_TAP_HW_ADDR = ''00:00:5e:00:53:01''"
definition ETHER_TAP_IP_ADDR :: string where "ETHER_TAP_IP_ADDR = ''192.168.70.2''"
definition ETHER_TAP_NETMASK :: string where "ETHER_TAP_NETMASK = ''255.255.255.0''"
definition DEFAULT_GATEWAY :: string where "DEFAULT_GATEWAY = ''192.168.70.1''"

text \<open>The part of \<^verbatim>\<open>setup\<close> that is repeated for each device: an interface is allocated and registered.\<close>

definition setup_iface :: "dev_id \<Rightarrow> string \<Rightarrow> string \<Rightarrow> 'z tcp_scheme \<Rightarrow> (ip_iface option \<times> 'z tcp_scheme) option" where
  "setup_iface dev a nm s =
     (case ip_iface_alloc a nm s of
        (None, s) \<Rightarrow> Some (None, s)
      | (Some iface, s) \<Rightarrow> do {
          (r, iface, s) \<leftarrow> ip_iface_register dev iface s;
          Some (if r = -1 then None else Some iface, s)
        })"

definition setup_stack :: "'z tcp_scheme \<Rightarrow> (int \<times> 'z tcp_scheme) option" where
  "setup_stack s =
     (let (r, s) = net_init s in
      if r = -1 then Some (-1, s)
      else case loopback_init s of
        (None, s) \<Rightarrow> Some (-1, s)
      | (Some dev, s) \<Rightarrow> do {
          (iface, s) \<leftarrow> setup_iface dev LOOPBACK_IP_ADDR LOOPBACK_NETMASK s;
          if iface = None then Some (-1, s)
          else case ether_tap_init ETHER_TAP_NAME (Some ETHER_TAP_HW_ADDR) s of
            (None, s) \<Rightarrow> Some (-1, s)
          | (Some dev, s) \<Rightarrow> do {
              (iface, s) \<leftarrow> setup_iface dev ETHER_TAP_IP_ADDR ETHER_TAP_NETMASK s;
              case iface of
                None \<Rightarrow> Some (-1, s)
              | Some iface \<Rightarrow> do {
                  let (r, s) = ip_route_set_default_gateway iface DEFAULT_GATEWAY s;
                  if r = -1 then Some (-1, s)
                  else do {
                    (r, s) \<leftarrow> net_run s;
                    if r = -1 then Some (-1, s) else Some (0, s)
                  }
                }
            }
        })"

text \<open>The start of the servers, which have no loopback device and no default route.\<close>

definition setup_tap :: "'z tcp_scheme \<Rightarrow> (int \<times> 'z tcp_scheme) option" where
  "setup_tap s =
     (let (r, s) = net_init s in
      if r = -1 then Some (-1, s)
      else case ether_tap_init ETHER_TAP_NAME (Some ETHER_TAP_HW_ADDR) s of
        (None, s) \<Rightarrow> Some (-1, s)
      | (Some dev, s) \<Rightarrow> do {
          (iface, s) \<leftarrow> setup_iface dev ETHER_TAP_IP_ADDR ETHER_TAP_NETMASK s;
          if iface = None then Some (-1, s)
          else do {
            (r, s) \<leftarrow> net_run s;
            if r = -1 then Some (-1, s) else Some (0, s)
          }
        })"

text \<open>The state of the process before \<^verbatim>\<open>main\<close>: all static variables are zero.\<close>

definition process_start :: "'z tcp_scheme \<Rightarrow> bool" where
  "process_start s \<longleftrightarrow> dev_tab s = Map.empty \<and> devices s = [] \<and> next_index s = 0 \<and> protocols s = [] \<and> timers s = [] \<and> events s = [] \<and>
     irqs s = [] \<and> (\<exists>e. caches s = replicate ARP_CACHE_SIZE (arp_cache_delete e)) \<and> ip_ifaces s = [] \<and> ip_protocols s = [] \<and>
     routes s = [] \<and> udp_pcbs s = replicate UDP_PCB_SIZE free_pcb \<and> tcp_pcbs s = replicate TCP_PCB_SIZE zero_tcp_pcb"

section \<open>Each step of the start keeps the invariant\<close>

lemma process_start_ok:
  assumes "process_start s"
  shows "sys_ok s"
proof -
  obtain e where e: "caches s = replicate 32 (arp_cache_delete e)" using assms by (auto simp: process_start_def)
  then have "ip_ok s" using assms arp_ok_empty(1) [of e] by (simp add: ip_ok_def process_start_def net_ok_def drvs_ok_def)
  then have "tcp_ok s"
    using assms zero_tcp_pcb_ok by (simp add: tcp_ok_def udp_ok_def process_start_def upcb_ok_def free_pcb_def)
  then show ?thesis using assms
    by (simp add: sys_ok_def intr_ok_def queue_ok_def irq_ok_def mtu_ok_def process_start_def)
qed

text \<open>What the invariant says of the tables, apart from the control blocks and the cache.\<close>

lemma sys_ok_tables:
  assumes "sys_ok s" "net_ok s'" "drvs_ok s'" "irq_ok s'"
    and "\<And>i d. dev_tab s' i = Some d \<Longrightarrow> unat (dev_alen d) \<le> 16 \<and> 40 < unat (mtu d)"
    and "\<And>i. dev_tab s i \<noteq> None \<Longrightarrow> dev_tab s' i \<noteq> None"
    and "\<And>r. r \<in> set (routes s') \<Longrightarrow> dev_tab s' (iface_dev (route_iface r)) \<noteq> None"
    and "\<And>p. p \<in> set (protocols s') \<Longrightarrow> p \<in> set (protocols s) \<or> pqueue p = []"
    and "caches s' = caches s" "udp_pcbs s' = udp_pcbs s" "tcp_pcbs s' = tcp_pcbs s"
  shows "sys_ok s'"
proof -
  have "queue_ok s'" using assms(1,6,8) unfolding sys_ok_def intr_ok_def queue_ok_def by fastforce
  moreover have "mtu_ok s'" using assms(5) by (auto simp: mtu_ok_def)
  ultimately show ?thesis
    using assms by (auto simp: sys_ok_def intr_ok_def tcp_ok_def udp_ok_def ip_ok_def)
qed

lemma sys_okD:
  assumes "sys_ok s"
  shows "net_ok s" "drvs_ok s" "irq_ok s" "dev_tab s i = Some d \<Longrightarrow> unat (dev_alen d) \<le> 16 \<and> 40 < unat (mtu d)"
    "r \<in> set (routes s) \<Longrightarrow> dev_tab s (iface_dev (route_iface r)) \<noteq> None" "tcp_ok s"
  using assms by (auto simp: sys_ok_def intr_ok_def mtu_ok_def tcp_ok_def udp_ok_def ip_ok_def)

lemma sys_ok_cong:
  assumes "dev_tab s' = dev_tab s" "devices s' = devices s" "next_index s' = next_index s" "protocols s' = protocols s"
    "irqs s' = irqs s" "caches s' = caches s" "routes s' = routes s" "udp_pcbs s' = udp_pcbs s" "tcp_pcbs s' = tcp_pcbs s"
  shows "sys_ok s' = sys_ok s"
  using assms
  by (simp add: sys_ok_def intr_ok_def queue_ok_def irq_ok_def mtu_ok_def tcp_ok_def udp_ok_def ip_ok_def net_ok_def drvs_ok_def)

text \<open>A device whose driver, MTU and address length stay what they are may change otherwise.\<close>

lemma sys_ok_device:
  assumes "sys_ok s" "dev_tab s i = Some d" "dev_ok i d'" "drv_ok d'" "ops d' = ops d" "mtu d' = mtu d" "dev_alen d' = dev_alen d"
  shows "sys_ok (s\<lparr>dev_tab := (dev_tab s)(i \<mapsto> d')\<rparr>)"
proof (rule sys_ok_tables [OF assms(1)])
  show "net_ok (s\<lparr>dev_tab := (dev_tab s)(i \<mapsto> d')\<rparr>)" using sys_okD(1) [OF assms(1)] assms(2,3) by (intro net_ok_update) simp_all
  show "drvs_ok (s\<lparr>dev_tab := (dev_tab s)(i \<mapsto> d')\<rparr>)" using sys_okD(2) [OF assms(1)] assms(4) by (simp add: drvs_ok_def)
  show "irq_ok (s\<lparr>dev_tab := (dev_tab s)(i \<mapsto> d')\<rparr>)" using sys_okD(3) [OF assms(1)] assms(2,5) by (auto simp: irq_ok_def)
qed (use sys_okD(4,5) [OF assms(1)] assms(2,6,7) in \<open>auto split: if_splits\<close>)

subsection \<open>Registrations\<close>

lemma sys_ok_feeds [simp]:
  "sys_ok (s\<lparr>allocs := al\<rparr>) = sys_ok s" "sys_ok (s\<lparr>syscalls := sc\<rparr>) = sys_ok s" "sys_ok (s\<lparr>timers := ts\<rparr>) = sys_ok s" "sys_ok (s\<lparr>clock := cl\<rparr>) = sys_ok s"
  "sys_ok (s\<lparr>events := es\<rparr>) = sys_ok s" "sys_ok (s\<lparr>ip_protocols := ps\<rparr>) = sys_ok s" "sys_ok (s\<lparr>ip_ifaces := fs\<rparr>) = sys_ok s"
  "sys_ok (s\<lparr>sigmask := m\<rparr>) = sys_ok s" "sys_ok (s\<lparr>started := b\<rparr>) = sys_ok s" "sys_ok (s\<lparr>hwaddrs := hs\<rparr>) = sys_ok s"
  by (rule sys_ok_cong; simp)+

lemma sys_ok_protocol_register:
  assumes "sys_ok s"
  shows "sys_ok (snd (net_protocol_register type handler s))"
proof (rule sys_ok_tables [OF assms])
  let ?s' = "snd (net_protocol_register type handler s)"
  have same: "dev_tab ?s' = dev_tab s" "irqs ?s' = irqs s" "routes ?s' = routes s"
    by (simp_all add: net_protocol_register_def platform_defs Let_def)
  show "net_ok ?s'" using sys_okD(1) [OF assms] by (rule net_ok_protocol_register)
  show "drvs_ok ?s'" using sys_okD(2) [OF assms] same by (simp add: drvs_ok_def)
  show "irq_ok ?s'" using sys_okD(3) [OF assms] same by (simp add: irq_ok_def)
  show "\<And>i d. dev_tab ?s' i = Some d \<Longrightarrow> unat (dev_alen d) \<le> 16 \<and> 40 < unat (mtu d)" using sys_okD(4) [OF assms] same by simp
  show "\<And>r. r \<in> set (routes ?s') \<Longrightarrow> dev_tab ?s' (iface_dev (route_iface r)) \<noteq> None" using sys_okD(5) [OF assms] same by simp
qed (auto simp: net_protocol_register_def platform_defs Let_def split: if_splits)

text \<open>A registration keeps the invariant and the tables of devices, interfaces and routes.\<close>

definition registered :: "'z tcp_scheme \<Rightarrow> 'z tcp_scheme \<Rightarrow> bool" where
  "registered s s' \<longleftrightarrow> (sys_ok s \<longrightarrow> sys_ok s') \<and> dev_tab s' = dev_tab s \<and> devices s' = devices s \<and> next_index s' = next_index s \<and>
     irqs s' = irqs s \<and> routes s' = routes s \<and> ip_ifaces s' = ip_ifaces s \<and> host_order s' = host_order s"

lemma registered_trans [trans]: "registered s s' \<Longrightarrow> registered s' s'' \<Longrightarrow> registered s s''"
  by (simp add: registered_def)

lemma registered_one:
  "registered s (snd (net_protocol_register type handler s))" "registered s (snd (ip_protocol_register ty h s))"
  "registered s (snd (net_timer_register iv th s))" "registered s (snd (net_event_subscribe eh s))"
  using sys_ok_protocol_register [of s type handler]
  by (simp_all add: registered_def net_protocol_register_def ip_protocol_register_def net_timer_register_def net_event_subscribe_def
      platform_defs Let_def)

lemma registered_init:
  "registered s (snd (intr_init s))" "registered s (snd (ip_init s))" "registered s (snd (icmp_init s))" "registered s (snd (arp_init s))"
  "registered s (snd (udp_init s))" "registered s (snd (tcp_init s))"
  using registered_one(1) [of s] registered_one(2) [of s] registered_trans [OF registered_one(1) registered_one(3)]
    registered_trans [OF registered_one(2) registered_one(4)] registered_trans [OF registered_one(2) registered_one(3)]
    registered_trans [OF registered_trans [OF registered_one(2) registered_one(3)] registered_one(4)]
  by (auto simp: intr_init_def ip_init_def icmp_init_def arp_init_def udp_init_def tcp_init_def split_def Let_def registered_def [of s "s\<lparr>sigmask := m, started := b\<rparr>" for m b])

lemma net_init_ok: "registered s (snd (net_init s))"
proof -
  note step = registered_trans [OF _ registered_init(2)] registered_trans [OF _ registered_init(3)] registered_trans [OF _ registered_init(4)]
    registered_trans [OF _ registered_init(5)] registered_trans [OF _ registered_init(6)]
  note 1 = registered_init(1) [of s]
  note 2 = step(1) [OF 1]
  note 3 = step(2) [OF 2]
  note 4 = step(3) [OF 3]
  note 5 = step(4) [OF 4]
  note 6 = step(5) [OF 5]
  show ?thesis using 1 2 3 4 5 6 by (simp add: net_init_def split_def Let_def)
qed

subsection \<open>Devices and interfaces\<close>

text \<open>A device was added, with an interrupt request of its driver unless that failed.\<close>

definition device_added :: "dev_id \<Rightarrow> net_device \<Rightarrow> isr \<Rightarrow> 'z tcp_scheme \<Rightarrow> 'z tcp_scheme \<Rightarrow> bool" where
  "device_added dev d h s s' \<longleftrightarrow> dev_tab s' = (dev_tab s)(dev \<mapsto> d) \<and> dev = next_index s \<and> next_index s' = Suc dev \<and>
     devices s' = dev # devices s \<and> (\<forall>e \<in> set (irqs s'). e \<in> set (irqs s) \<or> irq_dev e = dev \<and> irq_handler e = h) \<and>
     protocols s' = protocols s \<and> events s' = events s \<and> host_order s' = host_order s \<and> net.more s' = net.more s"

lemma net_more_fields:
  "net.more s' = net.more s \<Longrightarrow> caches s' = caches s \<and> routes s' = routes s \<and> udp_pcbs s' = udp_pcbs s \<and> tcp_pcbs s' = tcp_pcbs s \<and>
     ip_ifaces s' = ip_ifaces s \<and> ip_protocols s' = ip_protocols s"
  for s :: "'z tcp_scheme"
  by (cases s; cases s') simp

lemma sys_ok_device_added:
  assumes "sys_ok s" "device_added dev d h s s'" "dev_ok dev d" "drv_ok d" "40 < unat (mtu d)" "unat (dev_alen d) \<le> 16"
    and "h = Loopback_isr \<longrightarrow> ops d = Loopback_ops" "h = Ether_tap_isr \<longrightarrow> ops d = Ether_tap_ops"
  shows "sys_ok s'"
proof -
  note more = net_more_fields [of s' s] and new = assms(2) [unfolded device_added_def]
  have lt: "dev_tab s i = Some e \<Longrightarrow> i < dev" for i e using net_okD(2) [OF sys_okD(1) [OF assms(1)], of i e] new by simp
  show ?thesis
  proof (rule sys_ok_tables [OF assms(1)])
    have "dev \<notin> set (devices s)" using net_okD(3) [OF sys_okD(1) [OF assms(1)], of dev] lt [of dev] by auto
    moreover have "i < Suc dev" if "dev_tab s i = Some e" for i e using lt [OF that] by simp
    ultimately show "net_ok s'" using sys_okD(1) [OF assms(1)] new assms(3) by (auto simp: net_ok_def split: if_splits)
    show "drvs_ok s'" using sys_okD(2) [OF assms(1)] new assms(4) by (auto simp: drvs_ok_def)
    show "irq_ok s'"
      unfolding irq_ok_def
    proof
      fix e assume "e \<in> set (irqs s')"
      then consider "e \<in> set (irqs s)" | "irq_dev e = dev" "irq_handler e = h" using new by auto
      then show "\<exists>d. dev_tab s' (irq_dev e) = Some d \<and>
          (irq_handler e = Loopback_isr \<longrightarrow> ops d = Loopback_ops) \<and> (irq_handler e = Ether_tap_isr \<longrightarrow> ops d = Ether_tap_ops)"
      proof cases
        case 1
        then obtain d0 where d0: "dev_tab s (irq_dev e) = Some d0"
          "irq_handler e = Loopback_isr \<longrightarrow> ops d0 = Loopback_ops" "irq_handler e = Ether_tap_isr \<longrightarrow> ops d0 = Ether_tap_ops"
          using sys_okD(3) [OF assms(1)] by (auto simp: irq_ok_def)
        then show ?thesis using lt [OF d0(1)] new by auto
      next
        case 2
        then show ?thesis using new assms(7,8) by simp
      qed
    qed
  qed (use new more assms(5,6) sys_okD(4,5) [OF assms(1)] in \<open>auto split: if_splits\<close>)
qed

lemma loopback_init_added:
  assumes "loopback_init s = (Some dev, s')"
  shows "\<exists>d. device_added dev d Loopback_isr s s' \<and> dev_ok dev d \<and> drv_ok d \<and> ops d = Loopback_ops \<and> mtu d = LOOPBACK_MTU \<and>
    dev_alen d = 0 \<and> ifaces d = [] \<and> dev_flags d = NET_DEVICE_FLAG_LOOPBACK"
proof -
  let ?d = "zero_device\<lparr>dev_type := NET_DEVICE_TYPE_LOOPBACK, mtu := LOOPBACK_MTU, dev_flags := NET_DEVICE_FLAG_LOOPBACK,
    dev_hlen := 0, dev_alen := 0, ops := Loopback_ops, dev_index := dev, dev_name := take 15 (''net'' @ fmt_d dev),
    priv := Loopback \<lparr>lo_irq = LOOPBACK_IRQ, lo_queue = []\<rparr>\<rparr>"
  have "device_added dev ?d Loopback_isr s s'"
    using assms
    by (auto simp: device_added_def loopback_init_def net_device_alloc_def net_device_register_def intr_request_irq_def platform_defs Let_def
        split: if_splits)
  then show ?thesis by (intro exI [of _ ?d]) (simp add: dev_ok_def drv_ok_def zero_device_def)
qed

lemma ether_tap_init_added:
  assumes "ether_tap_init name a s = (Some dev, s')"
  shows "\<exists>d. device_added dev d Ether_tap_isr s s' \<and> dev_ok dev d \<and> drv_ok d \<and> ops d = Ether_tap_ops \<and> mtu d = 1500 \<and>
    dev_alen d = 6 \<and> ifaces d = [] \<and> dev_flags d = NET_DEVICE_FLAG_BROADCAST OR NET_DEVICE_FLAG_NEED_ARP"
proof -
  obtain q n where pton: "(case a of None \<Rightarrow> (0, []) | Some p \<Rightarrow> ether_addr_pton p) = (q, n)" by fastforce
  then have n: "length n \<le> 6" by (cases a) (auto dest: length_ether_addr_pton)
  let ?z = "ether_setup_helper zero_device"
  let ?d = "?z\<lparr>dev_addr := n @ drop (length n) (dev_addr ?z), ops := Ether_tap_ops,
    priv := Ether_tap \<lparr>tap_name = take 15 name, tap_fd = -1, tap_irq = ETHER_TAP_IRQ\<rparr>, dev_index := dev, dev_name := take 15 (''net'' @ fmt_d dev)\<rparr>"
  have "device_added dev ?d Ether_tap_isr s s'"
    using assms pton
    by (auto simp: device_added_def ether_tap_init_def net_device_alloc_def net_device_register_def intr_request_irq_def platform_defs Let_def
        split: if_splits)
  then show ?thesis
    using n by (intro exI [of _ ?d]) (simp add: dev_ok_def drv_ok_def zero_device_def ether_setup_helper_def ETHER_ADDR_BROADCAST_def)
qed

text \<open>The interface that an address and a netmask in text describe.\<close>

definition iface_of :: "host \<Rightarrow> dev_id \<Rightarrow> string \<Rightarrow> string \<Rightarrow> ip_iface" where
  "iface_of h dev a nm =
     (let u = snd (ip_addr_pton h a 0); m = snd (ip_addr_pton h nm 0)
      in \<lparr>family = NET_IFACE_FAMILY_IP, iface_dev = dev, unicast = u, netmask = m, broadcast = (u AND m) OR (if m = 0 then 1 else 0)\<rparr>)"

definition route_of :: "ip_iface \<Rightarrow> ip_route" where
  "route_of f = \<lparr>network = unicast f AND netmask f, route_netmask = netmask f, nexthop = IP_ADDR_ANY, route_iface = f\<rparr>"

text \<open>An interface was added to a device, together with the route to its network.\<close>

definition iface_added :: "dev_id \<Rightarrow> ip_iface \<Rightarrow> 'z tcp_scheme \<Rightarrow> 'z tcp_scheme \<Rightarrow> bool" where
  "iface_added dev f s s' \<longleftrightarrow> (\<exists>d al. dev_tab s dev = Some d \<and>
     s' = s\<lparr>allocs := al, dev_tab := (dev_tab s)(dev \<mapsto> d\<lparr>ifaces := f # ifaces d\<rparr>), routes := route_of f # routes s, ip_ifaces := f # ip_ifaces s\<rparr>)"

lemma sys_ok_add_iface:
  assumes "sys_ok s" "dev_tab s dev = Some d" "iface_dev f = dev" "\<forall>g \<in> set (ifaces d). family g \<noteq> family f"
  shows "sys_ok (s\<lparr>dev_tab := (dev_tab s)(dev \<mapsto> d\<lparr>ifaces := f # ifaces d\<rparr>)\<rparr>)"
proof (rule sys_ok_device [OF assms(1,2)])
  show "dev_ok dev (d\<lparr>ifaces := f # ifaces d\<rparr>)"
  proof -
    have "dev_ok dev d" using sys_okD(1) [OF assms(1)] assms(2) by (rule net_okD(1))
    moreover have "family f \<notin> family ` set (ifaces d)" using assms(4) by force
    ultimately show ?thesis using assms(3) by (simp add: dev_ok_def)
  qed
  show "drv_ok (d\<lparr>ifaces := f # ifaces d\<rparr>)"
    using drvs_okD [OF sys_okD(2) [OF assms(1)] assms(2)] by (cases "ops d") (simp_all add: drv_ok_def)
qed simp_all

lemma sys_ok_add_route:
  assumes "sys_ok s" "dev_tab s (iface_dev (route_iface r)) \<noteq> None"
  shows "sys_ok (s\<lparr>routes := r # routes s\<rparr>)"
proof (rule sys_ok_tables [OF assms(1)])
  show "net_ok (s\<lparr>routes := r # routes s\<rparr>)" using sys_okD(1) [OF assms(1)] by (simp add: net_ok_def)
  show "drvs_ok (s\<lparr>routes := r # routes s\<rparr>)" using sys_okD(2) [OF assms(1)] by (simp add: drvs_ok_def)
  show "irq_ok (s\<lparr>routes := r # routes s\<rparr>)" using sys_okD(3) [OF assms(1)] by (simp add: irq_ok_def)
qed (use assms(2) sys_okD(4,5) [OF assms(1)] in auto)

lemma setup_iface_ok:
  assumes "sys_ok s" "dev_tab s dev = Some d" "ifaces d = []" "fst (ip_addr_pton (host_order s) a 0) = 0" "fst (ip_addr_pton (host_order s) nm 0) = 0"
  shows "\<exists>f s'. setup_iface dev a nm s = Some (f, s') \<and> sys_ok s' \<and>
    (f \<noteq> None \<longrightarrow> f = Some (iface_of (host_order s) dev a nm) \<and> iface_added dev (iface_of (host_order s) dev a nm) s s')"
proof -
  let ?f = "iface_of (host_order s) dev a nm" and ?al = "advance (allocs s)"
  let ?d = "d\<lparr>ifaces := [?f]\<rparr>"
  let ?s1 = "s\<lparr>allocs := ?al, dev_tab := (dev_tab s)(dev \<mapsto> ?d)\<rparr>"
  let ?s2 = "?s1\<lparr>allocs := advance ?al\<rparr>"
  let ?s3 = "?s2\<lparr>routes := route_of ?f # routes ?s2\<rparr>"
  obtain u m where u: "ip_addr_pton (host_order s) a 0 = (0, u)" and m: "ip_addr_pton (host_order s) nm 0 = (0, m)"
    using assms(4,5) by (cases "ip_addr_pton (host_order s) a 0"; cases "ip_addr_pton (host_order s) nm 0") auto
  have f: "?f = \<lparr>family = NET_IFACE_FAMILY_IP, iface_dev = dev, unicast = u, netmask = m, broadcast = (u AND m) OR (if m = 0 then 1 else 0)\<rparr>"
    by (simp add: iface_of_def u m)
  have "sys_ok ?s1"
    using sys_ok_add_iface [of "s\<lparr>allocs := ?al\<rparr>" dev d ?f] assms by (simp add: f)
  then have ok2: "sys_ok ?s2" by (simp only: sys_ok_feeds)
  have "dev_tab ?s2 (iface_dev (route_iface (route_of ?f))) \<noteq> None" by (simp add: route_of_def f)
  from sys_ok_add_route [OF ok2 this] have ok3: "sys_ok (?s3\<lparr>ip_ifaces := ?f # ip_ifaces s\<rparr>)" by (simp only: sys_ok_feeds)
  have eq: "setup_iface dev a nm s =
      (if \<not> allocs s 0 then Some (None, s\<lparr>allocs := ?al\<rparr>)
       else if \<not> allocs s 1 then Some (None, ?s2)
       else Some (Some ?f, ?s3\<lparr>ip_ifaces := ?f # ip_ifaces s\<rparr>))"
    using assms(2,3) u m
    by (simp add: setup_iface_def ip_iface_alloc_def ip_iface_register_def net_device_add_iface_def ip_route_add_def platform_defs Let_def
        advance_def f route_of_def)
  have "iface_added dev ?f s (?s3\<lparr>ip_ifaces := ?f # ip_ifaces s\<rparr>)"
    unfolding iface_added_def using assms(2,3) by (intro exI [of _ d] exI [of _ "advance ?al"]) simp
  moreover have "sys_ok (s\<lparr>allocs := ?al\<rparr>)" using assms(1) by simp
  ultimately show ?thesis unfolding eq using ok2 ok3 by (cases "allocs s 0"; cases "allocs s 1") simp_all
qed

subsection \<open>Opening the devices\<close>

lemma tap_configure_frame: "\<exists>r sc. tap_configure n s = (r, s\<lparr>syscalls := sc\<rparr>)"
proof (induction n arbitrary: s)
  case 0
  show ?case by (intro exI [of _ 0] exI [of _ "syscalls s"]) simp
next
  case (Suc n)
  from Suc [of "s\<lparr>syscalls := advance (syscalls s)\<rparr>"] show ?case by (auto simp: platform_defs)
qed

text \<open>What opening a device may change of it.\<close>

definition dev_reopened :: "net_device \<Rightarrow> net_device \<Rightarrow> bool" where
  "dev_reopened d d' \<longleftrightarrow> (\<exists>a fl p. d' = d\<lparr>dev_addr := a, dev_flags := fl, priv := p\<rparr> \<and> length a = length (dev_addr d) \<and>
     (p = priv d \<or> ops d = Ether_tap_ops \<and> (\<exists>tap. p = Ether_tap tap)))"

lemma dev_reopened_ok:
  assumes "dev_reopened d d'"
  shows "dev_ok i d' = dev_ok i d" "drv_ok d \<Longrightarrow> drv_ok d'" "ops d' = ops d" "mtu d' = mtu d" "dev_alen d' = dev_alen d" "ifaces d' = ifaces d"
  using assms by (cases "ops d"; auto simp: dev_reopened_def dev_ok_def drv_ok_def)+

lemma dev_reopened_updates:
  "dev_reopened d d"
  "dev_reopened d d' \<Longrightarrow> dev_reopened d (d'\<lparr>dev_flags := fl\<rparr>)"
  "dev_reopened d d' \<Longrightarrow> length a = length (dev_addr d) \<Longrightarrow> dev_reopened d (d'\<lparr>dev_addr := a\<rparr>)"
  "ops d = Ether_tap_ops \<Longrightarrow> dev_reopened d (d\<lparr>priv := Ether_tap tap\<rparr>)"
proof -
  show "dev_reopened d d"
    unfolding dev_reopened_def by (intro exI [of _ "dev_addr d"] exI [of _ "dev_flags d"] exI [of _ "priv d"]) simp
  show "ops d = Ether_tap_ops \<Longrightarrow> dev_reopened d (d\<lparr>priv := Ether_tap tap\<rparr>)"
    unfolding dev_reopened_def by (intro exI [of _ "dev_addr d"] exI [of _ "dev_flags d"] exI [of _ "Ether_tap tap"]) simp
  assume "dev_reopened d d'"
  then obtain a fl' p where d': "d' = d\<lparr>dev_addr := a, dev_flags := fl', priv := p\<rparr>" "length a = length (dev_addr d)"
    "p = priv d \<or> ops d = Ether_tap_ops \<and> (\<exists>tap. p = Ether_tap tap)" by (auto simp: dev_reopened_def)
  show "dev_reopened d (d'\<lparr>dev_flags := fl\<rparr>)"
    unfolding dev_reopened_def using d' by (intro exI [of _ a] exI [of _ fl] exI [of _ p]) simp
  show "length b = length (dev_addr d) \<Longrightarrow> dev_reopened d (d'\<lparr>dev_addr := b\<rparr>)" for b
    unfolding dev_reopened_def using d' by (intro exI [of _ b] exI [of _ fl'] exI [of _ p]) simp
qed

definition opened :: "dev_id \<Rightarrow> net_device \<Rightarrow> 'z net_scheme \<Rightarrow> 'z net_scheme \<Rightarrow> bool" where
  "opened dev d s s' \<longleftrightarrow> (\<exists>d'. dev_tab s' = (dev_tab s)(dev \<mapsto> d') \<and> dev_reopened d d') \<and>
     s' = s\<lparr>syscalls := syscalls s', dev_tab := dev_tab s', hwaddrs := hwaddrs s'\<rparr>"

lemma openedI:
  "dev_tab s' = (dev_tab s)(dev \<mapsto> d') \<Longrightarrow> dev_reopened d d' \<Longrightarrow> s' = s\<lparr>syscalls := syscalls s', dev_tab := dev_tab s', hwaddrs := hwaddrs s'\<rparr> \<Longrightarrow>
   opened dev d s s'"
  by (auto simp: opened_def)

lemma ether_tap_open_frame:
  assumes "dev_tab s dev = Some d" "drv_ok d" "ops d = Ether_tap_ops"
  shows "\<exists>r s'. ether_tap_open dev s = Some (r, s') \<and> opened dev d s s'"
proof -
  obtain tap where tap: "priv d = Ether_tap tap" "length (dev_addr d) = 16" using assms by (auto simp: drv_ok_def)
  let ?fd = "syscalls s 0"
  let ?d1 = "d\<lparr>priv := Ether_tap (tap\<lparr>tap_fd := ?fd\<rparr>)\<rparr>"
  let ?s1 = "s\<lparr>syscalls := advance (syscalls s), dev_tab := (dev_tab s)(dev \<mapsto> ?d1)\<rparr>"
  note re1 = dev_reopened_updates(4) [OF assms(3), of "tap\<lparr>tap_fd := ?fd\<rparr>"]
  obtain r2 sc2 where cf: "tap_configure 4 ?s1 = (r2, ?s1\<lparr>syscalls := sc2\<rparr>)" using tap_configure_frame by blast
  let ?s2 = "?s1\<lparr>syscalls := sc2\<rparr>"
  let ?hw = "take 6 (take 14 (hwaddrs s 0 @ replicate 14 0))"
  let ?d3 = "?d1\<lparr>dev_addr := ?hw @ drop 6 (dev_addr d)\<rparr>"
  let ?s3 = "?s2\<lparr>syscalls := advance (advance sc2), hwaddrs := advance (hwaddrs s), dev_tab := (dev_tab s)(dev \<mapsto> ?d3)\<rparr>"
  have hw: "length ?hw = 6" by simp
  have re3: "dev_reopened d ?d3" using tap(2) hw by (intro dev_reopened_updates(3) [OF re1]) simp
  have rd: "rd_bytes (take 14 (hwaddrs s 0 @ replicate 14 0)) 0 6 = Some ?hw" by (simp add: rd_bytes_def)
  have wr: "wr_bytes (dev_addr d) 0 ?hw = Some (?hw @ drop 6 (dev_addr d))" using tap(2) hw by (simp add: wr_bytes_0)
  have addr: "ether_tap_addr dev ?s2 =
      (if sc2 0 = -1 then Some (-1, ?s2\<lparr>syscalls := advance sc2\<rparr>)
       else if sc2 1 = -1 then Some (-1, ?s2\<lparr>syscalls := advance (advance sc2)\<rparr>) else Some (0, ?s3))"
    using rd wr by (simp add: ether_tap_addr_def ether_tap_priv_def platform_defs Let_def advance_def)
  have eq: "ether_tap_open dev s =
      (if ?fd = -1 then Some (-1, ?s1) else if r2 = -1 then Some (-1, ?s2)
       else if take 6 (dev_addr d) = ETHER_ADDR_ANY
       then (case ether_tap_addr dev ?s2 of None \<Rightarrow> None | Some (r, s) \<Rightarrow> if r = -1 then Some (-1, s) else Some (0, s))
       else Some (0, ?s2))"
    using tap assms(1) cf
    by (cases "ether_tap_addr dev ?s2") (simp_all add: ether_tap_open_def ether_tap_priv_def platform_defs Let_def split_def)
  define t1 where "t1 = ?s1"
  define t2 where "t2 = t1\<lparr>syscalls := sc2\<rparr>"
  define t2a where "t2a = t2\<lparr>syscalls := advance sc2\<rparr>"
  define t2b where "t2b = t2\<lparr>syscalls := advance (advance sc2)\<rparr>"
  define t3 where "t3 = t2b\<lparr>hwaddrs := advance (hwaddrs s), dev_tab := (dev_tab s)(dev \<mapsto> ?d3)\<rparr>"
  have t: "opened dev d s t1" "opened dev d s t2" "opened dev d s t2a" "opened dev d s t2b" "opened dev d s t3"
    unfolding t3_def t2b_def t2a_def t2_def t1_def by (rule openedI [OF _ re1] openedI [OF _ re3]; simp)+
  show ?thesis
    unfolding eq addr unfolding t1_def [symmetric] unfolding t2_def [symmetric] unfolding t2a_def [symmetric] t2b_def [symmetric] unfolding t3_def [symmetric]
    using t by simp
qed

lemma opened_sys_ok:
  assumes "sys_ok s" "dev_tab s dev = Some d" "opened dev d s s'"
  shows "sys_ok s'"
proof -
  obtain d' where d': "dev_tab s' = (dev_tab s)(dev \<mapsto> d')" "dev_reopened d d'" using assms(3) by (auto simp: opened_def)
  note re = dev_reopened_ok [OF d'(2)]
  have "sys_ok (s\<lparr>dev_tab := (dev_tab s)(dev \<mapsto> d')\<rparr>)"
  proof (rule sys_ok_device [OF assms(1,2)])
    show "dev_ok dev d'" using net_okD(1) [OF sys_okD(1) [OF assms(1)] assms(2)] re(1) by simp
    show "drv_ok d'" using drvs_okD [OF sys_okD(2) [OF assms(1)] assms(2)] re(2) by simp
  qed (use re in simp_all)
  moreover have "sys_ok s' = sys_ok (s\<lparr>dev_tab := (dev_tab s)(dev \<mapsto> d')\<rparr>)"
    using assms(3) d'(1) unfolding opened_def by (cases s; cases s') (intro sys_ok_cong; simp)
  ultimately show ?thesis by simp
qed

lemma opened_flags:
  assumes "opened dev d s s'" "dev_tab s' dev = Some d'"
  shows "opened dev d s (s'\<lparr>dev_tab := (dev_tab s')(dev \<mapsto> d'\<lparr>dev_flags := fl\<rparr>)\<rparr>)"
proof -
  have "dev_reopened d d'" "dev_tab s' = (dev_tab s)(dev \<mapsto> d')" using assms by (auto simp: opened_def)
  moreover have "s' = s\<lparr>syscalls := syscalls s', dev_tab := dev_tab s', hwaddrs := hwaddrs s'\<rparr>" using assms(1) by (simp add: opened_def)
  then have "s'\<lparr>dev_tab := t\<rparr> = s\<lparr>syscalls := syscalls s', dev_tab := t, hwaddrs := hwaddrs s'\<rparr>" for t by (cases s; cases s') simp
  ultimately show ?thesis by (intro openedI [OF _ dev_reopened_updates(2)]) simp_all
qed

lemma net_device_open_ok:
  assumes "sys_ok s" "dev_tab s dev = Some d"
  shows "\<exists>r s'. net_device_open dev s = Some (r, s') \<and> opened dev d s s' \<and>
    (\<forall>d'. dev_tab s' dev = Some d' \<longrightarrow> ops d \<noteq> Ether_tap_ops \<or> r = 0 \<longrightarrow> NET_DEVICE_IS_UP d')"
proof -
  have refl: "opened dev d s s" using assms(2) by (intro openedI [OF _ dev_reopened_updates(1)]) auto
  have up: "NET_DEVICE_IS_UP (e\<lparr>dev_flags := fl OR NET_DEVICE_FLAG_UP\<rparr>)" for e fl
    by (simp add: NET_DEVICE_IS_UP_def word_ao_absorbs)
  show ?thesis
  proof (cases "NET_DEVICE_IS_UP d")
    case True
    then show ?thesis using assms(2) refl by (simp add: net_device_open_def)
  next
    case False
    show ?thesis
    proof (cases "ops d = Ether_tap_ops")
      case True
      obtain r s1 where s1: "ether_tap_open dev s = Some (r, s1)" "opened dev d s s1"
        using ether_tap_open_frame [OF assms(2) drvs_okD [OF sys_okD(2) [OF assms(1)] assms(2)] True] by blast
      then obtain d1 where d1: "dev_tab s1 dev = Some d1" by (auto simp: opened_def)
      show ?thesis
        using assms(2) False True s1 d1 opened_flags [OF s1(2) d1] up by (auto simp: net_device_open_def ops_open_def set_flags_def)
    next
      case other: False
      then show ?thesis
        using assms(2) False opened_flags [OF refl assms(2)] up
        by (cases "ops d") (simp_all add: net_device_open_def ops_open_def set_flags_def)
    qed
  qed
qed

text \<open>What opening all devices leaves: the invariant, the tables, and the devices as they were but for what \<^verbatim>\<open>open\<close> changes.\<close>

definition devices_opened :: "'z tcp_scheme \<Rightarrow> 'z tcp_scheme \<Rightarrow> bool" where
  "devices_opened s s' \<longleftrightarrow> s' = s\<lparr>syscalls := syscalls s', started := started s', dev_tab := dev_tab s', hwaddrs := hwaddrs s'\<rparr> \<and>
     (\<forall>i. case dev_tab s i of None \<Rightarrow> dev_tab s' i = None
          | Some d \<Rightarrow> \<exists>d'. dev_tab s' i = Some d' \<and> ifaces d' = ifaces d \<and> ops d' = ops d)"

lemma devices_opened_refl: "devices_opened s s"
  by (auto simp: devices_opened_def split: option.split)

lemma devices_opened_trans: "devices_opened s s' \<Longrightarrow> devices_opened s' s'' \<Longrightarrow> devices_opened s s''"
proof -
  assume a: "devices_opened s s'" and b: "devices_opened s' s''"
  have "s'' = s\<lparr>syscalls := syscalls s'', started := started s'', dev_tab := dev_tab s'', hwaddrs := hwaddrs s''\<rparr>"
    using a b unfolding devices_opened_def by (cases s; cases s'; cases s'') simp
  moreover have "case dev_tab s i of None \<Rightarrow> dev_tab s'' i = None
      | Some d \<Rightarrow> \<exists>d'. dev_tab s'' i = Some d' \<and> ifaces d' = ifaces d \<and> ops d' = ops d" for i
    using a [unfolded devices_opened_def, THEN conjunct2, rule_format, of i] b [unfolded devices_opened_def, THEN conjunct2, rule_format, of i]
    by (cases "dev_tab s i") auto
  ultimately show ?thesis unfolding devices_opened_def by blast
qed

lemma devices_opened_one:
  assumes "opened dev d s s'" "dev_tab s dev = Some d"
  shows "devices_opened s s'"
proof -
  obtain d' where d': "dev_tab s' = (dev_tab s)(dev \<mapsto> d')" "dev_reopened d d'" using assms(1) by (auto simp: opened_def)
  then show ?thesis
    using assms dev_reopened_ok(3,6) [OF d'(2)] unfolding opened_def devices_opened_def by (cases s; cases s') (auto split: option.split)
qed

lemma open_all_ok:
  assumes "sys_ok s" "\<forall>i \<in> set is. dev_tab s i \<noteq> None"
  shows "\<exists>s'. open_all is s = Some s' \<and> sys_ok s' \<and> devices_opened s s'"
  using assms
proof (induction "is" arbitrary: s)
  case Nil
  then show ?case by (simp add: devices_opened_refl)
next
  case (Cons i "is")
  then obtain d where d: "dev_tab s i = Some d" by auto
  obtain r s1 where s1: "net_device_open i s = Some (r, s1)" "opened i d s s1"
    using net_device_open_ok [OF Cons.prems(1) d] by blast
  have "sys_ok s1" using opened_sys_ok [OF Cons.prems(1) d s1(2)] .
  moreover have "\<forall>j \<in> set is. dev_tab s1 j \<noteq> None" using Cons.prems(2) s1(2) by (auto simp: opened_def)
  ultimately obtain s' where "open_all is s1 = Some s'" "sys_ok s'" "devices_opened s1 s'" using Cons.IH by blast
  then show ?case using s1(1) devices_opened_trans [OF devices_opened_one [OF s1(2) d]] by simp
qed

lemma devices_opened_events: "devices_opened s s' \<Longrightarrow> events s' = events s"
  unfolding devices_opened_def by (cases s; cases s') simp

lemma net_run_ok:
  assumes "sys_ok s"
  shows "\<exists>r s'. net_run s = Some (r, s') \<and> sys_ok s' \<and> devices_opened s s'"
proof -
  obtain r s1 where run: "intr_run s = (r, s1)" by fastforce
  then have s1: "sys_ok s1" "devices_opened s s1" "devices s1 = devices s" "dev_tab s1 = dev_tab s"
    using assms by (auto simp: intr_run_def platform_defs Let_def devices_opened_def split: if_splits option.split)
  have "\<forall>i \<in> set (devices s1). dev_tab s1 i \<noteq> None" using net_okD(3) [OF sys_okD(1) [OF s1(1)]] by blast
  from open_all_ok [OF s1(1) this] obtain s' where "open_all (devices s1) s1 = Some s'" "sys_ok s'" "devices_opened s1 s'" by blast
  then show ?thesis using run s1 devices_opened_trans [OF s1(2)] by (auto simp: net_run_def)
qed

section \<open>A successful start\<close>

lemma setup_texts:
  "ip_addr_pton h LOOPBACK_IP_ADDR 0 = (0, load32 h 127 0 0 1)" "ip_addr_pton h LOOPBACK_NETMASK 0 = (0, load32 h 255 0 0 0)"
  "ip_addr_pton h ETHER_TAP_IP_ADDR 0 = (0, load32 h 192 168 70 2)" "ip_addr_pton h ETHER_TAP_NETMASK 0 = (0, load32 h 255 255 255 0)"
  "ip_addr_pton h DEFAULT_GATEWAY 0 = (0, load32 h 192 168 70 1)"
proof -
  have t: "LOOPBACK_IP_ADDR = dotted 127 0 0 1" "LOOPBACK_NETMASK = dotted 255 0 0 0" "ETHER_TAP_IP_ADDR = dotted 192 168 70 2"
    "ETHER_TAP_NETMASK = dotted 255 255 255 0" "DEFAULT_GATEWAY = dotted 192 168 70 1"
    by (simp_all add: LOOPBACK_IP_ADDR_def LOOPBACK_NETMASK_def ETHER_TAP_IP_ADDR_def ETHER_TAP_NETMASK_def DEFAULT_GATEWAY_def
        dotted_def fmt_d.simps digit_char_def)
  show "ip_addr_pton h LOOPBACK_IP_ADDR 0 = (0, load32 h 127 0 0 1)" "ip_addr_pton h LOOPBACK_NETMASK 0 = (0, load32 h 255 0 0 0)"
    "ip_addr_pton h ETHER_TAP_IP_ADDR 0 = (0, load32 h 192 168 70 2)" "ip_addr_pton h ETHER_TAP_NETMASK 0 = (0, load32 h 255 255 255 0)"
    "ip_addr_pton h DEFAULT_GATEWAY 0 = (0, load32 h 192 168 70 1)"
    by (simp_all only: t ip_addr_pton_dotted)
qed

text \<open>The routes after the start: the default route, and the networks of the two interfaces, newest first.\<close>

definition setup_routes :: "host \<Rightarrow> ip_route list" where
  "setup_routes h =
     (let lo = iface_of h 0 LOOPBACK_IP_ADDR LOOPBACK_NETMASK; tap = iface_of h 1 ETHER_TAP_IP_ADDR ETHER_TAP_NETMASK
      in [\<lparr>network = IP_ADDR_ANY, route_netmask = IP_ADDR_ANY, nexthop = load32 h 192 168 70 1, route_iface = tap\<rparr>, route_of tap, route_of lo])"

lemma default_gateway_ok:
  assumes "sys_ok s" "dev_tab s (iface_dev f) \<noteq> None"
  shows "\<exists>r s'. ip_route_set_default_gateway f DEFAULT_GATEWAY s = (r, s') \<and> sys_ok s' \<and> dev_tab s' = dev_tab s \<and> devices s' = devices s \<and>
    host_order s' = host_order s \<and> events s' = events s \<and>
    (r \<noteq> -1 \<longrightarrow> routes s' = \<lparr>network = IP_ADDR_ANY, route_netmask = IP_ADDR_ANY, nexthop = load32 (host_order s) 192 168 70 1, route_iface = f\<rparr> # routes s)"
proof -
  let ?s = "s\<lparr>allocs := advance (allocs s)\<rparr>"
  let ?r = "\<lparr>network = IP_ADDR_ANY, route_netmask = IP_ADDR_ANY, nexthop = load32 (host_order s) 192 168 70 1, route_iface = f\<rparr>"
  have "sys_ok ?s" using assms(1) by simp
  moreover from this have "sys_ok (?s\<lparr>routes := ?r # routes ?s\<rparr>)" using assms(2) by (intro sys_ok_add_route) simp_all
  ultimately show ?thesis
    by (simp add: ip_route_set_default_gateway_def ip_route_add_def setup_texts platform_defs Let_def)
qed

lemma setup_first_device:
  assumes "sys_ok s" "next_index s = 0" "devices s = []" "routes s = []" "loopback_init s = (Some dev, s1)"
  defines "f \<equiv> iface_of (host_order s) 0 LOOPBACK_IP_ADDR LOOPBACK_NETMASK"
  shows "\<exists>g s2. setup_iface dev LOOPBACK_IP_ADDR LOOPBACK_NETMASK s1 = Some (g, s2) \<and> sys_ok s2 \<and>
    (g \<noteq> None \<longrightarrow> next_index s2 = 1 \<and> devices s2 = [0] \<and> host_order s2 = host_order s \<and> events s2 = events s \<and> routes s2 = [route_of f] \<and>
       (\<exists>d. dev_tab s2 0 = Some d \<and> ops d = Loopback_ops \<and> ifaces d = [f]))"
proof -
  obtain d where d: "device_added dev d Loopback_isr s s1" "dev_ok dev d" "drv_ok d" "ops d = Loopback_ops" "mtu d = LOOPBACK_MTU"
    "dev_alen d = 0" "ifaces d = []" using loopback_init_added [OF assms(5)] by blast
  note new = d(1) [unfolded device_added_def]
  have s1: "sys_ok s1" using sys_ok_device_added [OF assms(1) d(1-3)] d(4-6) by (simp add: LOOPBACK_MTU_def)
  have "dev_tab s1 dev = Some d" using new by simp
  from setup_iface_ok [OF s1 this d(7), of LOOPBACK_IP_ADDR LOOPBACK_NETMASK]
  obtain g s2 where s2: "setup_iface dev LOOPBACK_IP_ADDR LOOPBACK_NETMASK s1 = Some (g, s2)" "sys_ok s2"
    "g \<noteq> None \<longrightarrow> iface_added dev (iface_of (host_order s1) dev LOOPBACK_IP_ADDR LOOPBACK_NETMASK) s1 s2"
    by (auto simp: setup_texts)
  then show ?thesis
    using new net_more_fields [of s1 s] assms(2-4) d(4,7) by (auto simp: f_def iface_added_def)
qed

lemma setup_tap_device:
  assumes "sys_ok s" "next_index s = n" "ether_tap_init nm a s = (Some dev, s1)"
  defines "f \<equiv> iface_of (host_order s) n ETHER_TAP_IP_ADDR ETHER_TAP_NETMASK"
  shows "\<exists>g s2. setup_iface dev ETHER_TAP_IP_ADDR ETHER_TAP_NETMASK s1 = Some (g, s2) \<and> sys_ok s2 \<and>
    (g \<noteq> None \<longrightarrow> g = Some f \<and> devices s2 = n # devices s \<and> host_order s2 = host_order s \<and> events s2 = events s \<and> routes s2 = route_of f # routes s \<and>
       (\<exists>d. dev_tab s2 n = Some d \<and> ops d = Ether_tap_ops \<and> ifaces d = [f]) \<and> (\<forall>i. i \<noteq> n \<longrightarrow> dev_tab s2 i = dev_tab s i))"
proof -
  obtain d where d: "device_added dev d Ether_tap_isr s s1" "dev_ok dev d" "drv_ok d" "ops d = Ether_tap_ops" "mtu d = 1500"
    "dev_alen d = 6" "ifaces d = []" using ether_tap_init_added [OF assms(3)] by blast
  note new = d(1) [unfolded device_added_def]
  have s1: "sys_ok s1" using sys_ok_device_added [OF assms(1) d(1-3)] d(4-6) by simp
  have "dev_tab s1 dev = Some d" using new by simp
  from setup_iface_ok [OF s1 this d(7), of ETHER_TAP_IP_ADDR ETHER_TAP_NETMASK]
  obtain g s2 where s2: "setup_iface dev ETHER_TAP_IP_ADDR ETHER_TAP_NETMASK s1 = Some (g, s2)" "sys_ok s2"
    "g \<noteq> None \<longrightarrow> g = Some (iface_of (host_order s1) dev ETHER_TAP_IP_ADDR ETHER_TAP_NETMASK) \<and>
       iface_added dev (iface_of (host_order s1) dev ETHER_TAP_IP_ADDR ETHER_TAP_NETMASK) s1 s2"
    by (auto simp: setup_texts)
  then show ?thesis
    using new net_more_fields [of s1 s] assms(2) d(4,7) by (auto simp: f_def iface_added_def)
qed

definition stack_up :: "'z tcp_scheme \<Rightarrow> bool" where
  "stack_up s \<longleftrightarrow> sys_ok s \<and> devices s = [1, 0] \<and> routes s = setup_routes (host_order s) \<and>
     (\<exists>lo tap. dev_tab s 0 = Some lo \<and> ops lo = Loopback_ops \<and> ifaces lo = [iface_of (host_order s) 0 LOOPBACK_IP_ADDR LOOPBACK_NETMASK] \<and>
        dev_tab s 1 = Some tap \<and> ops tap = Ether_tap_ops \<and> ifaces tap = [iface_of (host_order s) 1 ETHER_TAP_IP_ADDR ETHER_TAP_NETMASK])"

lemma stack_up_opened:
  assumes "stack_up s" "sys_ok s'" "devices_opened s s'"
  shows "stack_up s'"
proof -
  have same: "devices s' = devices s" "routes s' = routes s" "host_order s' = host_order s"
    using assms(3) unfolding devices_opened_def by (cases s; cases s'; simp)+
  have "\<exists>d'. dev_tab s' i = Some d' \<and> ifaces d' = ifaces d \<and> ops d' = ops d" if "dev_tab s i = Some d" for i d
    using assms(3) [unfolded devices_opened_def, THEN conjunct2, rule_format, of i] that by simp
  then show ?thesis using assms(1,2) same unfolding stack_up_def by metis
qed

lemma setup_devices:
  assumes "sys_ok s" "next_index s = 0" "devices s = []" "routes s = []" "loopback_init s = (Some dev, s1)"
    and "setup_iface dev LOOPBACK_IP_ADDR LOOPBACK_NETMASK s1 = Some (g, s2)" "g \<noteq> None"
    and "ether_tap_init ETHER_TAP_NAME (Some ETHER_TAP_HW_ADDR) s2 = (Some dev', s3)"
  shows "\<exists>f s4. setup_iface dev' ETHER_TAP_IP_ADDR ETHER_TAP_NETMASK s3 = Some (f, s4) \<and>
    (\<forall>f'. f = Some f' \<longrightarrow> (\<exists>r s5. ip_route_set_default_gateway f' DEFAULT_GATEWAY s4 = (r, s5) \<and> (r \<noteq> -1 \<longrightarrow> stack_up s5 \<and> events s5 = events s)))"
proof -
  from setup_first_device [OF assms(1-5)] assms(6,7)
  have s2: "sys_ok s2" "next_index s2 = 1" "devices s2 = [0]" "host_order s2 = host_order s" "events s2 = events s"
    "routes s2 = [route_of (iface_of (host_order s) 0 LOOPBACK_IP_ADDR LOOPBACK_NETMASK)]"
    "\<exists>d. dev_tab s2 0 = Some d \<and> ops d = Loopback_ops \<and> ifaces d = [iface_of (host_order s) 0 LOOPBACK_IP_ADDR LOOPBACK_NETMASK]"
    by auto
  let ?f = "iface_of (host_order s2) 1 ETHER_TAP_IP_ADDR ETHER_TAP_NETMASK"
  from setup_tap_device [OF s2(1,2) assms(8)]
  obtain f s4 where s4: "setup_iface dev' ETHER_TAP_IP_ADDR ETHER_TAP_NETMASK s3 = Some (f, s4)" "sys_ok s4"
    "f \<noteq> None \<longrightarrow> f = Some ?f \<and> devices s4 = 1 # devices s2 \<and> host_order s4 = host_order s2 \<and> events s4 = events s2 \<and> routes s4 = route_of ?f # routes s2 \<and>
       (\<exists>d. dev_tab s4 1 = Some d \<and> ops d = Ether_tap_ops \<and> ifaces d = [?f]) \<and> (\<forall>i. i \<noteq> 1 \<longrightarrow> dev_tab s4 i = dev_tab s2 i)"
    by blast
  have "\<exists>r s5. ip_route_set_default_gateway f' DEFAULT_GATEWAY s4 = (r, s5) \<and> (r \<noteq> -1 \<longrightarrow> stack_up s5 \<and> events s5 = events s)" if f': "f = Some f'" for f'
  proof -
    have f: "f' = ?f" using f' s4(3) by simp
    moreover have "iface_dev ?f = 1" by (simp add: iface_of_def Let_def)
    ultimately have tab: "dev_tab s4 (iface_dev f') \<noteq> None" using f' s4(3) by auto
    from default_gateway_ok [OF s4(2) tab] obtain r s5 where s5: "ip_route_set_default_gateway f' DEFAULT_GATEWAY s4 = (r, s5)" "sys_ok s5"
      "dev_tab s5 = dev_tab s4" "devices s5 = devices s4" "host_order s5 = host_order s4" "events s5 = events s4"
      "r \<noteq> -1 \<longrightarrow> routes s5 = \<lparr>network = IP_ADDR_ANY, route_netmask = IP_ADDR_ANY, nexthop = load32 (host_order s4) 192 168 70 1, route_iface = f'\<rparr> # routes s4"
      by blast
    then show ?thesis using s2 s4(3) f' f by (auto simp: stack_up_def setup_routes_def Let_def)
  qed
  with s4(1) show ?thesis by blast
qed

text \<open>With memory available and system calls that succeed, no step of the start fails.\<close>

definition resources :: "'z tcp_scheme \<Rightarrow> bool" where
  "resources s \<longleftrightarrow> (\<forall>n. allocs s n) \<and> (\<forall>n. syscalls s n = 0)"

text \<open>Both event handlers are subscribed; \<^verbatim>\<open>tcp_init\<close> does not notice when its subscription fails.\<close>

definition wired :: "'z tcp_scheme \<Rightarrow> bool" where
  "wired s \<longleftrightarrow> events s = [Tcp_event_handler, Udp_event_handler]"

lemma resources_net_init:
  assumes "process_start s" "resources s"
  shows "fst (net_init s) = 0 \<and> resources (snd (net_init s)) \<and> wired (snd (net_init s))"
  using assms
  by (simp add: wired_def resources_def process_start_def net_init_def intr_init_def ip_init_def icmp_init_def arp_init_def udp_init_def tcp_init_def
      net_protocol_register_def ip_protocol_register_def net_timer_register_def net_event_subscribe_def platform_defs advance_def)

lemma resources_device:
  assumes "resources s"
  shows "fst (loopback_init s) \<noteq> None \<and> resources (snd (loopback_init s))"
    and "fst (ether_tap_init nm (Some ETHER_TAP_HW_ADDR) s) \<noteq> None \<and> resources (snd (ether_tap_init nm (Some ETHER_TAP_HW_ADDR) s))"
proof -
  show "fst (loopback_init s) \<noteq> None \<and> resources (snd (loopback_init s))"
    using assms
    by (simp add: resources_def loopback_init_def net_device_alloc_def net_device_register_def intr_request_irq_def platform_defs Let_def advance_def)
  have hw: "ETHER_TAP_HW_ADDR = fmt_02x 0 @ CHR '':'' # fmt_02x 0 @ CHR '':'' # fmt_02x 0x5e @ CHR '':'' # fmt_02x 0 @ CHR '':'' #
      fmt_02x 0x53 @ CHR '':'' # fmt_02x 1"
    by (simp add: ETHER_TAP_HW_ADDR_def fmt_02x_def digit_char_def)
  have "ether_addr_pton ETHER_TAP_HW_ADDR = (0, [0, 0, 0x5e, 0, 0x53, 1])"
    unfolding hw using ether_pton_last [of 1] by (simp add: ether_addr_pton_def ether_pton_step eval_nat_numeral)
  then show "fst (ether_tap_init nm (Some ETHER_TAP_HW_ADDR) s) \<noteq> None \<and> resources (snd (ether_tap_init nm (Some ETHER_TAP_HW_ADDR) s))"
    using assms
    by (simp add: resources_def ether_tap_init_def net_device_alloc_def net_device_register_def intr_request_irq_def platform_defs Let_def advance_def)
qed

lemma resources_iface:
  assumes "resources s" "setup_iface dev a nm s = Some (g, s')" "dev_tab s dev = Some d" "ifaces d = []"
    and "fst (ip_addr_pton (host_order s) a 0) = 0" "fst (ip_addr_pton (host_order s) nm 0) = 0"
  shows "g \<noteq> None \<and> resources s'"
  using assms
  by (cases "ip_addr_pton (host_order s) a 0"; cases "ip_addr_pton (host_order s) nm 0")
    (auto simp: setup_iface_def ip_iface_alloc_def ip_iface_register_def net_device_add_iface_def ip_route_add_def platform_defs Let_def
      resources_def advance_def)

lemma resources_run:
  assumes "resources s"
  shows "\<exists>s'. ip_route_set_default_gateway f DEFAULT_GATEWAY s = (0, s') \<and> resources s'" "net_run s = Some (r, s') \<Longrightarrow> r = 0"
  using assms
  by (auto simp: ip_route_set_default_gateway_def ip_route_add_def setup_texts resources_def net_run_def intr_run_def platform_defs advance_def
      Let_def bind_Some_iff)

lemma setup_success:
  assumes "process_start s"
  shows "\<exists>r s'. setup_stack s = Some (r, s') \<and> r \<in> {0, -1} \<and> (r = 0 \<longrightarrow> stack_up s' \<and> events s' = events (snd (net_init s)))"
proof -
  obtain r0 s0 where init: "net_init s = (r0, s0)" by fastforce
  then have "registered s s0" using net_init_ok [of s] by simp
  then have s0: "sys_ok s0" "next_index s0 = 0" "devices s0 = []" "routes s0 = []"
    using assms process_start_ok [OF assms] by (simp_all add: registered_def process_start_def)
  obtain dev s1 where lo: "loopback_init s0 = (dev, s1)" by fastforce
  show ?thesis
  proof (cases "r0 = -1 \<or> dev = None")
    case True
    then show ?thesis using init lo by (auto simp: setup_stack_def)
  next
    case False
    then obtain dev0 where dev: "dev = Some dev0" by auto
    from setup_first_device [OF s0 lo [unfolded dev]]
    obtain g s2 where s2: "setup_iface dev0 LOOPBACK_IP_ADDR LOOPBACK_NETMASK s1 = Some (g, s2)" by blast
    obtain dev1 s3 where tap: "ether_tap_init ETHER_TAP_NAME (Some ETHER_TAP_HW_ADDR) s2 = (dev1, s3)" by fastforce
    show ?thesis
    proof (cases "g = None \<or> dev1 = None")
      case True
      then show ?thesis using False init lo dev s2 tap by (auto simp: setup_stack_def)
    next
      case g: False
      then obtain dev1' where gs: "g \<noteq> None" and dev1: "dev1 = Some dev1'" by auto
      from setup_devices [OF s0 lo [unfolded dev] s2 gs tap [unfolded dev1]]
      obtain f s4 where s4: "setup_iface dev1' ETHER_TAP_IP_ADDR ETHER_TAP_NETMASK s3 = Some (f, s4)"
        "\<And>f'. f = Some f' \<Longrightarrow> \<exists>r s5. ip_route_set_default_gateway f' DEFAULT_GATEWAY s4 = (r, s5) \<and> (r \<noteq> -1 \<longrightarrow> stack_up s5 \<and> events s5 = events s0)" by blast
      have eq: "setup_stack s = (case f of None \<Rightarrow> Some (-1, s4) | Some f' \<Rightarrow>
          let (r, s) = ip_route_set_default_gateway f' DEFAULT_GATEWAY s4
          in if r = -1 then Some (-1, s) else do { (r, s) \<leftarrow> net_run s; if r = -1 then Some (-1, s) else Some (0, s) })"
        using False gs init lo dev s2 tap dev1 s4(1) by (cases g; cases f) (simp_all add: setup_stack_def Let_def split_def)
      show ?thesis
      proof (cases f)
        case None
        then show ?thesis using eq by simp
      next
        case (Some f')
        then obtain r s5 where s5: "ip_route_set_default_gateway f' DEFAULT_GATEWAY s4 = (r, s5)" "r \<noteq> -1 \<longrightarrow> stack_up s5 \<and> events s5 = events s0" using s4(2) by blast
        show ?thesis
        proof (cases "r = -1")
          case True
          then show ?thesis using eq Some s5(1) by simp
        next
          case False
          then have up: "stack_up s5" "events s5 = events s0" using s5(2) by simp_all
          then obtain r' s' where s': "net_run s5 = Some (r', s')" "stack_up s'" "devices_opened s5 s'"
            using net_run_ok [of s5] stack_up_opened [OF up(1)] by (auto simp: stack_up_def)
          then show ?thesis using eq Some s5(1) False up(2) init devices_opened_events [OF s'(3)] by simp
        qed
      qed
    qed
  qed
qed

lemma setup_ready:
  assumes "process_start s" "resources s" "setup_stack s = Some (r, s')"
  shows "r = 0"
proof -
  obtain s0 where init: "net_init s = (0, s0)" "resources s0"
    using resources_net_init [OF assms(1,2)] by (cases "net_init s") auto
  obtain dev s1 where lo: "loopback_init s0 = (Some dev, s1)" "resources s1"
    using resources_device(1) [OF init(2)] by (cases "loopback_init s0") auto
  obtain d where d: "dev_tab s1 dev = Some d" "ifaces d = []"
    using loopback_init_added [OF lo(1)] by (auto simp: device_added_def)
  obtain g s2 where "setup_iface dev LOOPBACK_IP_ADDR LOOPBACK_NETMASK s1 = Some (g, s2)"
    using assms(3) init(1) lo(1) by (auto simp: setup_stack_def bind_eq_Some_conv)
  with resources_iface [OF lo(2) this d] have s2: "setup_iface dev LOOPBACK_IP_ADDR LOOPBACK_NETMASK s1 = Some (g, s2)" "g \<noteq> None" "resources s2"
    by (simp_all add: setup_texts)
  obtain dev1 s3 where tap: "ether_tap_init ETHER_TAP_NAME (Some ETHER_TAP_HW_ADDR) s2 = (Some dev1, s3)" "resources s3"
    using resources_device(2) [OF s2(3), of ETHER_TAP_NAME] by (cases "ether_tap_init ETHER_TAP_NAME (Some ETHER_TAP_HW_ADDR) s2") auto
  obtain d1 where d1: "dev_tab s3 dev1 = Some d1" "ifaces d1 = []"
    using ether_tap_init_added [OF tap(1)] by (auto simp: device_added_def)
  obtain f s4 where "setup_iface dev1 ETHER_TAP_IP_ADDR ETHER_TAP_NETMASK s3 = Some (f, s4)"
    using assms(3) init(1) lo(1) s2(1,2) tap(1) by (auto simp: setup_stack_def bind_eq_Some_conv)
  with resources_iface [OF tap(2) this d1] obtain f' where
    s4: "setup_iface dev1 ETHER_TAP_IP_ADDR ETHER_TAP_NETMASK s3 = Some (Some f', s4)" "resources s4"
    by (auto simp: setup_texts)
  obtain s5 where s5: "ip_route_set_default_gateway f' DEFAULT_GATEWAY s4 = (0, s5)" "resources s5"
    using resources_run(1) [OF s4(2)] by blast
  show ?thesis
    using assms(3) init(1) lo(1) s2(1,2) tap(1) s4(1) s5(1) resources_run(2) [OF s5(2)]
    by (auto simp: setup_stack_def bind_eq_Some_conv split: if_splits)
qed

subsection \<open>The start of the servers\<close>

definition tap_up :: "'z tcp_scheme \<Rightarrow> bool" where
  "tap_up s \<longleftrightarrow> sys_ok s \<and> devices s = [0] \<and> routes s = [route_of (iface_of (host_order s) 0 ETHER_TAP_IP_ADDR ETHER_TAP_NETMASK)] \<and>
     (\<exists>tap. dev_tab s 0 = Some tap \<and> ops tap = Ether_tap_ops \<and> ifaces tap = [iface_of (host_order s) 0 ETHER_TAP_IP_ADDR ETHER_TAP_NETMASK])"

lemma tap_up_opened:
  assumes "tap_up s" "sys_ok s'" "devices_opened s s'"
  shows "tap_up s'"
proof -
  have same: "devices s' = devices s" "routes s' = routes s" "host_order s' = host_order s"
    using assms(3) unfolding devices_opened_def by (cases s; cases s'; simp)+
  have "\<exists>d'. dev_tab s' i = Some d' \<and> ifaces d' = ifaces d \<and> ops d' = ops d" if "dev_tab s i = Some d" for i d
    using assms(3) [unfolded devices_opened_def, THEN conjunct2, rule_format, of i] that by simp
  then show ?thesis using assms(1,2) same unfolding tap_up_def by metis
qed

lemma setup_tap_success:
  assumes "process_start s"
  shows "\<exists>r s'. setup_tap s = Some (r, s') \<and> r \<in> {0, -1} \<and> (r = 0 \<longrightarrow> tap_up s' \<and> events s' = events (snd (net_init s)))"
proof -
  obtain r0 s0 where init: "net_init s = (r0, s0)" by fastforce
  then have "registered s s0" using net_init_ok [of s] by simp
  then have s0: "sys_ok s0" "next_index s0 = 0" "devices s0 = []" "routes s0 = []"
    using assms process_start_ok [OF assms] by (simp_all add: registered_def process_start_def)
  obtain dev s1 where tap: "ether_tap_init ETHER_TAP_NAME (Some ETHER_TAP_HW_ADDR) s0 = (dev, s1)" by fastforce
  show ?thesis
  proof (cases "r0 = -1 \<or> dev = None")
    case True
    then show ?thesis using init tap by (auto simp: setup_tap_def)
  next
    case False
    then obtain dev0 where dev: "dev = Some dev0" by auto
    from setup_tap_device [OF s0(1,2) tap [unfolded dev]]
    obtain g s2 where s2: "setup_iface dev0 ETHER_TAP_IP_ADDR ETHER_TAP_NETMASK s1 = Some (g, s2)" "sys_ok s2"
      "g \<noteq> None \<longrightarrow> tap_up s2 \<and> events s2 = events s0" by (auto simp: tap_up_def s0)
    obtain r' s' where s': "net_run s2 = Some (r', s')" "sys_ok s'" "devices_opened s2 s'" using net_run_ok [OF s2(2)] by blast
    then have "g \<noteq> None \<longrightarrow> tap_up s' \<and> events s' = events s0"
      using s2(3) tap_up_opened [OF _ s'(2,3)] devices_opened_events [OF s'(3)] by simp
    then show ?thesis using False init tap dev s2(1) s'(1) by (auto simp: setup_tap_def)
  qed
qed

lemma setup_tap_ready:
  assumes "process_start s" "resources s" "setup_tap s = Some (r, s')"
  shows "r = 0"
proof -
  obtain s0 where init: "net_init s = (0, s0)" "resources s0"
    using resources_net_init [OF assms(1,2)] by (cases "net_init s") auto
  obtain dev s1 where tap: "ether_tap_init ETHER_TAP_NAME (Some ETHER_TAP_HW_ADDR) s0 = (Some dev, s1)" "resources s1"
    using resources_device(2) [OF init(2), of ETHER_TAP_NAME] by (cases "ether_tap_init ETHER_TAP_NAME (Some ETHER_TAP_HW_ADDR) s0") auto
  obtain d where d: "dev_tab s1 dev = Some d" "ifaces d = []"
    using ether_tap_init_added [OF tap(1)] by (auto simp: device_added_def)
  obtain g s2 where "setup_iface dev ETHER_TAP_IP_ADDR ETHER_TAP_NETMASK s1 = Some (g, s2)"
    using assms(3) init(1) tap(1) by (auto simp: setup_tap_def bind_eq_Some_conv)
  with resources_iface [OF tap(2) this d] have s2: "setup_iface dev ETHER_TAP_IP_ADDR ETHER_TAP_NETMASK s1 = Some (g, s2)" "g \<noteq> None" "resources s2"
    by (simp_all add: setup_texts)
  show ?thesis
    using assms(3) init(1) tap(1) s2(1,2) resources_run(2) [OF s2(3)] by (auto simp: setup_tap_def bind_eq_Some_conv split: if_splits)
qed

lemma setup_wired:
  assumes "process_start s" "resources s"
  shows "setup_stack s = Some (r, s') \<Longrightarrow> wired s'" "setup_tap s = Some (r, s') \<Longrightarrow> wired s'"
  using setup_success [OF assms(1)] setup_ready [OF assms] setup_tap_success [OF assms(1)] setup_tap_ready [OF assms] resources_net_init [OF assms]
  by (auto simp: wired_def)

text \<open>
  C14. Bringing the stack up. From the zero-initialised process, with every allocation and every system call free to fail, \<open>setup\<close>
  is defined and returns 0 or -1. When it returns 0, the whole system satisfies its invariant, the loopback device has the
  interface 127.0.0.1/8, the tap device 192.168.70.2/24, and the routing table holds exactly the two networks
  and the default route over the gateway 192.168.70.1; after the start of the servers, there are the tap device and its network only. When memory is
  available and the system calls succeed, both return 0, and the event handlers of UDP and TCP are subscribed.
\<close>

theorem setup_brings_up:
  assumes "process_start s"
  shows "(\<exists>r s'. setup_stack s = Some (r, s') \<and> r \<in> {0, -1} \<and> (r = 0 \<longrightarrow> stack_up s') \<and> (resources s \<longrightarrow> r = 0 \<and> wired s')) \<and>
    (\<exists>r s'. setup_tap s = Some (r, s') \<and> r \<in> {0, -1} \<and> (r = 0 \<longrightarrow> tap_up s') \<and> (resources s \<longrightarrow> r = 0 \<and> wired s'))"
  using setup_success [OF assms] setup_ready [OF assms] setup_tap_success [OF assms] setup_tap_ready [OF assms] setup_wired [OF assms] by metis

text \<open>
  C1. The program is safe. Once \<open>setup\<close> has succeeded, let tasks call the commands of UDP and TCP with any arguments, block in
  them and go on, let frames of any content arrive, and let the interrupt thread take signals, in any
  order and number: as long as buffers are as long as their callers say and the packets found by a software interrupt satisfy
  what the code does not check, every state reached satisfies the invariant of the system, and whatever is
  done next is defined - it reads and writes nothing out of bounds and it ends - and keeps the invariant.
\<close>

theorem program_safe:
  assumes "process_start s0" "setup_stack s0 = Some (0, s)" "runs exec allowed s xs s'" "allowed x s'"
  shows "sys_ok s' \<and> (\<exists>s''. exec x s' = Some s'' \<and> sys_ok s'')"
proof -
  obtain r t where "setup_stack s0 = Some (r, t)" "r = 0 \<longrightarrow> stack_up t" using setup_success [OF assms(1)] by blast
  then have "sys_ok s" using assms(2) by (simp add: stack_up_def)
  then show ?thesis using sys.runs_inv [OF assms(3)] sys.runs_not_stuck [OF assms(3) _ assms(4)] by blast
qed

section \<open>Evaluation\<close>

definition start_example :: tcp where
  "start_example = (tcp_example 0 [])\<lparr>dev_tab := Map.empty, devices := [], next_index := 0, protocols := [], timers := [], events := [],
     irqs := [], ip_ifaces := [], ip_protocols := [], routes := [], syscalls := (\<lambda>_. 0)\<rparr>"

lemma start_example_ok: "process_start start_example"
  by (auto simp: process_start_def start_example_def tcp_example_def udp_example_def ip_example_def arp_example_def arp.defs ip.defs udp.defs tcp.defs)

lemma start_example_simps:
  "allocs start_example n" "syscalls start_example n = 0" "host_order start_example = Big"
  by (simp_all add: start_example_def tcp_example_simps)

lemma start_example_resources: "resources start_example"
  by (simp add: resources_def start_example_simps)

lemma setup_example:
  obtains s where "setup_stack start_example = Some (0, s)"
proof -
  obtain r s where "setup_stack start_example = Some (r, s)" using setup_success [OF start_example_ok] by blast
  then show ?thesis using setup_ready [OF start_example_ok start_example_resources] that by simp
qed

lemma setup_tap_example:
  obtains s where "setup_tap start_example = Some (0, s)"
proof -
  obtain r s where "setup_tap start_example = Some (r, s)" using setup_tap_success [OF start_example_ok] by blast
  then show ?thesis using setup_tap_ready [OF start_example_ok start_example_resources] that by simp
qed

theorem setup_brings_up_witness:
  "process_start start_example \<and> resources start_example \<and> (\<exists>s'. setup_stack start_example = Some (0, s') \<and> stack_up s') \<and>
   (\<exists>s'. setup_tap start_example = Some (0, s') \<and> tap_up s' \<and> wired s')"
  using setup_brings_up [OF start_example_ok] start_example_ok start_example_resources by auto

theorem program_safe_witness:
  "\<exists>s. process_start start_example \<and> setup_stack start_example = Some (0, s) \<and>
     runs exec allowed s [Udp_open, Raise_event] (net_raise_event (snd (udp_open s))) \<and>
     (\<exists>s''. exec (Tcp_open \<lparr>ep_addr = 0, ep_port = 7\<rparr> None False) (net_raise_event (snd (udp_open s))) = Some s'' \<and> sys_ok s'')"
proof -
  obtain r s where "setup_stack start_example = Some (r, s)" using setup_success [OF start_example_ok] by blast
  then have s: "setup_stack start_example = Some (0, s)"
    using setup_ready [OF start_example_ok start_example_resources] by simp
  have run: "runs exec allowed s [Udp_open, Raise_event] (net_raise_event (snd (udp_open s)))"
    by (simp add: runs_Nil runs_Cons)
  show ?thesis
    using start_example_ok s run program_safe [OF start_example_ok s run, of "Tcp_open \<lparr>ep_addr = 0, ep_port = 7\<rparr> None False"] by auto
qed

end
