(* ===== verification/Process.thy ===== *)
theory Process
  imports Setup
begin

text \<open>
  Programs of one or more threads over the stack. The text of a program is a function from its points to what is done there: a call of
  the stack, with what follows for each result; a jump; the creation of a thread; a return. A process has threads of
  which any may take the next step, beside \<^verbatim>\<open>SIGINT\<close>, arriving frames and the interrupt thread. A locale states what a program has to
  guarantee at each of its points, and gives that the process is safe.
\<close>

section \<open>Calls and their results\<close>

datatype result = Value int | Received int bytes | Received_from received

primrec value_of :: "result \<Rightarrow> int option" where
  "value_of (Value n) = Some n"
| "value_of (Received n b) = None"
| "value_of (Received_from r) = None"

primrec received_of :: "result \<Rightarrow> (int \<times> bytes) option" where
  "received_of (Value n) = None"
| "received_of (Received n b) = Some (n, b)"
| "received_of (Received_from r) = None"

primrec received_from_of :: "result \<Rightarrow> received option" where
  "received_from_of (Value n) = None"
| "received_from_of (Received n b) = None"
| "received_from_of (Received_from r) = Some r"

text \<open>
  A call returns, or it waits and is continued by another operation, which is a function of what the wait returned. A wait
  in \<^verbatim>\<open>tcp_open_rfc793\<close> is on the control block that it allocated.
\<close>

type_synonym outcome = "result + (int \<Rightarrow> operation)"

fun perform :: "operation \<Rightarrow> 'z tcp_scheme \<Rightarrow> (outcome \<times> 'z tcp_scheme) option" where
  "perform Udp_open s = (case udp_open s of (r, s) \<Rightarrow> Some (Inl (Value r), s))"
| "perform (Udp_bind i local) s = (case udp_bind i local s of (r, s) \<Rightarrow> Some (Inl (Value r), s))"
| "perform (Udp_close i) s = (case udp_close i s of (r, s) \<Rightarrow> Some (Inl (Value r), s))"
| "perform (Udp_sendto i data len foreign) s = do { (r, s) \<leftarrow> udp_sendto i data len foreign s; Some (Inl (Value r), s) }"
| "perform (Udp_recvfrom i sz) s = do {
     (c, s') \<leftarrow> udp_recvfrom i sz s;
     case c of
       Returns r \<Rightarrow> Some (Inl (Received_from r), s')
     | Sleeps \<Rightarrow> do { k \<leftarrow> udp_pcb_get i s; Some (Inr (\<lambda>ret. Udp_recvfrom_wake k ret sz), s') }
   }"
| "perform (Udp_recvfrom_wake k ret sz) s = do {
     (c, s) \<leftarrow> udp_recvfrom_resume k ret sz s;
     case c of
       Returns r \<Rightarrow> Some (Inl (Received_from r), s)
     | Sleeps \<Rightarrow> Some (Inr (\<lambda>ret. Udp_recvfrom_wake k ret sz), s)
   }"
| "perform (Tcp_open local foreign active) s = do {
     (c, s') \<leftarrow> tcp_open_rfc793 local foreign active s;
     case c of
       Returned r \<Rightarrow> Some (Inl (Value r), s')
     | Waiting st \<Rightarrow> do { k \<leftarrow> fst (tcp_pcb_alloc s); Some (Inr (Tcp_open_wake k st), s') }
   }"
| "perform (Tcp_open_wake k st ret) s =
     (case tcp_open_resume k st ret s of
        (Returned r, s) \<Rightarrow> Some (Inl (Value r), s)
      | (Waiting st, s) \<Rightarrow> Some (Inr (Tcp_open_wake k st), s))"
| "perform (Tcp_close i) s = do { (r, s) \<leftarrow> tcp_close i s; Some (Inl (Value r), s) }"
| "perform (Tcp_send i data len) s = do {
     (c, s') \<leftarrow> tcp_send i data len s;
     case c of
       Returned r \<Rightarrow> Some (Inl (Value r), s')
     | Waiting sent \<Rightarrow> do { k \<leftarrow> tcp_pcb_get i s; Some (Inr (\<lambda>ret. Tcp_send_wake k ret data len sent), s') }
   }"
| "perform (Tcp_send_wake k ret data len sent) s = do {
     (c, s) \<leftarrow> tcp_send_resume k ret data len sent s;
     case c of
       Returned r \<Rightarrow> Some (Inl (Value r), s)
     | Waiting sent \<Rightarrow> Some (Inr (\<lambda>ret. Tcp_send_wake k ret data len sent), s)
   }"
| "perform (Tcp_receive i sz) s = do {
     (c, s') \<leftarrow> tcp_receive i sz s;
     case c of
       Returned (r, b) \<Rightarrow> Some (Inl (Received r b), s')
     | Waiting _ \<Rightarrow> do { k \<leftarrow> tcp_pcb_get i s; Some (Inr (\<lambda>ret. Tcp_receive_wake k ret sz), s') }
   }"
| "perform (Tcp_receive_wake k ret sz) s = do {
     (c, s) \<leftarrow> tcp_receive_resume k ret sz s;
     case c of
       Returned (r, b) \<Rightarrow> Some (Inl (Received r b), s)
     | Waiting _ \<Rightarrow> Some (Inr (\<lambda>ret. Tcp_receive_wake k ret sz), s)
   }"
| "perform (Ip_output protocol data len src dst) s = do { (r, s) \<leftarrow> ip_output protocol data len src dst s; Some (Inl (Value r), s) }"
| "perform (Icmp_output type code vals data len src dst) s = do { (r, s) \<leftarrow> icmp_output type code vals data len src dst s; Some (Inl (Value r), s) }"
| "perform (Udp_output src dst data len) s = do { (r, s) \<leftarrow> udp_output src dst data len s; Some (Inl (Value r), s) }"
| "perform Raise_event s = Some (Inl (Value 0), net_raise_event s)"
| "perform (Arrival dev e) s = None"
| "perform (Signal sig) s = None"

section \<open>Programs and processes\<close>

text \<open>
  What a thread does at a point: a call and what follows; a jump; \<^verbatim>\<open>net_shutdown\<close>; the creation of a thread, with what
  follows the value of \<^verbatim>\<open>pthread_create\<close>, and the identifier of the thread; \<^verbatim>\<open>pthread_join\<close>; the return of the function
  of the thread; the end of the process, by a return of \<^verbatim>\<open>main\<close> or by \<^verbatim>\<open>exit\<close>.
\<close>

datatype 'p act =
    Call operation "result \<Rightarrow> 'p option"
  | Goto 'p
  | Shutdown 'p
  | Spawn 'p "int \<Rightarrow> nat \<Rightarrow> 'p"
  | Join nat "int \<Rightarrow> 'p"
  | Return
  | Exit int

text \<open>The text of a program sees the flag \<^verbatim>\<open>terminate\<close> and the byte order of the host.\<close>

type_synonym 'p code = "bool \<Rightarrow> host \<Rightarrow> 'p \<Rightarrow> 'p act option"

datatype 'p thread = Running 'p | Blocked "int \<Rightarrow> operation" "result \<Rightarrow> 'p option" | Ended

record ('p, 's) process =
  threads :: "'p thread list"
  terminate :: bool
  status :: "int option"
  stack :: 's

definition put_thread :: "nat \<Rightarrow> 'p thread \<Rightarrow> ('p, 's) process \<Rightarrow> ('p, 's) process" where
  "put_thread i t p = p\<lparr>threads := (threads p)[i := t]\<rparr>"

definition call_step :: "nat \<Rightarrow> operation \<Rightarrow> (result \<Rightarrow> 'p option) \<Rightarrow> ('p, 'z tcp_scheme) process \<Rightarrow> ('p, 'z tcp_scheme) process option" where
  "call_step i x k p = do {
     (c, s) \<leftarrow> perform x (stack p);
     case c of
       Inl v \<Rightarrow> do { at \<leftarrow> k v; Some (put_thread i (Running at) (p\<lparr>stack := s\<rparr>)) }
     | Inr wake \<Rightarrow> Some (put_thread i (Blocked wake k) (p\<lparr>stack := s\<rparr>))
   }"

text \<open>The value \<open>ret\<close> is what the call of the system returns: the wait, \<^verbatim>\<open>pthread_create\<close> or \<^verbatim>\<open>pthread_join\<close>.\<close>

definition act_step :: "nat \<Rightarrow> int \<Rightarrow> 'p act \<Rightarrow> ('p, 'z tcp_scheme) process \<Rightarrow> ('p, 'z tcp_scheme) process option" where
  "act_step i ret a p =
     (case a of
        Call x k \<Rightarrow> call_step i x k p
      | Goto at \<Rightarrow> Some (put_thread i (Running at) p)
      | Shutdown at \<Rightarrow> do { s \<leftarrow> net_shutdown (stack p); Some (put_thread i (Running at) (p\<lparr>stack := s\<rparr>)) }
      | Spawn start k \<Rightarrow>
          (let p = put_thread i (Running (k ret (length (threads p)))) p
           in Some (if ret = 0 then p\<lparr>threads := threads p @ [Running start]\<rparr> else p))
      | Join j k \<Rightarrow>
          if j < length (threads p) \<and> (case threads p ! j of Ended \<Rightarrow> False | _ \<Rightarrow> True) \<and> ret = 0 then Some p
          else Some (put_thread i (Running (k ret)) p)
      | Return \<Rightarrow> Some (put_thread i Ended p)
      | Exit v \<Rightarrow> Some (p\<lparr>status := Some v\<rparr>))"

definition thread_step :: "'p code \<Rightarrow> nat \<Rightarrow> int \<Rightarrow> ('p, 'z tcp_scheme) process \<Rightarrow> ('p, 'z tcp_scheme) process option" where
  "thread_step code i ret p =
     (if length (threads p) \<le> i then Some p
      else case threads p ! i of
        Running at \<Rightarrow> do { a \<leftarrow> code (terminate p) (host_order (stack p)) at; act_step i ret a p }
      | Blocked wake k \<Rightarrow> call_step i (wake ret) k p
      | Ended \<Rightarrow> Some p)"

text \<open>
  What \<^verbatim>\<open>SIGINT\<close> does: it ends the process when no handler is installed; the handler \<^verbatim>\<open>on_signal\<close> sets the flag, and in most programs
  it raises the event.
\<close>

datatype sigint = No_handler | Set_flag | Set_flag_raise

definition on_signal :: "sigint \<Rightarrow> ('p, 'z tcp_scheme) process \<Rightarrow> ('p, 'z tcp_scheme) process" where
  "on_signal h p =
     (case h of
        No_handler \<Rightarrow> p\<lparr>status := Some (128 + 2)\<rparr>
      | Set_flag \<Rightarrow> p\<lparr>terminate := True\<rparr>
      | Set_flag_raise \<Rightarrow> p\<lparr>terminate := True, stack := net_raise_event (stack p)\<rparr>)"

datatype event = Step nat int | Sigint | Frame dev_id rx_event | Irq nat

definition process_exec :: "sigint \<Rightarrow> 'p code \<Rightarrow> event \<Rightarrow> ('p, 'z tcp_scheme) process \<Rightarrow> ('p, 'z tcp_scheme) process option" where
  "process_exec h code x p =
     (if status p \<noteq> None then Some p
      else case x of
        Step i ret \<Rightarrow> thread_step code i ret p
      | Sigint \<Rightarrow> Some (on_signal h p)
      | Frame dev e \<Rightarrow> do { s \<leftarrow> exec (Arrival dev e) (stack p); Some (p\<lparr>stack := s\<rparr>) }
      | Irq sig \<Rightarrow> do { s \<leftarrow> exec (Signal sig) (stack p); Some (p\<lparr>stack := s\<rparr>) })"

text \<open>The process after the start of the stack: the only thread is that of \<^verbatim>\<open>main\<close>.\<close>

definition process_of :: "'p \<Rightarrow> 's \<Rightarrow> ('p, 's) process" where
  "process_of at s = \<lparr>threads = [Running at], terminate = False, status = None, stack = s\<rparr>"

section \<open>Calls keep to their contracts\<close>

text \<open>What a caller guarantees; what a call returns; and with what operation it is continued when it waits.\<close>

fun call_ok :: "operation \<Rightarrow> bool" where
  "call_ok (Udp_sendto i data len foreign) \<longleftrightarrow> len \<le> length data"
| "call_ok (Tcp_open local foreign active) \<longleftrightarrow> (active \<longrightarrow> foreign \<noteq> None)"
| "call_ok (Tcp_send i data len) \<longleftrightarrow> len \<le> length data"
| "call_ok (Udp_recvfrom_wake k ret sz) \<longleftrightarrow> False"
| "call_ok (Tcp_open_wake k st ret) \<longleftrightarrow> False"
| "call_ok (Tcp_send_wake k ret data len sent) \<longleftrightarrow> False"
| "call_ok (Tcp_receive_wake k ret sz) \<longleftrightarrow> False"
| "call_ok (Ip_output protocol data len src dst) \<longleftrightarrow> len \<le> length data"
| "call_ok (Icmp_output type code vals data len src dst) \<longleftrightarrow> len \<le> length data \<and> len \<le> ICMP_BUFSIZ - ICMP_HDR_SIZE"
| "call_ok (Udp_output src dst data len) \<longleftrightarrow> len \<le> length data"
| "call_ok (Arrival dev e) \<longleftrightarrow> False"
| "call_ok (Signal sig) \<longleftrightarrow> False"
| "call_ok _ \<longleftrightarrow> True"

fun result_ok :: "operation \<Rightarrow> result \<Rightarrow> bool" where
  "result_ok (Udp_recvfrom i sz) v \<longleftrightarrow> (\<exists>n b f e. v = Received_from (n, b, f, e) \<and>
     (n \<noteq> -1 \<longrightarrow> n = int (length b) \<and> length b \<le> sz \<and> f \<noteq> None))"
| "result_ok (Tcp_receive i sz) v \<longleftrightarrow> (\<exists>n b. v = Received n b \<and> -1 \<le> n \<and> length b = nat n \<and> length b \<le> sz)"
| "result_ok _ v \<longleftrightarrow> (\<exists>n. v = Value n)"

inductive waits :: "operation \<Rightarrow> (int \<Rightarrow> operation) \<Rightarrow> bool" where
  udp_recvfrom: "k < 16 \<Longrightarrow> waits (Udp_recvfrom i sz) (\<lambda>ret. Udp_recvfrom_wake k ret sz)"
| tcp_open: "k < 16 \<Longrightarrow> st \<noteq> TCP_PCB_STATE_FREE \<Longrightarrow> waits (Tcp_open local foreign active) (Tcp_open_wake k st)"
| tcp_send: "k < 16 \<Longrightarrow> sent \<le> len \<Longrightarrow> len \<le> length data \<Longrightarrow> waits (Tcp_send i data len) (\<lambda>ret. Tcp_send_wake k ret data len sent)"
| tcp_receive: "k < 16 \<Longrightarrow> waits (Tcp_receive i sz) (\<lambda>ret. Tcp_receive_wake k ret sz)"

lemma tcp_recv_value:
  "tcp_recv_retry k sz s = Some (Returned (n, b), s') \<Longrightarrow> length b = nat n \<and> length b \<le> sz"
  by (auto simp: tcp_recv_retry_def tcp_copy_out_def rd_bytes_def Let_def bind_eq_Some_conv split: if_splits prod.splits option.splits)

lemma tcp_receive_value:
  "tcp_receive soc sz s = Some (Returned (n, b), s') \<Longrightarrow> length b = nat n \<and> length b \<le> sz"
  "tcp_receive_resume k ret sz s = Some (Returned (n, b), s') \<Longrightarrow> length b = nat n \<and> length b \<le> sz"
  by (auto simp: tcp_receive_def tcp_receive_resume_def Let_def dest: tcp_recv_value split: option.splits prod.splits if_splits)

lemma tcp_send_loop_waiting:
  assumes "tcp_send_loop k mss data len sent s = Some r"
  shows "sent \<le> len \<longrightarrow> fst r = Waiting m \<longrightarrow> m \<le> len"
proof (rule tcp_send_loop.raw_induct [OF _ assms, where P = "\<lambda>k mss data len sent s r. sent \<le> len \<longrightarrow> fst r = Waiting m \<longrightarrow> m \<le> len"])
  fix send and k mss data len sent s r
  assume IH: "\<And>k mss data len sent s r. send k mss data len sent s = Some r \<Longrightarrow> sent \<le> len \<longrightarrow> fst r = Waiting m \<longrightarrow> m \<le> len"
    and run: "(if sent < len then
        if tcp_send_cap (tcp_pcbs s ! k) = 0 then
          (case sched_sleep_enter (tctx (tcp_pcbs s ! k)) of
             (None, c) \<Rightarrow> Some (Waiting sent, upd_tcp_pcb k (\<lambda>pcb. pcb\<lparr>tctx := c\<rparr>) s)
           | (Some _, c) \<Rightarrow> Some (Returned (if sent = 0 then -1 else int sent), upd_tcp_pcb k (\<lambda>pcb. pcb\<lparr>tctx := c\<rparr>) s))
        else let slen = min (min mss (len - sent)) (tcp_send_cap (tcp_pcbs s ! k)) in
          tcp_output k (TCP_FLG_ACK OR TCP_FLG_PSH) (drop sent data) slen s \<bind>
            (\<lambda>(r, s). if r = -1 then Some (Returned (-1), tcp_abort k s)
              else send k mss data len (sent + slen) (upd_tcp_pcb k (\<lambda>pcb. pcb\<lparr>snd_nxt := snd_nxt pcb + mk32 slen\<rparr>) s))
      else Some (Returned (int sent), s)) = Some r"
  define slen where "slen = min (min mss (len - sent)) (tcp_send_cap (tcp_pcbs s ! k))"
  have "sent \<le> len \<longrightarrow> sent + slen \<le> len" by (auto simp: slen_def)
  moreover have "send k mss data len (sent + slen) t = Some r \<Longrightarrow> sent + slen \<le> len \<Longrightarrow> fst r = Waiting m \<Longrightarrow> m \<le> len" for t
    using IH by blast
  ultimately show "sent \<le> len \<longrightarrow> fst r = Waiting m \<longrightarrow> m \<le> len"
    using run [unfolded Let_def, folded slen_def] by (auto simp: bind_eq_Some_conv split: if_splits option.splits prod.splits)
qed

lemma tcp_send_waiting:
  "tcp_send_retry k data len sent s = Some (Waiting m, s') \<Longrightarrow> sent \<le> len \<Longrightarrow> m \<le> len"
  "tcp_send soc data len s = Some (Waiting m, s') \<Longrightarrow> m \<le> len"
  "tcp_send_resume k ret data len sent s = Some (Waiting m, s') \<Longrightarrow> sent \<le> len \<Longrightarrow> m \<le> len"
  by (auto simp: tcp_send_retry_def tcp_send_def tcp_send_resume_def Let_def bind_eq_Some_conv
      dest!: tcp_send_loop_waiting [where m = m] split: option.splits prod.splits if_splits)

lemma tcp_pcb_alloc_less: "tcp_ok s \<Longrightarrow> fst (tcp_pcb_alloc s) = Some k \<Longrightarrow> k < 16"
  using tcp_okD(3) [of s] by (auto simp: tcp_pcb_alloc_def find_pos_Some_iff split: option.splits)

lemma tcp_open_loop_waits: "tcp_open_loop i st s = (Waiting st', s') \<Longrightarrow> st \<noteq> TCP_PCB_STATE_FREE \<Longrightarrow> st' \<noteq> TCP_PCB_STATE_FREE"
  by (auto simp: tcp_open_loop_def tcp_open_sleep_def Let_def split: if_splits prod.splits option.splits)

lemma tcp_open_resume_waits: "tcp_open_resume i st ret s = (Waiting st', s') \<Longrightarrow> st \<noteq> TCP_PCB_STATE_FREE \<Longrightarrow> st' \<noteq> TCP_PCB_STATE_FREE"
  by (auto simp: tcp_open_resume_def Let_def dest: tcp_open_loop_waits split: if_splits prod.splits)

lemma tcp_open_waits:
  assumes "tcp_open_rfc793 local foreign active s = Some (Waiting st, s')" "tcp_ok s" "active \<longrightarrow> foreign \<noteq> None"
  shows "\<exists>k < 16. fst (tcp_pcb_alloc s) = Some k \<and> st \<noteq> TCP_PCB_STATE_FREE"
proof -
  have "fst (tcp_pcb_alloc s) = find_pos (\<lambda>pcb. tstate pcb = TCP_PCB_STATE_FREE) (tcp_pcbs s)"
    by (auto simp: tcp_pcb_alloc_def split: option.split)
  then show ?thesis
    using tcp_open_ok [OF assms(2,3), of local] assms(1) tcp_pcb_alloc_less [OF assms(2)] by (auto split: option.splits if_splits)
qed

lemma tcp_commands_wait:
  "tcp_receive soc sz s = Some (Waiting u, s') \<Longrightarrow> tcp_pcb_get soc s \<noteq> None"
  "tcp_send soc data n s = Some (Waiting m, s') \<Longrightarrow> tcp_pcb_get soc s \<noteq> None"
  by (auto simp: tcp_receive_def tcp_send_def split: option.splits)

lemma net_device_close_ok:
  assumes "sys_ok s" "dev_tab s dev = Some d"
  shows "\<exists>r s'. net_device_close dev s = Some (r, s') \<and> opened dev d s s'"
proof -
  have refl: "opened dev d s s" using assms(2) by (intro openedI [OF _ dev_reopened_updates(1)]) auto
  have drv: "drv_ok d" using drvs_okD [OF sys_okD(2) [OF assms(1)] assms(2)] .
  then have close: "ops d = Ether_tap_ops \<Longrightarrow> ether_tap_close dev s = Some (0, s)"
    using assms(2) by (auto simp: ether_tap_close_def ether_tap_priv_def drv_ok_def)
  show ?thesis
    using assms(2) refl close opened_flags [OF refl assms(2)]
    by (cases "ops d") (auto simp: net_device_close_def ops_close_def set_flags_def)
qed

lemma close_all_ok:
  assumes "sys_ok s" "\<forall>i \<in> set is. dev_tab s i \<noteq> None"
  shows "\<exists>s'. close_all is s = Some s' \<and> sys_step s s'"
  using assms
proof (induction "is" arbitrary: s)
  case (Cons i "is")
  then obtain d where d: "dev_tab s i = Some d" by auto
  obtain r s1 where s1: "net_device_close i s = Some (r, s1)" "opened i d s s1"
    using net_device_close_ok [OF Cons.prems(1) d] by blast
  have "sys_ok s1" "events s1 = events s"
    using opened_sys_ok [OF Cons.prems(1) d s1(2)] devices_opened_events [OF devices_opened_one [OF s1(2) d]] .
  moreover have "\<forall>j \<in> set is. dev_tab s1 j \<noteq> None" using Cons.prems(2) s1(2) by (auto simp: opened_def)
  ultimately show ?case using Cons.IH [of s1] s1(1) by (auto simp: sys_step_def)
qed (simp add: sys_step_def)

lemma net_shutdown_ok:
  assumes "sys_ok s"
  shows "\<exists>s'. net_shutdown s = Some s' \<and> sys_step s s'"
proof -
  have "\<forall>i \<in> set (devices s). dev_tab s i \<noteq> None" using net_okD(3) [OF sys_okD(1) [OF assms]] by blast
  from close_all_ok [OF assms this] obtain s1 where s1: "close_all (devices s) s = Some s1" "sys_ok s1" "events s1 = events s"
    by (auto simp: sys_step_def)
  then have "sys_step s (intr_shutdown s1)"
    by (simp add: intr_shutdown_def intr_raise_irq_def sys_step_def sys_ok_def mtu_ok_def intr_ok_def queue_ok_def irq_ok_def tcp_ok_def udp_ok_def
        ip_ok_def net_ok_def drvs_ok_def)
  then show ?thesis using s1(1) by (simp add: net_shutdown_def)
qed

lemma exec_result: "sys_ok s \<Longrightarrow> allowed x s \<Longrightarrow> exec x s = map_option snd X \<Longrightarrow> \<exists>c s'. X = Some (c, s') \<and> sys_step s s'"
  using exec_sys_step [of s x] by (cases X) auto

lemma udp_recv_value:
  "udp_recvfrom i sz s = Some (Returns (n, b, f, e), s') \<Longrightarrow> n \<noteq> -1 \<Longrightarrow> n = int (length b) \<and> length b \<le> sz \<and> f \<noteq> None"
  "udp_recvfrom_resume k ret sz s = Some (Returns (n, b, f, e), s') \<Longrightarrow> n \<noteq> -1 \<Longrightarrow> n = int (length b) \<and> length b \<le> sz \<and> f \<noteq> None"
  by (auto simp: udp_recvfrom_def udp_recvfrom_resume_def udp_recv_loop_def rd_bytes_def Let_def bind_eq_Some_conv
      split: option.splits prod.splits if_splits)

lemma tcp_receive_least:
  "tcp_receive soc sz s = Some (Returned (n, b), s') \<Longrightarrow> -1 \<le> n"
  "tcp_receive_resume k ret sz s = Some (Returned (n, b), s') \<Longrightarrow> -1 \<le> n"
  by (auto simp: tcp_receive_def tcp_receive_resume_def tcp_recv_retry_def tcp_copy_out_def Let_def bind_eq_Some_conv
      split: option.splits prod.splits if_splits)

lemma udp_recv_waits: "udp_recvfrom i sz s = Some (Sleeps, s') \<Longrightarrow> udp_pcb_get i s \<noteq> None"
  by (auto simp: udp_recvfrom_def split: option.splits)

text \<open>An outcome that fits the call.\<close>

definition outcome_ok :: "operation \<Rightarrow> outcome \<Rightarrow> bool" where
  "outcome_ok x c \<longleftrightarrow> (case c of Inl v \<Rightarrow> result_ok x v | Inr wake \<Rightarrow> waits x wake)"

lemma outcome_ok_simps [simp]:
  "outcome_ok x (Inl v) \<longleftrightarrow> result_ok x v" "outcome_ok x (Inr wake) \<longleftrightarrow> waits x wake"
  by (simp_all add: outcome_ok_def)

lemma call_ok_allowed: "call_ok x \<Longrightarrow> allowed x s"
  by (cases x) simp_all

lemma waits_allowed: "waits x wake \<Longrightarrow> allowed (wake ret) s"
  by (induction rule: waits.induct) simp_all

lemma perform_waiting:
  assumes "sys_ok s" "waits x wake"
  shows "\<exists>c s'. perform (wake ret) s = Some (c, s') \<and> sys_step s s' \<and> outcome_ok x c"
proof -
  from assms(2) show ?thesis
  proof cases
    case (udp_recvfrom k i sz)
    then obtain c s' where "udp_recvfrom_resume k ret sz s = Some (c, s')" "sys_step s s'"
      using exec_result [OF assms(1) waits_allowed [OF assms(2)], of ret "udp_recvfrom_resume k ret sz s"] by auto
    then show ?thesis
      using udp_recvfrom udp_recv_value(2) [of k ret sz s] waits.udp_recvfrom [of k i sz] by (cases c) fastforce+
  next
    case (tcp_open k st local foreign active)
    obtain c s' where c: "tcp_open_resume k st ret s = (c, s')" by fastforce
    then have "sys_step s s'" using exec_sys_step [OF assms(1), of "Tcp_open_wake k st ret"] tcp_open by simp
    then show ?thesis
      using tcp_open c waits.tcp_open [of k _ local foreign active] tcp_open_resume_waits [of k st ret s _ s'] by (cases c) auto
  next
    case (tcp_send k sent len data i)
    then obtain c s' where "tcp_send_resume k ret data len sent s = Some (c, s')" "sys_step s s'"
      using exec_result [OF assms(1) waits_allowed [OF assms(2)], of ret "tcp_send_resume k ret data len sent s"] by auto
    then show ?thesis
      using tcp_send tcp_send_waiting(3) [of k ret data len sent s _ s'] waits.tcp_send [of k _ len data i] by (cases c) auto
  next
    case (tcp_receive k i sz)
    then obtain c s' where "tcp_receive_resume k ret sz s = Some (c, s')" "sys_step s s'"
      using exec_result [OF assms(1) waits_allowed [OF assms(2)], of ret "tcp_receive_resume k ret sz s"] by auto
    then show ?thesis
      using tcp_receive tcp_receive_value(2) [of k ret sz s] tcp_receive_least(2) [of k ret sz s] waits.tcp_receive [of k i sz]
      by (cases c) (auto split: prod.splits)
  qed
qed

lemma perform_ok:
  assumes "sys_ok s" "call_ok x"
  shows "\<exists>c s'. perform x s = Some (c, s') \<and> sys_step s s' \<and> outcome_ok x c"
proof -
  note ok = exec_result [OF assms(1) call_ok_allowed [OF assms(2)]]
  show ?thesis
  proof (cases x)
    case (Udp_sendto i data len foreign)
    then show ?thesis using ok [of "udp_sendto i data len foreign s"] by auto
  next
    case (Ip_output protocol data len src dst)
    then show ?thesis using ok [of "ip_output protocol data len src dst s"] by auto
  next
    case (Icmp_output type code vals data len src dst)
    then show ?thesis using ok [of "icmp_output type code vals data len src dst s"] by auto
  next
    case (Udp_output src dst data len)
    then show ?thesis using ok [of "udp_output src dst data len s"] by auto
  next
    case (Udp_recvfrom i sz)
    obtain c s' where c: "udp_recvfrom i sz s = Some (c, s')" "sys_step s s'"
      using ok [of "udp_recvfrom i sz s"] Udp_recvfrom by auto
    show ?thesis
    proof (cases c)
      case (Returns r)
      then show ?thesis using Udp_recvfrom c udp_recv_value(1) [of i sz s] by (cases r) fastforce
    next
      case Sleeps
      then obtain k where "udp_pcb_get i s = Some k" using udp_recv_waits c(1) by blast
      moreover from this have "k < 16" using udp_okD(2) [of s] sys_okD(6) [OF assms(1)] by (auto simp: udp_pcb_get_Some tcp_ok_def)
      ultimately show ?thesis using Udp_recvfrom c Sleeps waits.udp_recvfrom by auto
    qed
  next
    case (Tcp_open local foreign active)
    obtain c s' where c: "tcp_open_rfc793 local foreign active s = Some (c, s')" "sys_step s s'"
      using ok [of "tcp_open_rfc793 local foreign active s"] Tcp_open by auto
    have "\<exists>k < 16. fst (tcp_pcb_alloc s) = Some k \<and> st \<noteq> TCP_PCB_STATE_FREE" if "c = Waiting st" for st
      using tcp_open_waits [OF c(1) [unfolded that] sys_okD(6) [OF assms(1)]] Tcp_open assms(2) by simp
    then show ?thesis using Tcp_open c waits.tcp_open by (cases c) fastforce+
  next
    case (Tcp_close i)
    then show ?thesis using ok [of "tcp_close i s"] by auto
  next
    case (Tcp_send i data len)
    obtain c s' where c: "tcp_send i data len s = Some (c, s')" "sys_step s s'"
      using ok [of "tcp_send i data len s"] Tcp_send by auto
    show ?thesis
    proof (cases c)
      case (Waiting m)
      then obtain k where "tcp_pcb_get i s = Some k" "k < 16" "m \<le> len"
        using tcp_commands_wait(2) [of i data len s m s'] tcp_send_waiting(2) [of i data len s m s'] c(1) tcp_pcb_get_less [OF _ sys_okD(6) [OF assms(1)]]
        by auto
      then show ?thesis using Tcp_send c Waiting assms(2) waits.tcp_send by auto
    qed (use Tcp_send c in auto)
  next
    case (Tcp_receive i sz)
    obtain c s' where c: "tcp_receive i sz s = Some (c, s')" "sys_step s s'"
      using ok [of "tcp_receive i sz s"] Tcp_receive by auto
    show ?thesis
    proof (cases c)
      case (Returned r)
      then show ?thesis
        using Tcp_receive c tcp_receive_value(1) [of i sz s] tcp_receive_least(1) [of i sz s] by (cases r) fastforce
    next
      case (Waiting u)
      then obtain k where "tcp_pcb_get i s = Some k" "k < 16"
        using tcp_commands_wait(1) [of i sz s u s'] c(1) tcp_pcb_get_less [OF _ sys_okD(6) [OF assms(1)]] by auto
      then show ?thesis using Tcp_receive c Waiting waits.tcp_receive by auto
    qed
  qed (use assms exec_sys_step [OF assms(1), of x] in \<open>auto split: prod.splits\<close>)
qed

section \<open>Safe programs\<close>

text \<open>
  What a program guarantees at a point where the invariant \<open>ok\<close> of its points holds: calls with arguments that the stack allows, and for every result
  of them, and of the system, again a point with the invariant.
\<close>

definition act_ok :: "('p \<Rightarrow> bool) \<Rightarrow> 'p act \<Rightarrow> bool" where
  "act_ok ok a \<longleftrightarrow>
     (case a of
        Call x k \<Rightarrow> call_ok x \<and> (\<forall>v. result_ok x v \<longrightarrow> (\<exists>at. k v = Some at \<and> ok at))
      | Goto at \<Rightarrow> ok at
      | Shutdown at \<Rightarrow> ok at
      | Spawn start k \<Rightarrow> ok start \<and> (\<forall>r i. ok (k r i))
      | Join i k \<Rightarrow> (\<forall>r. ok (k r))
      | Return \<Rightarrow> True
      | Exit v \<Rightarrow> True)"

text \<open>A thread that waits is inside a call that the program makes at one of its points.\<close>

fun thread_ok :: "'p code \<Rightarrow> ('p \<Rightarrow> bool) \<Rightarrow> 'p thread \<Rightarrow> bool" where
  "thread_ok code ok (Running at) \<longleftrightarrow> ok at"
| "thread_ok code ok (Blocked wake k) \<longleftrightarrow> (\<exists>flag order at x. ok at \<and> code flag order at = Some (Call x k) \<and> waits x wake)"
| "thread_ok code ok Ended \<longleftrightarrow> True"

definition process_ok :: "'p code \<Rightarrow> ('p \<Rightarrow> bool) \<Rightarrow> ('p, 'z tcp_scheme) process \<Rightarrow> bool" where
  "process_ok code ok p \<longleftrightarrow> (\<forall>t \<in> set (threads p). thread_ok code ok t) \<and> sys_ok (stack p)"

text \<open>
  The program may be undefined at some of its points; and of the packets that a software interrupt finds, what the code does
  not check is a condition.
\<close>

fun process_allowed :: "('p \<Rightarrow> bool) \<Rightarrow> event \<Rightarrow> ('p, 'z tcp_scheme) process \<Rightarrow> bool" where
  "process_allowed defined (Step i ret) p \<longleftrightarrow> (case threads p ! i of Running at \<Rightarrow> i < length (threads p) \<longrightarrow> defined at | _ \<Rightarrow> True)"
| "process_allowed defined (Irq sig) p \<longleftrightarrow> allowed (Signal sig) (stack p)"
| "process_allowed defined _ p \<longleftrightarrow> True"

text \<open>A step keeps the invariant, and the stack keeps its event handlers.\<close>

definition process_kept :: "'p code \<Rightarrow> ('p \<Rightarrow> bool) \<Rightarrow> ('p, 'z tcp_scheme) process \<Rightarrow> ('p, 'z tcp_scheme) process \<Rightarrow> bool" where
  "process_kept code ok p p' \<longleftrightarrow> process_ok code ok p' \<and> events (stack p') = events (stack p)"

lemma process_kept_thread:
  assumes "process_ok code ok p" "thread_ok code ok t" "sys_step (stack p) s"
  shows "process_kept code ok p (put_thread i t (p\<lparr>stack := s\<rparr>))"
  using assms set_update_subset_insert [of "threads p" i t] by (auto simp: process_kept_def process_ok_def put_thread_def sys_step_def)

lemma process_kept_same: "process_ok code ok p \<Longrightarrow> thread_ok code ok t \<Longrightarrow> process_kept code ok p (put_thread i t p)"
  using process_kept_thread [of code ok p t "stack p" i] by (simp add: process_ok_def sys_step_def)

lemma call_step_ok:
  assumes "process_ok code ok p" "ok at" "code flag order at = Some (Call x k)" "act_ok ok (Call x k)"
    and "\<exists>c s'. perform y (stack p) = Some (c, s') \<and> sys_step (stack p) s' \<and> outcome_ok x c"
  shows "\<exists>p'. call_step i y k p = Some p' \<and> process_kept code ok p p'"
proof -
  obtain c s' where c: "perform y (stack p) = Some (c, s')" "sys_step (stack p) s'" "outcome_ok x c" using assms(5) by blast
  show ?thesis
  proof (cases c)
    case (Inl v)
    then obtain at' where "k v = Some at'" "ok at'" using assms(4) c(3) by (auto simp: act_ok_def)
    then show ?thesis using Inl c process_kept_thread [OF assms(1) _ c(2)] by (simp add: call_step_def)
  next
    case (Inr wake)
    then have "thread_ok code ok (Blocked wake k)" using assms(2,3) c(3) by auto
    then show ?thesis using Inr c process_kept_thread [OF assms(1) _ c(2)] by (simp add: call_step_def)
  qed
qed

lemma act_step_ok:
  assumes "process_ok code ok p" "ok at" "code flag order at = Some a" "act_ok ok a"
  shows "\<exists>p'. act_step i ret a p = Some p' \<and> process_kept code ok p p'"
proof (cases a)
  case (Call x k)
  moreover have "sys_ok (stack p)" using assms(1) by (simp add: process_ok_def)
  moreover have "call_ok x" using Call assms(4) by (simp add: act_ok_def)
  ultimately show ?thesis
    using call_step_ok [OF assms(1,2), of flag order x k x i] perform_ok [of "stack p" x] assms(3,4) by (simp add: act_step_def)
next
  case (Shutdown at)
  moreover obtain s' where "net_shutdown (stack p) = Some s'" "sys_step (stack p) s'"
    using net_shutdown_ok assms(1) by (auto simp: process_ok_def)
  ultimately show ?thesis using process_kept_thread [OF assms(1)] assms(4) by (simp add: act_ok_def act_step_def)
next
  case (Spawn start k)
  then have "process_kept code ok p (put_thread i (Running (k ret (length (threads p)))) p)" using process_kept_same [OF assms(1)] assms(4) by (simp add: act_ok_def)
  then show ?thesis using Spawn assms(4) by (auto simp: act_step_def act_ok_def process_kept_def process_ok_def Let_def)
next
  case (Exit v)
  then show ?thesis using assms(1) by (simp add: act_step_def process_kept_def process_ok_def)
qed (use assms process_kept_same [OF assms(1)] in \<open>auto simp: act_step_def act_ok_def process_kept_def\<close>)

text \<open>
  The contract of a program: at a point with the invariant it is defined, unless that is one where it is not, and what it does there is as
  stated above.
\<close>

locale safe_program =
  fixes handler :: sigint and code :: "'p code" and ok :: "'p \<Rightarrow> bool" and defined :: "'p \<Rightarrow> bool"
  assumes act_defined: "ok at \<Longrightarrow> defined at \<Longrightarrow> code flag order at \<noteq> None"
    and act_safe: "ok at \<Longrightarrow> code flag order at = Some a \<Longrightarrow> act_ok ok a"
begin

lemma thread_step_ok:
  assumes "process_ok code ok p" "process_allowed defined (Step i ret) p"
  shows "\<exists>p'. thread_step code i ret p = Some p' \<and> process_kept code ok p p'"
proof (cases "i < length (threads p)")
  case True
  then have t: "thread_ok code ok (threads p ! i)" and s: "sys_ok (stack p)" using assms(1) by (simp_all add: process_ok_def)
  show ?thesis
  proof (cases "threads p ! i")
    case (Running at)
    then obtain a where "code (terminate p) (host_order (stack p)) at = Some a" "ok at"
      using act_defined [of at] t assms(2) True by fastforce
    then show ?thesis using Running True act_step_ok [OF assms(1)] act_safe by (simp add: thread_step_def)
  next
    case (Blocked wake k)
    then obtain flag order at x where at: "ok at" "code flag order at = Some (Call x k)" "waits x wake" using t by auto
    then show ?thesis
      using Blocked True call_step_ok [OF assms(1) at(1,2) act_safe [OF at(1,2)] perform_waiting [OF s at(3)]] by (simp add: thread_step_def)
  qed (use assms(1) in \<open>simp add: thread_step_def process_kept_def\<close>)
qed (use assms(1) in \<open>simp add: thread_step_def process_kept_def\<close>)

lemma process_exec_ok:
  assumes "process_ok code ok p" "process_allowed defined x p"
  shows "\<exists>p'. process_exec handler code x p = Some p' \<and> process_kept code ok p p'"
proof -
  have s: "sys_ok (stack p)" using assms(1) by (simp add: process_ok_def)
  have upd: "process_kept code ok p (p\<lparr>stack := s\<rparr>)" if "sys_step (stack p) s" for s
    using assms(1) that by (simp add: process_kept_def process_ok_def sys_step_def)
  have same: "process_kept code ok p p" using assms(1) by (simp add: process_kept_def)
  show ?thesis
  proof (cases x)
    case (Step i ret)
    then show ?thesis using same thread_step_ok assms by (auto simp: process_exec_def)
  next
    case Sigint
    then show ?thesis
      using assms(1) sys_ok_below(1) [OF s]
      by (auto simp: process_exec_def on_signal_def process_kept_def process_ok_def net_raise_event_def intr_raise_irq_def split: sigint.split)
  next
    case (Frame dev e)
    then show ?thesis using same upd exec_sys_step [OF s, of "Arrival dev e"] by (auto simp: process_exec_def)
  next
    case (Irq sig)
    then show ?thesis using assms same upd exec_sys_step [OF s, of "Signal sig"] by (auto simp: process_exec_def)
  qed
qed

end

sublocale safe_program \<subseteq> safe_steps "process_exec handler code" "process_allowed defined" "process_ok code ok"
  by unfold_locales (use process_exec_ok in \<open>auto simp: process_kept_def\<close>)

sublocale safe_program \<subseteq> wired: safe_steps "process_exec handler code" "process_allowed defined" "\<lambda>p. process_ok code ok p \<and> wired (stack p)"
  by unfold_locales (use process_exec_ok in \<open>fastforce simp: process_kept_def wired_def\<close>)

lemma process_of_ok: "sys_ok s \<Longrightarrow> ok at \<Longrightarrow> process_ok code ok (process_of at s)"
  by (simp add: process_ok_def process_of_def)

section \<open>Events end waits\<close>

text \<open>After the event every control block in use is marked as interrupted.\<close>

definition stirred :: "'z tcp_scheme \<Rightarrow> bool" where
  "stirred s \<longleftrightarrow> (\<forall>k < 16. tstate (tcp_pcbs s ! k) \<noteq> TCP_PCB_STATE_FREE \<longrightarrow> interrupted (tctx (tcp_pcbs s ! k))) \<and>
     (\<forall>k < 16. ustate (udp_pcbs s ! k) = UDP_PCB_STATE_OPEN \<longrightarrow> interrupted (uctx (udp_pcbs s ! k)))"

lemma event_stirs:
  assumes "sys_ok s" "wired s"
  shows "\<exists>s'. exec (Signal INTR_IRQ_EVENT) s = Some s' \<and> stirred s'"
proof -
  have "length (tcp_pcbs s) = 16" "length (udp_pcbs s) = 16"
    using tcp_okD(1,3) [OF sys_okD(6) [OF assms(1)]] udp_okD(2) [of s] by simp_all
  then show ?thesis
    using assms(2)
    by (simp add: wired_def intr_signal_def net_event_handler_def signal_defs event_call_def udp_event_handler_def tcp_event_handler_def
        stirred_def sched_interrupt_def)
qed

lemma interrupted_resume: "interrupted c \<Longrightarrow> fst (sched_sleep_resume ret c) = -1"
  by (simp add: sched_sleep_resume_def Let_def)

lemma upd_tcp_pcb_nth: "k < length (tcp_pcbs s) \<Longrightarrow> tcp_pcbs (upd_tcp_pcb k f s) ! k = f (tcp_pcbs s ! k)"
  by (simp add: upd_tcp_pcb_def)

text \<open>A TCP call that waits fails when it goes on after an event; a send returns what it has sent until then.\<close>

lemma stirred_resumes:
  assumes "stirred s" "sys_ok s" "k < 16"
  shows "st \<noteq> TCP_PCB_STATE_FREE \<Longrightarrow> \<exists>s'. perform (Tcp_open_wake k st ret) s = Some (Inl (Value (-1)), s')"
    and "\<exists>s'. perform (Tcp_receive_wake k ret sz) s = Some (Inl (Received (-1) []), s')"
    and "\<exists>n s'. perform (Tcp_send_wake k ret data len sent) s = Some (Inl (Value n), s')"
proof -
  have len: "length (tcp_pcbs s) = 16" using tcp_okD(3) [OF sys_okD(6) [OF assms(2)]] by simp
  obtain err c where sl: "sched_sleep_resume ret (tctx (tcp_pcbs s ! k)) = (err, c)" by fastforce
  have cases: "tstate (tcp_pcbs s ! k) = TCP_PCB_STATE_FREE \<or> err = -1"
    using interrupted_resume [of "tctx (tcp_pcbs s ! k)" ret] assms(1,3) sl by (auto simp: stirred_def)
  show "st \<noteq> TCP_PCB_STATE_FREE \<Longrightarrow> \<exists>s'. perform (Tcp_open_wake k st ret) s = Some (Inl (Value (-1)), s')"
    using cases sl len assms(3) by (auto simp: tcp_open_resume_def tcp_open_loop_def upd_tcp_pcb_nth Let_def)
  show "\<exists>s'. perform (Tcp_receive_wake k ret sz) s = Some (Inl (Received (-1) []), s')"
    using cases sl len assms(3) by (auto simp: tcp_receive_resume_def tcp_recv_retry_def upd_tcp_pcb_nth Let_def)
  show "\<exists>n s'. perform (Tcp_send_wake k ret data len sent) s = Some (Inl (Value n), s')"
    using cases sl len assms(3) by (auto simp: tcp_send_resume_def tcp_send_retry_def upd_tcp_pcb_nth Let_def)
qed

text \<open>A send that starts after the event does not wait.\<close>

lemma stirred_send:
  assumes "stirred s" "sys_ok s" "len \<le> length data"
  shows "\<exists>n s'. perform (Tcp_send i data len) s = Some (Inl (Value n), s')"
proof (cases "tcp_pcb_get i s")
  case None
  then show ?thesis by (simp add: tcp_send_def)
next
  case (Some k)
  have ok: "tcp_ok s" "mtu_ok s" using assms(2) by (simp_all add: sys_ok_def intr_ok_def)
  have k: "k < 16" using tcp_pcb_get_less [OF Some ok(1)] .
  obtain res s' where "tcp_send_retry k data len 0 s = Some (res, s')" "send_returns k s res"
    using tcp_send_retry_total [OF ok k assms(3), of 0] by auto
  moreover have "interrupted (tctx (tcp_pcbs s ! k))"
    using assms(1) k Some by (auto simp: stirred_def tcp_pcb_get_def split: if_splits)
  ultimately show ?thesis using Some by (auto simp: tcp_send_def send_returns_def)
qed

text \<open>A program without calls of \<^verbatim>\<open>pthread_create\<close> and without threads that return keeps the thread that it starts with.\<close>

definition one_thread :: "('p, 's) process \<Rightarrow> bool" where
  "one_thread p \<longleftrightarrow> (\<exists>t. threads p = [t] \<and> t \<noteq> Ended)"

definition sequential :: "'p code \<Rightarrow> bool" where
  "sequential code \<longleftrightarrow> (\<forall>flag order at start k. code flag order at \<noteq> Some (Spawn start k) \<and> code flag order at \<noteq> Some Return)"

lemma one_thread_fields [simp]: "one_thread (p\<lparr>status := v\<rparr>) = one_thread p" "one_thread (p\<lparr>stack := s\<rparr>) = one_thread p"
  by (simp_all add: one_thread_def)

lemma one_thread_put: "one_thread p \<Longrightarrow> t \<noteq> Ended \<Longrightarrow> one_thread (put_thread i t (p\<lparr>stack := s\<rparr>))" "one_thread p \<Longrightarrow> t \<noteq> Ended \<Longrightarrow> one_thread (put_thread i t p)"
  by (auto simp: one_thread_def put_thread_def split: nat.split)

lemma call_stepE:
  assumes "call_step i x k p = Some p'"
  obtains (returns) v at s where "perform x (stack p) = Some (Inl v, s)" "k v = Some at" "p' = put_thread i (Running at) (p\<lparr>stack := s\<rparr>)"
  | (waits) wake s where "perform x (stack p) = Some (Inr wake, s)" "p' = put_thread i (Blocked wake k) (p\<lparr>stack := s\<rparr>)"
  using assms by (cases "perform x (stack p)") (auto simp: call_step_def bind_eq_Some_conv split: sum.splits)

lemma call_step_one: "call_step i x k p = Some p' \<Longrightarrow> one_thread p \<Longrightarrow> one_thread p'"
  by (erule call_stepE) (auto simp: one_thread_put)

lemma act_step_one: "act_step i ret a p = Some p' \<Longrightarrow> \<forall>start k. a \<noteq> Spawn start k \<Longrightarrow> a \<noteq> Return \<Longrightarrow> one_thread p \<Longrightarrow> one_thread p'"
  by (cases a) (auto simp: act_step_def bind_eq_Some_conv one_thread_put dest: call_step_one split: if_splits)

lemma process_exec_one:
  assumes "process_exec h code x p = Some p'" "sequential code" "one_thread p"
  shows "one_thread p'"
proof -
  have "one_thread p'" if "thread_step code i ret p = Some p'" for i ret
    using that assms(2,3) act_step_one [of i ret _ p p'] call_step_one [of i _ _ p p']
    by (fastforce simp: thread_step_def sequential_def bind_eq_Some_conv split: if_splits thread.splits)
  then show ?thesis
    using assms(1,3) by (cases x) (auto simp: process_exec_def on_signal_def bind_eq_Some_conv one_thread_def split: if_splits sigint.splits)
qed

lemma runs_one:
  assumes "runs (process_exec h code) allow p xs p'" "sequential code" "one_thread p"
  shows "one_thread p'"
  using assms by induction (auto dest: process_exec_one)

text \<open>Calls that cannot wait, and processes that have ended.\<close>

lemma perform_returns:
  assumes "sys_ok s" "call_ok x" "\<And>wake. \<not> waits x wake"
  shows "\<exists>v s'. perform x s = Some (Inl v, s') \<and> sys_step s s' \<and> result_ok x v"
proof -
  obtain c s' where c: "perform x s = Some (c, s')" "sys_step s s'" "outcome_ok x c" using perform_ok [OF assms(1,2)] by blast
  then show ?thesis using assms(3) by (cases c) auto
qed

inductive_simps waits_close [simp]: "waits (Tcp_close i) wake" "waits (Udp_close i) wake" "waits Udp_open wake" "waits (Udp_bind i local) wake"
  "waits (Udp_sendto i data len foreign) wake" "waits (Ip_output protocol data len src dst) wake"
  "waits (Icmp_output type code vals data len src dst) wake" "waits (Udp_output src dst data len) wake"

lemma runs_ended: "status p \<noteq> None \<Longrightarrow> runs (process_exec h code) (process_allowed (\<lambda>_. True)) p (map (Step i) rets) p"
  by (induction rets) (auto simp: process_exec_def intro: runs.intros split: thread.split)

section \<open>Endpoints in text\<close>

lemma endpoint_value:
  assumes "0 < n" "n \<le> 65535"
  shows "ip_endpoint_pton h (dotted a b c d @ CHR '':'' # fmt_d n) e = Some (0, \<lparr>ep_addr = load32 h a b c d, ep_port = hton16 h (mk16 n)\<rparr>)"
proof -
  have "strtol 10 (fmt_d n) = (int n, [])" using strtol_fmt_d [of "[]" n] assms(2) by (simp add: LONG_MAX_def)
  moreover have "length (dotted a b c d) < 16" using length_dotted [of a b c d] by simp
  ultimately show ?thesis using assms
    by (simp add: ip_endpoint_pton_def strrchr_append colon_notin_fmt_d ip_addr_pton_dotted IP_ADDR_STR_LEN_def)
qed

lemma endpoint_texts:
  "ip_endpoint_pton h ''0.0.0.0:7'' e = Some (0, \<lparr>ep_addr = load32 h 0 0 0 0, ep_port = hton16 h (mk16 7)\<rparr>)"
  "ip_endpoint_pton h ''192.168.70.2:7'' e = Some (0, \<lparr>ep_addr = load32 h 192 168 70 2, ep_port = hton16 h (mk16 7)\<rparr>)"
  "ip_endpoint_pton h ''192.168.70.2:80'' e = Some (0, \<lparr>ep_addr = load32 h 192 168 70 2, ep_port = hton16 h (mk16 80)\<rparr>)"
  "ip_endpoint_pton h ''192.168.70.1:10007'' e = Some (0, \<lparr>ep_addr = load32 h 192 168 70 1, ep_port = hton16 h (mk16 10007)\<rparr>)"
  "ip_endpoint_pton h ''127.0.0.1:10000'' e = Some (0, \<lparr>ep_addr = load32 h 127 0 0 1, ep_port = hton16 h (mk16 10000)\<rparr>)"
  "ip_endpoint_pton h ''127.0.0.1:7'' e = Some (0, \<lparr>ep_addr = load32 h 127 0 0 1, ep_port = hton16 h (mk16 7)\<rparr>)"
proof -
  have t: "''0.0.0.0:7'' = dotted 0 0 0 0 @ CHR '':'' # fmt_d 7" "''192.168.70.2:7'' = dotted 192 168 70 2 @ CHR '':'' # fmt_d 7"
    "''192.168.70.2:80'' = dotted 192 168 70 2 @ CHR '':'' # fmt_d 80" "''192.168.70.1:10007'' = dotted 192 168 70 1 @ CHR '':'' # fmt_d 10007"
    "''127.0.0.1:10000'' = dotted 127 0 0 1 @ CHR '':'' # fmt_d 10000" "''127.0.0.1:7'' = dotted 127 0 0 1 @ CHR '':'' # fmt_d 7"
    by (simp_all add: dotted_def fmt_d.simps digit_char_def)
  show "ip_endpoint_pton h ''0.0.0.0:7'' e = Some (0, \<lparr>ep_addr = load32 h 0 0 0 0, ep_port = hton16 h (mk16 7)\<rparr>)"
    "ip_endpoint_pton h ''192.168.70.2:7'' e = Some (0, \<lparr>ep_addr = load32 h 192 168 70 2, ep_port = hton16 h (mk16 7)\<rparr>)"
    "ip_endpoint_pton h ''192.168.70.2:80'' e = Some (0, \<lparr>ep_addr = load32 h 192 168 70 2, ep_port = hton16 h (mk16 80)\<rparr>)"
    "ip_endpoint_pton h ''192.168.70.1:10007'' e = Some (0, \<lparr>ep_addr = load32 h 192 168 70 1, ep_port = hton16 h (mk16 10007)\<rparr>)"
    "ip_endpoint_pton h ''127.0.0.1:10000'' e = Some (0, \<lparr>ep_addr = load32 h 127 0 0 1, ep_port = hton16 h (mk16 10000)\<rparr>)"
    "ip_endpoint_pton h ''127.0.0.1:7'' e = Some (0, \<lparr>ep_addr = load32 h 127 0 0 1, ep_port = hton16 h (mk16 7)\<rparr>)"
    unfolding t by (rule endpoint_value; simp)+
qed

end
