(* ===== verification/Hexdump.thy ===== *)
theory Hexdump
  imports Libc
begin

text \<open>
  The log of \<^verbatim>\<open>util.c\<close>: \<^verbatim>\<open>lprintf\<close> and \<^verbatim>\<open>hexdump\<close>, as functions to the text that they write. A read outside
  the data and an overflow of the \<^verbatim>\<open>int\<close> offset make \<^verbatim>\<open>hexdump\<close> undefined. The main result is that
  a dump loses nothing: the bytes can be read back from the text.
\<close>

section \<open>Formats\<close>

text \<open>\<^verbatim>\<open>%x\<close> of an unsigned value, and the padding of a width as in \<^verbatim>\<open>%04x\<close>.\<close>

fun fmt_x :: "nat \<Rightarrow> string" where
  "fmt_x n = (if n < 16 then [digit_char n] else fmt_x (n div 16) @ [digit_char (n mod 16)])"

declare fmt_x.simps [simp del]

definition pad0 :: "nat \<Rightarrow> string \<Rightarrow> string" where
  "pad0 w s = replicate (w - length s) CHR ''0'' @ s"

definition newline :: string where
  "newline = [CHR 0x0A]"

text \<open>\<^verbatim>\<open>isascii\<close>, and \<^verbatim>\<open>isprint\<close> in the C locale.\<close>

definition isascii :: "u8 \<Rightarrow> bool" where
  "isascii b \<longleftrightarrow> unat b < 128"

definition isprint :: "u8 \<Rightarrow> bool" where
  "isprint b \<longleftrightarrow> 32 \<le> unat b \<and> unat b < 127"

text \<open>Sums of type \<^verbatim>\<open>int\<close>, undefined where they overflow, and the conversion of a size to it.\<close>

definition INT_MAX :: int where
  "INT_MAX = 2147483647"

definition int_add :: "int \<Rightarrow> int \<Rightarrow> int option" where
  "int_add a b = (if a + b \<le> INT_MAX \<and> - INT_MAX - 1 \<le> a + b then Some (a + b) else None)"

definition int_of_size :: "nat \<Rightarrow> int" where
  "int_of_size n = sint (of_nat n :: 32 word)"

section \<open>The log\<close>

text \<open>
  A line of the log. The time of day as text comes from \<^verbatim>\<open>strftime\<close>, and the message from the format and
  the arguments of the caller; both are arguments here. The value is the sum of what the calls of \<^verbatim>\<open>fprintf\<close> return.
\<close>

definition lprintf :: "string \<Rightarrow> timeval \<Rightarrow> char \<Rightarrow> string \<Rightarrow> nat \<Rightarrow> string \<Rightarrow> string \<Rightarrow> int \<times> string" where
  "lprintf stamp tv level file line func msg =
     (let a = stamp @ ''.'' @ pad0 3 (fmt_d (nat (tv_usec tv div 1000))) @ '' ['' @ [level] @ ''] '' @ func @ '': '';
          b = msg;
          c = '' ('' @ file @ '':'' @ fmt_d line @ '')'' @ newline
      in (int (length a) + int (length b) + int (length c), a @ b @ c))"

text \<open>One call of \<^verbatim>\<open>fprintf\<close> per cell of the loops over \<^verbatim>\<open>index\<close>.\<close>

definition hex_cell :: "bytes \<Rightarrow> int \<Rightarrow> int \<Rightarrow> nat \<Rightarrow> string option" where
  "hex_cell src sz offset index = do {
     i \<leftarrow> int_add offset (int index);
     if i < sz then do { b \<leftarrow> rd8 src (nat i); Some (fmt_02x b @ '' '') } else Some ''   ''
   }"

definition char_cell :: "bytes \<Rightarrow> int \<Rightarrow> int \<Rightarrow> nat \<Rightarrow> string option" where
  "char_cell src sz offset index = do {
     i \<leftarrow> int_add offset (int index);
     if i < sz then do { b \<leftarrow> rd8 src (nat i); Some (if isascii b \<and> isprint b then [char_of (unat b)] else ''.'') } else Some '' ''
   }"

fun print_cells :: "(nat \<Rightarrow> string option) \<Rightarrow> nat list \<Rightarrow> string option" where
  "print_cells cell [] = Some []"
| "print_cells cell (index # rest) = do { a \<leftarrow> cell index; b \<leftarrow> print_cells cell rest; Some (a @ b) }"

definition dump_rule :: string where
  "dump_rule = ''+------+-------------------------------------------------+------------------+'' @ newline"

function hexdump_loop :: "bytes \<Rightarrow> int \<Rightarrow> int \<Rightarrow> string option" where
  "hexdump_loop src sz offset =
     (if offset < sz
      then do {
        hex \<leftarrow> print_cells (hex_cell src sz offset) [0 ..< 16];
        chars \<leftarrow> print_cells (char_cell src sz offset) [0 ..< 16];
        offset' \<leftarrow> int_add offset 16;
        rest \<leftarrow> hexdump_loop src sz offset';
        Some (''| '' @ pad0 4 (fmt_x (nat offset)) @ '' | '' @ hex @ ''| '' @ chars @ '' |'' @ newline @ rest)
      }
      else Some [])"
  by pat_completeness auto
termination
  by (relation "measure (\<lambda>(src, sz, offset). nat (sz - offset))") (auto simp: int_add_def split: if_splits)

declare hexdump_loop.simps [simp del]

definition hexdump :: "bytes \<Rightarrow> nat \<Rightarrow> string option" where
  "hexdump data sz = do {
     rows \<leftarrow> hexdump_loop data (int_of_size sz) 0;
     Some (dump_rule @ rows @ dump_rule)
   }"

section \<open>Reading a dump\<close>

text \<open>
  The reference: a dump is a sequence of lines of 78 characters, and a line has 16 cells of 3 characters from
  the tenth character on; a cell with two hexadecimal digits stands for a byte.
\<close>

definition read_cell :: "string \<Rightarrow> bytes" where
  "read_cell c =
     (case map digit_val (take 2 c) of
        [Some a, Some b] \<Rightarrow> [mk8 (16 * a + b)]
      | _ \<Rightarrow> [])"

fun read_cells :: "nat \<Rightarrow> string \<Rightarrow> bytes" where
  "read_cells 0 s = []"
| "read_cells (Suc k) s = read_cell (take 3 s) @ read_cells k (drop 3 s)"

function undump :: "string \<Rightarrow> bytes" where
  "undump t = (if length t < 78 then [] else read_cells 16 (drop 9 (take 78 t)) @ undump (drop 78 t))"
  by pat_completeness auto
termination
  by (relation "measure length") auto

declare undump.simps [simp del]

text \<open>A text that a terminal shows as it is: printable characters and ends of lines.\<close>

definition plain :: "string \<Rightarrow> bool" where
  "plain t \<longleftrightarrow> (\<forall>c \<in> set t. c = CHR 0x0A \<or> 32 \<le> (of_char c :: nat) \<and> (of_char c :: nat) < 127)"

lemma plain_append [simp]: "plain (a @ b) \<longleftrightarrow> plain a \<and> plain b"
  by (auto simp: plain_def)

lemma plain_concat: "(\<And>i. i \<in> set xs \<Longrightarrow> plain (f i)) \<Longrightarrow> plain (concat (map f xs))"
  by (auto simp: plain_def)

lemma plain_digits: "set ds \<subseteq> digit_char ` {..<16} \<Longrightarrow> plain ds"
proof -
  have "32 \<le> (of_char (digit_char n) :: nat) \<and> (of_char (digit_char n) :: nat) < 127" if "n < 16" for n
    using less_16_cases [OF that] by (auto simp: digit_char_def)
  then show "set ds \<subseteq> digit_char ` {..<16} \<Longrightarrow> plain ds" by (auto simp: plain_def)
qed

section \<open>The rows of a dump\<close>

lemma print_cells_Some:
  assumes "\<And>i. i \<in> set xs \<Longrightarrow> cell i = Some (f i)"
  shows "print_cells cell xs = Some (concat (map f xs))"
  using assms by (induction xs) auto

lemma fmt_x_digits: "set (fmt_x n) \<subseteq> digit_char ` {..<16}"
proof (induction n rule: fmt_x.induct)
  case (1 n)
  then show ?case by (subst fmt_x.simps) auto
qed

lemma length_fmt_x: "n < 16 ^ k \<Longrightarrow> 0 < k \<Longrightarrow> length (fmt_x n) \<le> k"
proof (induction k arbitrary: n)
  case (Suc k)
  show ?case
  proof (cases "n < 16")
    case True
    then show ?thesis by (subst fmt_x.simps) simp
  next
    case False
    then have "0 < k" using Suc.prems by (cases k) auto
    moreover have "n div 16 < 16 ^ k" using Suc.prems by (simp add: less_mult_imp_div_less mult.commute)
    ultimately show ?thesis using Suc.IH [of "n div 16"] False by (subst fmt_x.simps) simp
  qed
qed simp

lemma pad0_offset:
  assumes "n < 65536"
  shows "length (pad0 4 (fmt_x n)) = 4" "plain (pad0 4 (fmt_x n))"
proof -
  show "length (pad0 4 (fmt_x n)) = 4" using length_fmt_x [of n 4] assms by (simp add: pad0_def)
  have "plain (replicate k CHR ''0'')" for k by (auto simp: plain_def)
  then show "plain (pad0 4 (fmt_x n))" using plain_digits [OF fmt_x_digits [of n]] by (simp add: pad0_def)
qed

text \<open>What the two kinds of cells print.\<close>

definition hex_text :: "bytes \<Rightarrow> nat \<Rightarrow> string" where
  "hex_text bs i = (if i < length bs then fmt_02x (bs ! i) @ '' '' else ''   '')"

definition char_text :: "bytes \<Rightarrow> nat \<Rightarrow> string" where
  "char_text bs i = (if i < length bs then if isascii (bs ! i) \<and> isprint (bs ! i) then [char_of (unat (bs ! i))] else ''.'' else '' '')"

lemma cell_texts:
  assumes "n \<le> length src" "n \<le> 65536" "k0 < n" "i < 16"
  shows "hex_cell src (int n) (int k0) i = Some (hex_text (drop k0 (take n src)) i)"
    and "char_cell src (int n) (int k0) i = Some (char_text (drop k0 (take n src)) i)"
  using assms
  by (auto simp: hex_cell_def char_cell_def hex_text_def char_text_def int_add_def INT_MAX_def rd8_def nat_int_add less_diff_conv add.commute)

lemma length_texts [simp]: "length (hex_text bs i) = 3" "length (char_text bs i) = 1"
  by (simp_all add: hex_text_def char_text_def fmt_02x_def)

lemma fmt_02x_digits: "set (fmt_02x b) \<subseteq> digit_char ` {..<16}"
  using unat_u8_less [of b] by (auto simp: fmt_02x_def less_mult_imp_div_less)

lemma plain_texts [simp]: "plain (hex_text bs i)" "plain (char_text bs i)"
proof -
  show "plain (hex_text bs i)" using plain_digits [OF fmt_02x_digits [of "bs ! i"]] by (simp add: hex_text_def plain_def)
  show "plain (char_text bs i)" by (auto simp: char_text_def isprint_def plain_def)
qed

lemma read_cell_text: "read_cell (hex_text bs i) = (if i < length bs then [bs ! i] else [])"
proof -
  have "unat (bs ! i) div 16 < 16" "unat (bs ! i) mod 16 < 16" using unat_u8_less [of "bs ! i"] by auto
  moreover have "digit_val CHR '' '' = None" by (simp add: digit_val_def)
  ultimately show ?thesis by (simp add: read_cell_def hex_text_def fmt_02x_def digit_val_char mk8_def)
qed

lemma read_cells_concat:
  assumes "\<And>i. length (f i) = 3"
  shows "read_cells (length xs) (concat (map f xs) @ rest) = concat (map (\<lambda>i. read_cell (f i)) xs)"
proof (induction xs)
  case (Cons x xs)
  then show ?case using assms [of x] by simp
qed simp

lemma concat_nth_prefix: "concat (map (\<lambda>i. if i < length bs then [bs ! i] else []) [0 ..< k]) = take k bs"
  by (induction k) (auto simp: take_Suc_conv_app_nth)

lemma length_concat_const: "(\<And>i. length (f i) = c) \<Longrightarrow> length (concat (map f xs)) = c * length xs"
  by (induction xs) auto

definition dump_row :: "bytes \<Rightarrow> nat \<Rightarrow> string" where
  "dump_row bs k0 = ''| '' @ pad0 4 (fmt_x k0) @ '' | '' @ concat (map (hex_text bs) [0 ..< 16]) @ ''| '' @
     concat (map (char_text bs) [0 ..< 16]) @ '' |'' @ newline"

lemma dump_row_props:
  assumes "k0 < 65536"
  shows "length (dump_row bs k0) = 78" "plain (dump_row bs k0)" "undump (dump_row bs k0 @ t) = take 16 bs @ undump t"
proof -
  have c: "length (concat (map (hex_text bs) [0 ..< 16])) = 48" "length (concat (map (char_text bs) [0 ..< 16])) = 16"
    by (simp_all add: length_concat_const [where c = 3] length_concat_const [where c = 1] del: upt_Suc)
  show len: "length (dump_row bs k0) = 78"
    using c pad0_offset(1) [OF assms] unfolding dump_row_def by (simp only: length_append newline_def list.size)
  show "plain (dump_row bs k0)"
    using pad0_offset(2) [OF assms] plain_concat [of "[0 ..< 16]" "hex_text bs"] plain_concat [of "[0 ..< 16]" "char_text bs"]
    unfolding dump_row_def by (simp only: plain_append plain_texts newline_def) (simp add: plain_def)
  have "drop 9 (dump_row bs k0) = concat (map (hex_text bs) [0 ..< 16]) @ ''| '' @ concat (map (char_text bs) [0 ..< 16]) @ '' |'' @ newline"
    using pad0_offset(1) [OF assms] by (simp add: dump_row_def del: upt_Suc)
  then have "read_cells 16 (drop 9 (dump_row bs k0)) = take 16 bs"
    using read_cells_concat [of "hex_text bs" "[0 ..< 16]"] by (simp add: read_cell_text concat_nth_prefix del: upt_Suc)
  then show "undump (dump_row bs k0 @ t) = take 16 bs @ undump t"
    using len by (subst undump.simps) simp
qed

lemma rows_step: "0 < m \<Longrightarrow> (m + 15) div 16 = Suc ((m - 16 + 15) div 16)" for m :: nat
proof (cases "m < 16")
  case True
  then show "0 < m \<Longrightarrow> ?thesis" by (simp add: div_nat_eqI)
next
  case False
  then obtain j where "m = 16 + j" using le_Suc_ex [of 16 m] by auto
  then show ?thesis by (simp add: add.assoc)
qed

lemma hexdump_rows:
  assumes "n \<le> length src" "n \<le> 65536"
  shows "\<exists>t. hexdump_loop src (int n) (int k0) = Some t \<and> undump (t @ u) = drop k0 (take n src) @ undump u \<and> plain t \<and>
    length t = 78 * ((n - k0 + 15) div 16)"
proof (induction "n - k0" arbitrary: k0 rule: less_induct)
  case less
  show ?case
  proof (cases "k0 < n")
    case False
    then show ?thesis using assms by (subst hexdump_loop.simps) (simp add: plain_def)
  next
    case True
    let ?bs = "drop k0 (take n src)"
    have "n - (k0 + 16) < n - k0" using True by simp
    from less [OF this] obtain t where t: "hexdump_loop src (int n) (int k0 + 16) = Some t"
      "undump (t @ u) = drop (k0 + 16) (take n src) @ undump u" "plain t" "length t = 78 * ((n - (k0 + 16) + 15) div 16)" by auto
    have hex: "print_cells (hex_cell src (int n) (int k0)) [0 ..< 16] = Some (concat (map (hex_text ?bs) [0 ..< 16]))"
      using assms True by (intro print_cells_Some cell_texts) auto
    have chars: "print_cells (char_cell src (int n) (int k0)) [0 ..< 16] = Some (concat (map (char_text ?bs) [0 ..< 16]))"
      using assms True by (intro print_cells_Some cell_texts) auto
    have "int_add (int k0) 16 = Some (int k0 + 16)" using True assms(2) by (simp add: int_add_def INT_MAX_def)
    then have loop: "hexdump_loop src (int n) (int k0) = Some (dump_row ?bs k0 @ t)"
      using True t(1) hex chars by (subst hexdump_loop.simps) (simp add: dump_row_def del: upt_Suc)
    have k0: "k0 < 65536" using True assms(2) by simp
    have "take 16 ?bs @ drop (k0 + 16) (take n src) = ?bs"
      by (metis append_take_drop_id drop_drop add.commute)
    moreover have "(n - k0 + 15) div 16 = Suc ((n - (k0 + 16) + 15) div 16)"
      using rows_step [of "n - k0"] True by (simp only: diff_diff_left zero_less_diff)
    then have "length (dump_row ?bs k0 @ t) = 78 * ((n - k0 + 15) div 16)" using dump_row_props(1) [OF k0, of ?bs] t(4)
      by (simp only: length_append mult_Suc_right)
    ultimately show ?thesis using loop dump_row_props(2,3) [OF k0, of ?bs] t(2,3) by simp
  qed
qed

section \<open>Properties\<close>

lemma int_of_size_small: "n < 2147483648 \<Longrightarrow> int_of_size n = int n"
  by (simp add: int_of_size_def signed_of_nat signed_take_bit_int_eq_self)

lemma dump_rule_props:
  "length dump_rule = 78" "plain dump_rule" "undump (dump_rule @ u) = undump u" "undump dump_rule = []"
proof -
  show len: "length dump_rule = 78" by (simp add: dump_rule_def newline_def)
  show "plain dump_rule" by (simp add: dump_rule_def newline_def plain_def)
  have "read_cells 16 (drop 9 dump_rule) = []" by code_simp
  then have *: "undump (dump_rule @ u) = undump u" for u using len by (subst undump.simps) simp
  show "undump (dump_rule @ u) = undump u" by (rule *)
  show "undump dump_rule = []" using * [of "[]"] by (simp add: undump.simps [of "[]"])
qed

lemma hexdump_text:
  assumes "n \<le> length data" "n \<le> 65536"
  shows "\<exists>t. hexdump data n = Some t \<and> undump t = take n data \<and> plain t \<and> length t = 78 * ((n + 15) div 16 + 2)"
proof -
  obtain t where t: "hexdump_loop data (int n) (int 0) = Some t" "undump (t @ dump_rule) = drop 0 (take n data) @ undump dump_rule"
    "plain t" "length t = 78 * ((n - 0 + 15) div 16)" using hexdump_rows [OF assms, of 0 dump_rule] by blast
  note r = dump_rule_props
  have "hexdump data n = Some (dump_rule @ t @ dump_rule)" using t(1) assms(2) int_of_size_small [of n] by (simp add: hexdump_def)
  then show ?thesis using t(2-4) r by simp
qed

text \<open>
  C37. A hex dump is complete and readable. Of at most 64 KiB of data that is really there, the dump is defined; the bytes,
  all of them and in order, can be read back from its text; whatever the data, only printable characters reach the terminal;
  and there is one line of 78 characters for each 16 bytes between the two rules.
\<close>

theorem hexdump_roundtrip:
  assumes "n \<le> length data" "n \<le> 65536"
  shows "\<exists>t. hexdump data n = Some t \<and> undump t = take n data \<and> plain t \<and> length t = 78 * ((n + 15) div 16 + 2)"
  using assms by (rule hexdump_text)

theorem hexdump_roundtrip_witness:
  "\<exists>t. hexdump [0x47, 0x45, 0x54, 0x0A, 0xff] 4 = Some t \<and> undump t = [0x47, 0x45, 0x54, 0x0A] \<and> plain t"
  using hexdump_roundtrip [of 4 "[0x47, 0x45, 0x54, 0x0A, 0xff]"] by simp blast

end
