(* ===== verification/Echo.thy ===== *)
theory Echo
  imports Process Hexdump
begin

text \<open>
  The TCP echo programs \<^verbatim>\<open>test/step25.c\<close>, \<^verbatim>\<open>step27.c\<close> and \<^verbatim>\<open>step28.c\<close>: a task that opens a connection, returns whatever it receives, closes
  the connection and shuts the stack down. All that the safety of the system asks of its callers holds of these programs,
  and \<^verbatim>\<open>SIGINT\<close> ends them.
\<close>

section \<open>The programs\<close>

text \<open>
  The points of the task, with the variables that are still needed: before the open; the head of the loop; before the send; after the loop;
  the cleanup; and the return of \<^verbatim>\<open>main\<close>.
\<close>

datatype echo_point =
  Echo_open bytes | Echo_loop int bytes | Echo_send int bytes nat | Echo_close int | Echo_cleanup | Echo_exit int

definition ECHO_BUFSIZ :: nat where [simp]: "ECHO_BUFSIZ = 2048"

definition echo_opened :: "bytes \<Rightarrow> int \<Rightarrow> echo_point" where
  "echo_opened buf soc = (if soc = -1 then Echo_exit (-1) else Echo_loop soc buf)"

text \<open>What follows \<^verbatim>\<open>tcp_receive\<close>, up to the call of \<^verbatim>\<open>tcp_send\<close>.\<close>

definition echo_received :: "int \<Rightarrow> bytes \<Rightarrow> int \<Rightarrow> bytes \<Rightarrow> echo_point option" where
  "echo_received soc buf ret b =
     (if ret \<le> 0 then Some (Echo_close soc)
      else do {
        let buf = b @ drop (length b) buf;
        _ \<leftarrow> hexdump buf (nat ret);
        Some (Echo_send soc buf (nat ret))
      })"

text \<open>The programs differ in the endpoints; the open is active exactly when a foreign endpoint is given.\<close>

definition echo_code :: "string \<Rightarrow> string option \<Rightarrow> echo_point code" where
  "echo_code local foreign flag h at =
     (case at of
        Echo_open buf \<Rightarrow> do {
          (_, l) \<leftarrow> ip_endpoint_pton h local \<lparr>ep_addr = 0, ep_port = 0\<rparr>;
          f \<leftarrow> (case foreign of
                  None \<Rightarrow> Some None
                | Some f \<Rightarrow> do { (_, f) \<leftarrow> ip_endpoint_pton h f \<lparr>ep_addr = 0, ep_port = 0\<rparr>; Some (Some f) });
          Some (Call (Tcp_open l f (foreign \<noteq> None)) (\<lambda>v. do { soc \<leftarrow> value_of v; Some (echo_opened buf soc) }))
        }
      | Echo_loop soc buf \<Rightarrow>
          Some (if flag then Goto (Echo_close soc)
                else Call (Tcp_receive soc ECHO_BUFSIZ) (\<lambda>v. do { (ret, b) \<leftarrow> received_of v; echo_received soc buf ret b }))
      | Echo_send soc buf n \<Rightarrow> Some (Call (Tcp_send soc buf n) (\<lambda>v. Some (Echo_loop soc buf)))
      | Echo_close soc \<Rightarrow> Some (Call (Tcp_close soc) (\<lambda>v. Some Echo_cleanup))
      | Echo_cleanup \<Rightarrow> Some (Shutdown (Echo_exit 0))
      | Echo_exit v \<Rightarrow> Some (Exit v))"

definition step25 :: "echo_point code" where "step25 = echo_code ''0.0.0.0:7'' None"
definition step28 :: "echo_point code" where "step28 = echo_code ''192.168.70.2:7'' (Some ''192.168.70.1:10007'')"

section \<open>The task keeps to its buffers\<close>

fun echo_ok :: "echo_point \<Rightarrow> bool" where
  "echo_ok (Echo_open buf) \<longleftrightarrow> length buf = ECHO_BUFSIZ"
| "echo_ok (Echo_loop soc buf) \<longleftrightarrow> length buf = ECHO_BUFSIZ"
| "echo_ok (Echo_send soc buf n) \<longleftrightarrow> length buf = ECHO_BUFSIZ \<and> n \<le> ECHO_BUFSIZ"
| "echo_ok _ \<longleftrightarrow> True"

lemma echo_opened_ok [simp]: "length buf = ECHO_BUFSIZ \<Longrightarrow> echo_ok (echo_opened buf soc)"
  by (simp add: echo_opened_def)

lemma echo_received_ok:
  assumes "length buf = ECHO_BUFSIZ" "0 < n \<Longrightarrow> n = int (length b) \<and> length b \<le> ECHO_BUFSIZ"
  shows "\<exists>t. echo_received soc buf n b = Some t \<and> echo_ok t \<and>
    (if 0 < n then t = Echo_send soc (b @ drop (length b) buf) (length b) else t = Echo_close soc)"
proof (cases "n \<le> 0")
  case False
  then have b: "n = int (length b)" "length b \<le> 2048" using assms(2) by auto
  then obtain t where "hexdump (b @ drop (length b) buf) (length b) = Some t"
    using hexdump_text [of "length b" "b @ drop (length b) buf"] by auto
  then show ?thesis using False b assms(1) by (simp add: echo_received_def)
qed (simp add: echo_received_def)

lemma echo_act_safe:
  assumes "echo_ok at" "\<And>e. \<exists>r l. ip_endpoint_pton order local e = Some (r, l)"
    and "\<And>f e. foreign = Some f \<Longrightarrow> \<exists>r l. ip_endpoint_pton order f e = Some (r, l)"
  shows "\<exists>a. echo_code local foreign flag order at = Some a \<and> act_ok echo_ok a"
proof (cases at)
  case (Echo_open buf)
  obtain r l where l: "ip_endpoint_pton order local \<lparr>ep_addr = 0, ep_port = 0\<rparr> = Some (r, l)" using assms(2) by blast
  have "\<exists>g. (case foreign of None \<Rightarrow> Some None
      | Some f \<Rightarrow> do { (_, f) \<leftarrow> ip_endpoint_pton order f \<lparr>ep_addr = 0, ep_port = 0\<rparr>; Some (Some f) }) = Some g \<and> (foreign \<noteq> None \<longrightarrow> g \<noteq> None)"
  proof (cases foreign)
    case (Some f)
    then show ?thesis using assms(3) [OF Some, of "\<lparr>ep_addr = 0, ep_port = 0\<rparr>"] by auto
  qed simp
  then show ?thesis using Echo_open l assms(1) by (auto simp: echo_code_def act_ok_def)
next
  case (Echo_loop soc buf)
  have "\<exists>at. do { (ret, b) \<leftarrow> received_of v; echo_received soc buf ret b } = Some at \<and> echo_ok at" if "result_ok (Tcp_receive soc 2048) v" for v
  proof -
    from that obtain n b where v: "v = Received n b" "0 < n \<Longrightarrow> n = int (length b) \<and> length b \<le> 2048" by auto
    then show ?thesis using echo_received_ok [of buf n b soc] Echo_loop assms(1) by auto
  qed
  then show ?thesis using Echo_loop by (simp add: echo_code_def act_ok_def del: result_ok.simps)
qed (use assms(1) in \<open>auto simp: echo_code_def act_ok_def\<close>)

lemma step25_safe: "echo_ok at \<Longrightarrow> \<exists>a. step25 flag order at = Some a \<and> act_ok echo_ok a"
  unfolding step25_def by (rule echo_act_safe) (auto simp: endpoint_texts)

lemma step28_safe: "echo_ok at \<Longrightarrow> \<exists>a. step28 flag order at = Some a \<and> act_ok echo_ok a"
  unfolding step28_def by (rule echo_act_safe) (auto simp: endpoint_texts)

interpretation step25: safe_program Set_flag_raise step25 echo_ok "\<lambda>_. True"
  by unfold_locales (metis step25_safe option.distinct(1) option.inject)+

interpretation step28: safe_program Set_flag_raise step28 echo_ok "\<lambda>_. True"
  by unfold_locales (metis step28_safe option.distinct(1) option.inject)+

section \<open>The end of the programs\<close>

text \<open>Once the flag is set, the points are left in this order, unless the send waits.\<close>

fun echo_rank :: "echo_point \<Rightarrow> nat" where
  "echo_rank (Echo_exit v) = 1"
| "echo_rank Echo_cleanup = 2"
| "echo_rank (Echo_close soc) = 3"
| "echo_rank (Echo_loop soc buf) = 4"
| "echo_rank _ = 5"

lemma echo_ends:
  assumes "sys_ok (stack p)" "threads p = [Running at]" "terminate p" "status p = None" "echo_rank at \<le> length rets"
    and "\<forall>buf. at \<noteq> Echo_open buf" "\<forall>soc buf n. at = Echo_send soc buf n \<longrightarrow> stirred (stack p) \<and> n \<le> length buf"
  shows "\<exists>p'. runs (process_exec handler (echo_code local foreign)) (process_allowed (\<lambda>_. True)) p (map (Step 0) rets) p' \<and> status p' \<noteq> None"
  using assms
proof (induction rets arbitrary: p at)
  case Nil
  then show ?case by (cases at) simp_all
next
  case (Cons ret rets)
  let ?exec = "process_exec handler (echo_code local foreign)" and ?allow = "process_allowed (\<lambda>_. True)"
  note p = Cons.prems(2-4)
  have ends: "\<exists>p'. runs ?exec ?allow p (map (Step 0) (ret # rets)) p' \<and> status p' \<noteq> None"
    if "?exec (Step 0 ret) p = Some p1" "threads p1 = [Running at1]" "terminate p1" "status p1 = None" "sys_ok (stack p1)"
      "echo_rank at1 < echo_rank at" "\<forall>buf. at1 \<noteq> Echo_open buf" "\<forall>soc buf n. at1 \<noteq> Echo_send soc buf n" for p1 at1
  proof -
    have "echo_rank at1 \<le> length rets" using that(6) Cons.prems(5) by simp
    then show ?thesis using Cons.IH [of p1 at1] that p by (auto simp: runs_Cons)
  qed
  show ?case
  proof (cases at)
    case (Echo_exit v)
    then have "?exec (Step 0 ret) p = Some (p\<lparr>status := Some v\<rparr>)"
      using p by (simp add: process_exec_def thread_step_def act_step_def echo_code_def)
    then show ?thesis using runs_ended [of "p\<lparr>status := Some v\<rparr>"] by (auto simp: runs_Cons p intro!: exI [of _ "p\<lparr>status := Some v\<rparr>"])
  next
    case Echo_cleanup
    obtain s' where "net_shutdown (stack p) = Some s'" "sys_ok s'" using net_shutdown_ok [OF Cons.prems(1)] by (auto simp: sys_step_def)
    then show ?thesis
      using Echo_cleanup p
      by (intro ends [of "p\<lparr>stack := s', threads := [Running (Echo_exit 0)]\<rparr>" "Echo_exit 0"])
        (simp_all add: process_exec_def thread_step_def act_step_def echo_code_def put_thread_def)
  next
    case (Echo_close soc)
    obtain v s' where "perform (Tcp_close soc) (stack p) = Some (Inl v, s')" "sys_ok s'"
      using perform_returns [OF Cons.prems(1), of "Tcp_close soc"] by (auto simp: sys_step_def)
    then show ?thesis
      using Echo_close p
      by (intro ends [of "p\<lparr>stack := s', threads := [Running Echo_cleanup]\<rparr>" Echo_cleanup])
        (simp_all add: process_exec_def thread_step_def act_step_def echo_code_def put_thread_def call_step_def del: perform.simps)
  next
    case (Echo_loop soc buf)
    then show ?thesis
      using p Cons.prems(1)
      by (intro ends [of "p\<lparr>threads := [Running (Echo_close soc)]\<rparr>" "Echo_close soc"])
        (simp_all add: process_exec_def thread_step_def act_step_def echo_code_def put_thread_def)
  next
    case (Echo_send soc buf n)
    then have n: "stirred (stack p)" "n \<le> length buf" using Cons.prems(7) by auto
    obtain m s' where s': "perform (Tcp_send soc buf n) (stack p) = Some (Inl (Value m), s')"
      using stirred_send [OF n(1) Cons.prems(1) n(2)] by blast
    then have "sys_ok s'" using perform_ok [OF Cons.prems(1), of "Tcp_send soc buf n"] n(2) by (auto simp: sys_step_def simp del: perform.simps)
    then show ?thesis
      using Echo_send p s'
      by (intro ends [of "p\<lparr>stack := s', threads := [Running (Echo_loop soc buf)]\<rparr>" "Echo_loop soc buf"])
        (simp_all add: process_exec_def thread_step_def act_step_def echo_code_def put_thread_def call_step_def del: perform.simps)
  qed (use Cons.prems(6) in simp)
qed

lemma echo_sequential: "sequential (echo_code local foreign)"
  by (auto simp: sequential_def echo_code_def bind_eq_Some_conv split: echo_point.splits if_splits)

lemma echo_woken:
  assumes "sys_ok (stack p)" "threads p = [Blocked wake k]" "terminate p" "status p = None" "4 < length rets" "stirred (stack p)"
    and "thread_ok (echo_code local foreign) echo_ok (Blocked wake k)"
  shows "\<exists>p'. runs (process_exec handler (echo_code local foreign)) (process_allowed (\<lambda>_. True)) p (map (Step 0) rets) p' \<and> status p' \<noteq> None"
proof -
  let ?exec = "process_exec handler (echo_code local foreign)"
  obtain ret rets' where rets: "rets = ret # rets'" "4 \<le> length rets'" using assms(5) by (cases rets) auto
  obtain flag order at x where at: "echo_ok at" "echo_code local foreign flag order at = Some (Call x k)" "waits x wake" using assms(7) by auto
  have "\<exists>v s' at'. perform (wake ret) (stack p) = Some (Inl v, s') \<and> k v = Some at' \<and> at' \<in> {Echo_exit (-1)} \<union> range Echo_close \<union> {Echo_loop soc buf |soc buf. True}"
  proof (cases at)
    case (Echo_open buf)
    then obtain l f a where x: "x = Tcp_open l f a" "k = (\<lambda>v. do { soc \<leftarrow> value_of v; Some (echo_opened buf soc) })"
      using at(2) by (auto simp: echo_code_def bind_eq_Some_conv)
    then obtain j st where j: "j < 16" "st \<noteq> TCP_PCB_STATE_FREE" "wake = Tcp_open_wake j st" using at(3) by (auto elim: waits.cases)
    from stirred_resumes(1) [OF assms(6,1) j(1,2), of ret] show ?thesis
      using x(2) j(3) by (auto simp: echo_opened_def simp del: perform.simps)
  next
    case (Echo_loop soc buf)
    then have x: "x = Tcp_receive soc 2048" "k = (\<lambda>v. do { (ret, b) \<leftarrow> received_of v; echo_received soc buf ret b })"
      using at(2) by (auto simp: echo_code_def split: if_splits)
    then obtain j where j: "j < 16" "wake = (\<lambda>ret. Tcp_receive_wake j ret 2048)" using at(3) by (auto elim: waits.cases)
    from stirred_resumes(2) [OF assms(6,1) j(1), of ret 2048] show ?thesis
      using x(2) j(2) by (auto simp: echo_received_def simp del: perform.simps)
  next
    case (Echo_send soc buf n)
    then have x: "x = Tcp_send soc buf n" "k = (\<lambda>v. Some (Echo_loop soc buf))"
      using at(2) by (auto simp: echo_code_def)
    then obtain j sent where j: "j < 16" "wake = (\<lambda>ret. Tcp_send_wake j ret buf n sent)" using at(3) by (auto elim: waits.cases)
    from stirred_resumes(3) [OF assms(6,1) j(1), of ret buf n sent] show ?thesis
      using x(2) j(2) by (auto simp del: perform.simps)
  qed (use at in \<open>auto simp: echo_code_def\<close>)
  then obtain v s' at' where s': "perform (wake ret) (stack p) = Some (Inl v, s')" "k v = Some at'" "echo_rank at' \<le> 4"
    "\<forall>buf. at' \<noteq> Echo_open buf" "\<forall>soc buf n. at' \<noteq> Echo_send soc buf n" by auto
  have "sys_ok s'" using perform_waiting [OF assms(1) at(3), of ret] s'(1) by (auto simp: sys_step_def simp del: perform.simps)
  then have "\<exists>p'. runs ?exec (process_allowed (\<lambda>_. True)) (p\<lparr>stack := s', threads := [Running at']\<rparr>) (map (Step 0) rets') p' \<and> status p' \<noteq> None"
    using assms(3,4) s'(3-5) rets(2) by (intro echo_ends [where at = at']) auto
  moreover have "?exec (Step 0 ret) p = Some (p\<lparr>stack := s', threads := [Running at']\<rparr>)"
    using assms(2,4) s'(1,2) by (simp add: process_exec_def thread_step_def call_step_def put_thread_def)
  ultimately show ?thesis using assms(2) by (auto simp: rets(1) runs_Cons)
qed

lemma echo_reached:
  assumes "process_start s0" "setup_stack s0 = Some (0, s)" "length buf = ECHO_BUFSIZ" "code = step25 \<or> code = step28"
    and "runs (process_exec Set_flag_raise code) (process_allowed (\<lambda>_. True)) (process_of (Echo_open buf) s) xs p"
  shows "process_ok code echo_ok p" "one_thread p" "resources s0 \<Longrightarrow> wired (stack p)"
proof -
  obtain r t where "setup_stack s0 = Some (r, t)" "r = 0 \<longrightarrow> stack_up t" using setup_success [OF assms(1)] by blast
  then have s: "sys_ok s" using assms(2) by (simp add: stack_up_def)
  then have start: "process_ok code echo_ok (process_of (Echo_open buf) s)" using assms(3) by (intro process_of_ok) simp_all
  from assms(4) start show "process_ok code echo_ok p"
    using step25.runs_inv [of _ xs p] step28.runs_inv [of _ xs p] assms(5) by blast
  have "sequential code" using assms(4) echo_sequential by (auto simp: step25_def step28_def)
  from runs_one [OF assms(5) this] show "one_thread p" by (simp add: one_thread_def process_of_def)
  show "wired (stack p)" if "resources s0"
  proof -
    have "wired (stack (process_of (Echo_open buf) s))" using setup_wired(1) [OF assms(1) that assms(2)] by (simp add: process_of_def)
    then show ?thesis using step25.wired.runs_inv [of _ xs p] step28.wired.runs_inv [of _ xs p] assms(4,5) start by blast
  qed
qed

section \<open>Properties\<close>



text \<open>
  The echo programs return what they receive. When bytes have arrived on the connection, one step of the task takes the first of them, as many as
  its buffer holds, and stands before a send of exactly these bytes; what is left stays for the next round.
\<close>

lemma echo_returns_bytes:
  assumes "tcp_ok (stack p)" "length buf = ECHO_BUFSIZ" "tcp_pcb_get soc (stack p) = Some k"
    and "tstate (tcp_pcbs (stack p) ! k) \<in> {TCP_PCB_STATE_ESTABLISHED, TCP_PCB_STATE_CLOSE_WAIT}" "tcp_unread (tcp_pcbs (stack p) ! k) \<noteq> []"
    and "threads p = [Running (Echo_loop soc buf)]" "\<not> terminate p" "status p = None"
  shows "\<exists>buf' n s'. process_exec Set_flag_raise (echo_code local foreign) (Step 0 ret) p =
      Some (p\<lparr>threads := [Running (Echo_send soc buf' n)], stack := s'\<rparr>) \<and>
    take n buf' = take ECHO_BUFSIZ (tcp_unread (tcp_pcbs (stack p) ! k)) \<and> n \<le> length buf' \<and>
    tcp_unread (tcp_pcbs s' ! k) = drop ECHO_BUFSIZ (tcp_unread (tcp_pcbs (stack p) ! k))"
proof -
  let ?u = "tcp_unread (tcp_pcbs (stack p) ! k)" and ?b = "take 2048 (tcp_unread (tcp_pcbs (stack p) ! k))"
  obtain s' where s': "tcp_receive soc 2048 (stack p) = Some (Returned (int (min 2048 (length ?u)), ?b), s')" "tcp_unread (tcp_pcbs s' ! k) = drop 2048 ?u"
    using tcp_receive_ok [OF assms(1,3-5), of 2048] by blast
  have n: "int (min 2048 (length ?u)) = int (length ?b)" "0 < length ?b" using assms(5) by simp_all
  then have "echo_received soc buf (int (length ?b)) ?b = Some (Echo_send soc (?b @ drop (length ?b) buf) (length ?b))"
    using echo_received_ok [OF assms(2), of "int (length ?b)" ?b soc] by (auto split: if_splits)
  then have "process_exec Set_flag_raise (echo_code local foreign) (Step 0 ret) p =
      Some (p\<lparr>threads := [Running (Echo_send soc (?b @ drop (length ?b) buf) (length ?b))], stack := s'\<rparr>)"
    using s' n(1) assms(6-8) by (simp add: process_exec_def thread_step_def act_step_def call_step_def echo_code_def put_thread_def min_def)
  then show ?thesis using s'(2) by (intro exI [of _ "?b @ drop (length ?b) buf"] exI [of _ "length ?b"] exI [of _ s']) (simp add: min_def)
qed

section \<open>Evaluation\<close>



end
