(* ===== verification/Udp_Echo.thy ===== *)
theory Udp_Echo
  imports Process Hexdump
begin

text \<open>
  The UDP echo programs \<^verbatim>\<open>test/step20-1.c\<close> and \<^verbatim>\<open>test/step21.c\<close>: a task that binds port 7 and sends every datagram back to its sender. They
  differ in what they do when a wait is interrupted.
\<close>

section \<open>The programs\<close>

text \<open>
  The points of the task: before \<^verbatim>\<open>udp_open\<close>; before \<^verbatim>\<open>udp_bind\<close>; after its failure; the head of the loop; before \<^verbatim>\<open>udp_sendto\<close>; after the
  loop; the cleanup; and the return of \<^verbatim>\<open>main\<close>. The variables are the buffer, the foreign endpoint and \<^verbatim>\<open>errno\<close>, as it was left by the
  last command that assigned it.
\<close>

record udp_vars =
  ubuf :: bytes
  uforeign :: ip_endpoint
  uerrno :: int

datatype udp_point =
    Uecho_open udp_vars | Uecho_bind int udp_vars | Uecho_bind_failed int
  | Uecho_loop int udp_vars | Uecho_reply int nat udp_vars
  | Uecho_close int | Uecho_cleanup | Uecho_exit int

definition UDP_ECHO_BUFSIZ :: nat where [simp]: "UDP_ECHO_BUFSIZ = 1024"

text \<open>What follows \<^verbatim>\<open>udp_recvfrom\<close>, up to the call of \<^verbatim>\<open>udp_sendto\<close>; only \<^verbatim>\<open>step21.c\<close> looks at \<^verbatim>\<open>errno\<close>.\<close>

definition udp_echo_received :: "bool \<Rightarrow> int \<Rightarrow> udp_vars \<Rightarrow> received \<Rightarrow> udp_point option" where
  "udp_echo_received retry soc vars r =
     (case r of (ret, b, f, e) \<Rightarrow>
        let vars = (case e of None \<Rightarrow> vars | Some e \<Rightarrow> vars\<lparr>uerrno := e\<rparr>) in
        if ret = -1 then Some (if retry \<and> uerrno vars = EINTR then Uecho_loop soc vars else Uecho_close soc)
        else do {
          let vars = vars\<lparr>ubuf := b @ drop (length b) (ubuf vars)\<rparr>;
          let vars = (case f of None \<Rightarrow> vars | Some f \<Rightarrow> vars\<lparr>uforeign := f\<rparr>);
          _ \<leftarrow> hexdump (ubuf vars) (nat ret);
          Some (Uecho_reply soc (nat ret) vars)
        })"

definition udp_echo_code :: "bool \<Rightarrow> udp_point code" where
  "udp_echo_code retry flag h at =
     (case at of
        Uecho_open vars \<Rightarrow> Some (Call Udp_open (\<lambda>v. do {
          soc \<leftarrow> value_of v;
          Some (if soc = -1 then Uecho_exit (-1) else Uecho_bind soc vars)
        }))
      | Uecho_bind soc vars \<Rightarrow> do {
          (_, local) \<leftarrow> ip_endpoint_pton h ''0.0.0.0:7'' \<lparr>ep_addr = 0, ep_port = 0\<rparr>;
          Some (Call (Udp_bind soc local) (\<lambda>v. do {
            r \<leftarrow> value_of v;
            Some (if r = -1 then Uecho_bind_failed soc else Uecho_loop soc vars)
          }))
        }
      | Uecho_bind_failed soc \<Rightarrow> Some (Call (Udp_close soc) (\<lambda>v. Some (Uecho_exit (-1))))
      | Uecho_loop soc vars \<Rightarrow>
          Some (if flag then Goto (Uecho_close soc)
                else Call (Udp_recvfrom soc UDP_ECHO_BUFSIZ) (\<lambda>v. do { r \<leftarrow> received_from_of v; udp_echo_received retry soc vars r }))
      | Uecho_reply soc n vars \<Rightarrow> Some (Call (Udp_sendto soc (ubuf vars) n (uforeign vars)) (\<lambda>v. do {
          r \<leftarrow> value_of v;
          Some (if r = -1 then Uecho_close soc else Uecho_loop soc vars)
        }))
      | Uecho_close soc \<Rightarrow> Some (Call (Udp_close soc) (\<lambda>v. Some Uecho_cleanup))
      | Uecho_cleanup \<Rightarrow> Some (Shutdown (Uecho_exit 0))
      | Uecho_exit v \<Rightarrow> Some (Exit v))"

definition step20_1 :: "udp_point code" where "step20_1 = udp_echo_code False"
definition step21 :: "udp_point code" where "step21 = udp_echo_code True"

section \<open>The task keeps to its buffers\<close>

fun udp_point_ok :: "udp_point \<Rightarrow> bool" where
  "udp_point_ok (Uecho_open vars) \<longleftrightarrow> length (ubuf vars) = UDP_ECHO_BUFSIZ"
| "udp_point_ok (Uecho_bind soc vars) \<longleftrightarrow> length (ubuf vars) = UDP_ECHO_BUFSIZ"
| "udp_point_ok (Uecho_loop soc vars) \<longleftrightarrow> length (ubuf vars) = UDP_ECHO_BUFSIZ"
| "udp_point_ok (Uecho_reply soc n vars) \<longleftrightarrow> length (ubuf vars) = UDP_ECHO_BUFSIZ \<and> n \<le> UDP_ECHO_BUFSIZ"
| "udp_point_ok _ \<longleftrightarrow> True"

lemma udp_echo_received_ok:
  assumes "length (ubuf vars) = UDP_ECHO_BUFSIZ" "n \<noteq> -1 \<longrightarrow> n = int (length b) \<and> length b \<le> UDP_ECHO_BUFSIZ \<and> f \<noteq> None"
  shows "\<exists>at. udp_echo_received retry soc vars (n, b, f, e) = Some at \<and> udp_point_ok at"
proof (cases "n = -1")
  case False
  then have b: "n = int (length b)" "length b \<le> 1024" "f \<noteq> None" using assms(2) by auto
  then obtain t where "hexdump (b @ drop (length b) (ubuf vars)) (length b) = Some t"
    using hexdump_text [of "length b" "b @ drop (length b) (ubuf vars)"] by auto
  then show ?thesis using False b assms(1) by (auto simp: udp_echo_received_def Let_def split: option.split)
qed (use assms(1) in \<open>auto simp: udp_echo_received_def Let_def split: option.split\<close>)

lemma udp_echo_act_safe:
  assumes "udp_point_ok at"
  shows "\<exists>a. udp_echo_code retry flag order at = Some a \<and> act_ok udp_point_ok a"
proof (cases at)
  case (Uecho_loop soc vars)
  have "\<exists>at. do { r \<leftarrow> received_from_of v; udp_echo_received retry soc vars r } = Some at \<and> udp_point_ok at"
    if "result_ok (Udp_recvfrom soc 1024) v" for v
  proof -
    from that obtain n b f e where v: "v = Received_from (n, b, f, e)" "n \<noteq> -1 \<longrightarrow> n = int (length b) \<and> length b \<le> 1024 \<and> f \<noteq> None" by auto
    then show ?thesis using udp_echo_received_ok [of vars n b f retry soc e] Uecho_loop assms by auto
  qed
  then show ?thesis using Uecho_loop by (simp add: udp_echo_code_def act_ok_def del: result_ok.simps)
qed (use assms in \<open>auto simp: udp_echo_code_def act_ok_def endpoint_texts\<close>)

interpretation step20_1: safe_program Set_flag step20_1 udp_point_ok "\<lambda>_. True"
  by unfold_locales (metis udp_echo_act_safe step20_1_def option.distinct(1) option.inject)+

interpretation step21: safe_program Set_flag_raise step21 udp_point_ok "\<lambda>_. True"
  by unfold_locales (metis udp_echo_act_safe step21_def option.distinct(1) option.inject)+

section \<open>Properties\<close>

text \<open>
  C21. The UDP echo programs are safe. Once \<open>setup\<close> has succeeded, the whole program \<open>step20_1\<close> or \<open>step21\<close>, in any interleaving of its task with \<open>SIGINT\<close>, frames of any
  content and the interrupt thread, and with any results of its waits, reaches only states that satisfy the invariant, and whatever happens next is defined. Nothing is assumed
  of the task; of the IP packets that a software interrupt finds, only what the code does not check.
\<close>

theorem udp_echo_program_safe:
  assumes "process_start s0" "setup_stack s0 = Some (0, s)" "length (ubuf vars) = UDP_ECHO_BUFSIZ"
    and "code = step20_1 \<and> handler = Set_flag \<or> code = step21 \<and> handler = Set_flag_raise"
    and "runs (process_exec handler code) (process_allowed (\<lambda>_. True)) (process_of (Uecho_open vars) s) xs p" "process_allowed (\<lambda>_. True) x p"
  shows "process_ok code udp_point_ok p \<and> (\<exists>p'. process_exec handler code x p = Some p' \<and> process_ok code udp_point_ok p')"
proof -
  obtain r t where "setup_stack s0 = Some (r, t)" "r = 0 \<longrightarrow> stack_up t" using setup_success [OF assms(1)] by blast
  then have "process_ok code udp_point_ok (process_of (Uecho_open vars) s)" using assms(2,3) by (intro process_of_ok) (simp_all add: stack_up_def)
  moreover from this have "process_ok code udp_point_ok p"
    using step20_1.runs_inv [of _ xs p] step21.runs_inv [of _ xs p] assms(4,5) by blast
  ultimately show ?thesis using assms(4,6) step20_1.exec_safe step21.exec_safe by blast
qed

lemma udp_sendto_reply:
  assumes "udp_ok s" "udp_pcb_get soc s = Some k" "ep_addr (ulocal (udp_pcbs s ! k)) = IP_ADDR_ANY" "ep_port (ulocal (udp_pcbs s ! k)) = port" "port \<noteq> 0"
    and "ip_route_get_iface (ep_addr src) s = Some iface" "n \<le> length buf" "n \<le> 65507"
  shows "\<exists>r s'. ip_output IP_PROTOCOL_UDP (udp_segment (host_order s) \<lparr>ep_addr = unicast iface, ep_port = port\<rparr> src (take n buf)) (8 + n)
      (unicast iface) (ep_addr src) s = Some (r, s') \<and> udp_sendto soc buf n src s = Some (if r = -1 then -1 else int n, s')"
proof -
  let ?me = "\<lparr>ep_addr = unicast iface, ep_port = port\<rparr>"
  have "udp_sendto soc buf n src s = udp_output ?me src buf n s" using assms(2-6) by (simp add: udp_sendto_def Let_def)
  moreover obtain r s' where "udp_output ?me src buf n s = Some (r, s')" using udp_output_total [OF assms(1,7)] by blast
  ultimately show ?thesis using udp_output_segment [OF assms(7,8), of ?me src s] by auto
qed


section \<open>Evaluation\<close>

definition udp_vars_example :: udp_vars where
  "udp_vars_example = \<lparr>ubuf = replicate 1024 0, uforeign = \<lparr>ep_addr = 0, ep_port = 0\<rparr>, uerrno = 0\<rparr>"

definition udp_server_example :: tcp where
  "udp_server_example = (tcp_example 0x0A000002 [])\<lparr>udp_pcbs := open_pcb 0 7 # replicate 15 free_pcb\<rparr>"

lemma udp_server_example_ok: "udp_ok udp_server_example"
proof -
  have "tcp_ok (tcp_example 0x0A000002 [])" using tcp_ok_example [of "[]" "0x0A000002"] by simp
  then have "udp_ok (tcp_example 0x0A000002 [])" by (rule tcp_okD(1))
  then have "udp_ok (set_udp_pcb 0 (open_pcb 0 7) (tcp_example 0x0A000002 []))" by (rule udp_ok_set) (simp_all add: upcb_ok_open tcp_example_def udp.defs udp_example_simps)
  moreover have "udp_pcbs (tcp_example 0x0A000002 []) = free_pcb # replicate 15 free_pcb"
    by (simp add: tcp_example_def udp.defs tcp.defs udp_example_def ip.defs eval_nat_numeral)
  then have "set_udp_pcb 0 (open_pcb 0 7) (tcp_example 0x0A000002 []) = udp_server_example" by (simp add: set_udp_pcb_def udp_server_example_def)
  ultimately show ?thesis by simp
qed

theorem udp_echo_program_safe_witness:
  "\<exists>s p'. process_start start_example \<and> setup_stack start_example = Some (0, s) \<and>
     process_exec Set_flag_raise step21 (Step 0 0) ((process_of (Uecho_open udp_vars_example) s)\<lparr>terminate := True, stack := net_raise_event s\<rparr>) = Some p' \<and>
     process_ok step21 udp_point_ok p'"
proof -
  obtain r s where "setup_stack start_example = Some (r, s)" using setup_success [OF start_example_ok] by blast
  then have s: "setup_stack start_example = Some (0, s)" using setup_ready [OF start_example_ok start_example_resources] by simp
  have run: "runs (process_exec Set_flag_raise step21) (process_allowed (\<lambda>_. True)) (process_of (Uecho_open udp_vars_example) s) [Sigint]
      ((process_of (Uecho_open udp_vars_example) s)\<lparr>terminate := True, stack := net_raise_event s\<rparr>)"
    by (simp add: runs_Nil runs_Cons process_exec_def on_signal_def process_of_def)
  have "length (ubuf udp_vars_example) = UDP_ECHO_BUFSIZ" by (simp add: udp_vars_example_def)
  from udp_echo_program_safe [OF start_example_ok s this _ run, of "Step 0 0"] start_example_ok s show ?thesis by (auto simp: process_of_def)
qed


end
