(* ===== verification/Http.thy ===== *)
theory Http
  imports Libc
begin

text \<open>
  The web server of \<^verbatim>\<open>test/static-http-server.c\<close>: \<^verbatim>\<open>uri_decode\<close> and \<^verbatim>\<open>http_handler\<close>. The handler never looks at what
  \<^verbatim>\<open>tcp_send\<close> returns, so that it is a function to the texts that it sends, in their order. The files of the system are
  an argument. The request buffer is an array of characters that \<^verbatim>\<open>strtok\<close> changes; a read or a write outside an
  array is undefined.
\<close>

section \<open>Definitions\<close>

definition NUL :: char where "NUL = CHR 0x00"

definition crlf :: string where "crlf = [CHR 0x0D, CHR 0x0A]"

definition rd_char :: "string \<Rightarrow> nat \<Rightarrow> char option" where
  "rd_char xs i = (if i < length xs then Some (xs ! i) else None)"

definition wr_chars :: "string \<Rightarrow> nat \<Rightarrow> string \<Rightarrow> string option" where
  "wr_chars xs i new = (if i + length new \<le> length xs then Some (take i xs @ new @ drop (i + length new) xs) else None)"

text \<open>The string that starts at a place of an array.\<close>

definition c_string :: "string \<Rightarrow> string" where
  "c_string xs = takeWhile (\<lambda>c. c \<noteq> NUL) xs"

text \<open>
  \<^verbatim>\<open>strtok\<close>, with the place where it goes on as an argument and as a result. It reads on until it finds
  the end of a token, and is undefined when the array has none.
\<close>

definition strtok :: "string \<Rightarrow> string \<Rightarrow> nat \<Rightarrow> (nat option \<times> string \<times> nat) option" where
  "strtok delims buf p =
     (let i = p + length (takeWhile (\<lambda>c. c \<in> set delims) (drop p buf)) in
      if length buf \<le> i then None
      else if buf ! i = NUL then Some (None, buf, i)
      else let j = i + length (takeWhile (\<lambda>c. c \<notin> set delims \<and> c \<noteq> NUL) (drop i buf)) in
           if length buf \<le> j then None
           else if buf ! j = NUL then Some (Some i, buf, j)
           else Some (Some i, buf[j := NUL], j + 1))"

definition MAX_URI_LEN :: nat where [simp]: "MAX_URI_LEN = 512"
definition INDEX :: string where "INDEX = ''index.html''"
definition INDEX_LEN :: nat where [simp]: "INDEX_LEN = 11"

text \<open>A \<^verbatim>\<open>long\<close> converted to a character.\<close>

definition char_of_long :: "int \<Rightarrow> char" where
  "char_of_long v = char_of (nat (v mod 256))"

function uri_decode_loop :: "string \<Rightarrow> nat \<Rightarrow> nat \<Rightarrow> string \<Rightarrow> nat \<Rightarrow> (nat \<times> string) option" where
  "uri_decode_loop src srclen src_i dst dst_i =
     (if src_i < srclen
      then do {
        c \<leftarrow> rd_char src src_i;
        if c = CHR ''%'' \<and> src_i + 2 < srclen
        then do {
          a \<leftarrow> rd_char src (src_i + 1);
          b \<leftarrow> rd_char src (src_i + 2);
          dst \<leftarrow> wr_chars dst dst_i [char_of_long (fst (strtol 16 (c_string [a, b])))];
          uri_decode_loop src srclen (src_i + 3) dst (dst_i + 1)
        }
        else do {
          dst \<leftarrow> wr_chars dst dst_i [c];
          uri_decode_loop src srclen (src_i + 1) dst (dst_i + 1)
        }
      }
      else Some (dst_i, dst))"
  by pat_completeness auto
termination
  by (relation "measure (\<lambda>(src, srclen, src_i, dst, dst_i). srclen - src_i)") auto

declare uri_decode_loop.simps [simp del]

definition uri_decode :: "string \<Rightarrow> nat \<Rightarrow> string \<Rightarrow> (nat \<times> string) option" where
  "uri_decode src srclen dst = uri_decode_loop src srclen 0 dst 0"

definition response_400 :: string where
  "response_400 = ''HTTP/1.1 400 Bad Request'' @ crlf @ ''Content-Length: 0'' @ crlf @ crlf"

definition response_404 :: string where
  "response_404 = ''HTTP/1.1 404 Not Found'' @ crlf @ ''Content-Length: 0'' @ crlf @ crlf"

definition response_414 :: string where
  "response_414 = ''HTTP/1.1 414 URI Too Long'' @ crlf @ ''Content-Length: 0'' @ crlf @ crlf"

definition response_500 :: string where
  "response_500 = ''HTTP/1.1 500 Internal Server Error'' @ crlf @ ''Content-Length: 0'' @ crlf @ crlf"

text \<open>
  What the system tells about a file that can be opened: whether \<^verbatim>\<open>fstat\<close> works, its size, and the
  results of the calls of \<^verbatim>\<open>read\<close>, \<^term>\<open>None\<close> for an error.
\<close>

record web_file =
  fstat_ok :: bool
  st_size :: nat
  reads :: "string option list"

text \<open>The loop that sends the contents; a read of no bytes ends it.\<close>

fun send_body :: "string option list \<Rightarrow> string list" where
  "send_body [] = []"
| "send_body (None # _) = [response_500]"
| "send_body (Some chunk # rest) = (if chunk = [] then [] else chunk # send_body rest)"

definition response_header :: "nat \<Rightarrow> string option" where
  "response_header n = do {
     buf \<leftarrow> wr_chars (replicate 64 NUL) 0 (''HTTP/1.1 200 OK'' @ crlf @ ''Content-Length: '' @ fmt_d n @ crlf @ crlf @ [NUL]);
     Some (c_string buf)
   }"

text \<open>
  Places of the request buffer stand for the pointers into it, and \<open>base\<close> is the address where it lies. The end of the path is
  computed from the third token also when there is none; then it is the null pointer minus one, and the length of
  the path is negative and converted to a huge size.
\<close>

definition http_handler :: "nat \<Rightarrow> (string \<Rightarrow> web_file option) \<Rightarrow> string \<Rightarrow> (string list \<times> string) option" where
  "http_handler base fs reqbuf =
     (if take 4 reqbuf \<noteq> ''GET '' then Some ([], reqbuf)
      else do {
        (_, reqbuf, p) \<leftarrow> strtok '' ?'' reqbuf 0;
        (orig_uri, reqbuf, p) \<leftarrow> strtok '' ?'' reqbuf p;
        (third, reqbuf, p) \<leftarrow> strtok '' ?'' reqbuf p;
        case orig_uri of
          None \<Rightarrow> Some ([response_400], reqbuf)
        | Some u \<Rightarrow> do {
            let orig_uri_len = (case third of None \<Rightarrow> -1 - int (base + u) | Some e \<Rightarrow> int e - 1 - int u);
            if orig_uri_len > int MAX_URI_LEN then Some ([response_414], reqbuf)
            else do {
              (uri_len, uri) \<leftarrow> uri_decode (drop u reqbuf) (size_of_int orig_uri_len) (replicate (MAX_URI_LEN + INDEX_LEN + 1) NUL);
              c \<leftarrow> (if uri_len = 0 then None else rd_char uri (uri_len - 1));
              uri \<leftarrow> (if c = CHR ''/'' then wr_chars uri uri_len (INDEX @ [NUL]) else Some uri);
              case fs (c_string (drop 1 uri)) of
                None \<Rightarrow> Some ([response_404], reqbuf)
              | Some f \<Rightarrow>
                  if \<not> fstat_ok f then Some ([response_404], reqbuf)
                  else do {
                    header \<leftarrow> response_header (st_size f);
                    Some (header # send_body (reads f), reqbuf)
                  }
            }
          }
      })"

section \<open>Bytes and characters\<close>

definition text_of :: "bytes \<Rightarrow> string" where
  "text_of b = map (\<lambda>x. char_of (unat x)) b"

definition bytes_of :: "string \<Rightarrow> bytes" where
  "bytes_of t = map (\<lambda>c. mk8 (of_char c)) t"

lemma text_bytes [simp]: "text_of (bytes_of t) = t" "length (text_of b) = length b" "length (bytes_of t) = length t"
  "text_of (a @ b) = text_of a @ text_of b" "bytes_of (t @ u) = bytes_of t @ bytes_of u"
  by (induction t) (simp_all add: text_of_def bytes_of_def mk8_def unat_of_nat)

lemma text_of_zero [simp]: "text_of (0 # b) = NUL # text_of b"
proof -
  have "char_of (0 :: nat) = NUL" unfolding NUL_def by code_simp
  then show ?thesis by (simp add: text_of_def)
qed

section \<open>Percent encoding\<close>

text \<open>
  The reference: each character of a path is written as it is, when it is not special, or by its code. The first
  component tells which.
\<close>

definition uri_piece :: "bool \<times> char \<Rightarrow> string" where
  "uri_piece p = (if fst p then CHR ''%'' # fmt_02x (mk8 (of_char (snd p))) else [snd p])"

definition uri_text :: "(bool \<times> char) list \<Rightarrow> string" where
  "uri_text ps = concat (map uri_piece ps)"

definition uri_ok :: "bool \<times> char \<Rightarrow> bool" where
  "uri_ok p \<longleftrightarrow> snd p \<noteq> NUL \<and> (fst p \<or> snd p \<notin> {CHR '' '', CHR ''?'', CHR ''%''})"

lemma char_of_long_code: "char_of_long (int (of_char c)) = c"
proof -
  have "(of_char c :: nat) < 256" by simp
  then have "nat (int (of_char c) mod 256) = of_char c" by simp
  then show ?thesis by (simp only: char_of_long_def) simp
qed

lemma hex_no_NUL: "c_string (fmt_02x b) = fmt_02x b"
proof -
  have "digit_char n \<noteq> NUL" if "n < 16" for n
    using less_16_cases [OF that] by (auto simp: digit_char_def NUL_def)
  moreover have "unat b div 16 < 16" "unat b mod 16 < 16" using unat_u8_less [of b] by auto
  ultimately show ?thesis by (simp add: c_string_def fmt_02x_def)
qed

lemma rd_char_append: "rd_char (xs @ c # ys) (length xs) = Some c"
  by (simp add: rd_char_def)

lemma wr_chars_append: "wr_chars (xs @ c # ys) (length xs) [d] = Some ((xs @ [d]) @ ys)"
  by (simp add: wr_chars_def)

lemma uri_piece_coded:
  obtains a b where "uri_piece (True, c) = [CHR ''%'', a, b]" "fst (strtol 16 (c_string [a, b])) = int (of_char c)"
proof -
  let ?b = "mk8 (of_char c)"
  have "fmt_02x ?b = [digit_char (unat ?b div 16), digit_char (unat ?b mod 16)]" by (simp add: fmt_02x_def)
  moreover have "fst (strtol 16 (c_string (fmt_02x ?b))) = int (unat ?b)"
    using strtol_fmt_02x [of "[]" ?b] by (simp add: hex_no_NUL)
  moreover have "unat ?b = of_char c" by (simp add: mk8_def unat_of_nat)
  ultimately show ?thesis using that by (simp add: uri_piece_def)
qed

lemma uri_decode_loop_text:
  assumes "\<forall>p \<in> set ps. uri_ok p" "length ps \<le> length tail"
  shows "uri_decode_loop (pre @ uri_text ps @ rest) (length pre + length (uri_text ps)) (length pre) (out @ tail) (length out) =
    Some (length out + length ps, out @ map snd ps @ drop (length ps) tail)"
  using assms
proof (induction ps arbitrary: pre out tail)
  case Nil
  then show ?case by (simp add: uri_text_def uri_decode_loop.simps)
next
  case (Cons p ps)
  obtain x tail' where tail: "tail = x # tail'" using Cons.prems(2) by (cases tail) auto
  obtain coded c where p: "p = (coded, c)" by (cases p)
  show ?case
  proof (cases coded)
    case True
    obtain a b where ab: "uri_piece (True, c) = [CHR ''%'', a, b]" "fst (strtol 16 (c_string [a, b])) = int (of_char c)"
      by (rule uri_piece_coded)
    have rd: "rd_char (pre @ CHR ''%'' # a # b # ys) (length pre) = Some CHR ''%''"
      "rd_char (pre @ CHR ''%'' # a # b # ys) (length pre + 1) = Some a" "rd_char (pre @ CHR ''%'' # a # b # ys) (length pre + 2) = Some b" for ys
      by (simp_all add: rd_char_def nth_append)
    have "uri_text (p # ps) = CHR ''%'' # a # b # uri_text ps" using ab(1) p True by (simp add: uri_text_def)
    then show ?thesis
      using Cons.IH [of tail' "pre @ [CHR ''%'', a, b]" "out @ [c]"] Cons.prems p tail rd [of "uri_text ps @ rest"]
      by (subst uri_decode_loop.simps) (simp add: ab(2) char_of_long_code wr_chars_append numeral_3_eq_3)
  next
    case False
    then have "uri_text (p # ps) = c # uri_text ps" "c \<noteq> CHR ''%''" using p Cons.prems(1) by (simp_all add: uri_text_def uri_piece_def uri_ok_def)
    then show ?thesis
      using Cons.IH [of tail' "pre @ [c]" "out @ [c]"] Cons.prems p tail
      by (subst uri_decode_loop.simps) (simp add: rd_char_append wr_chars_append)
  qed
qed

lemma uri_decode_text:
  assumes "\<forall>p \<in> set ps. uri_ok p" "length ps \<le> length dst"
  shows "uri_decode (uri_text ps @ rest) (length (uri_text ps)) dst = Some (length ps, map snd ps @ drop (length ps) dst)"
  using uri_decode_loop_text [OF assms, of "[]" rest "[]"] by (simp add: uri_decode_def)

lemma length_uri_text: "length ps \<le> length (uri_text ps)"
proof (induction ps)
  case (Cons p ps)
  then show ?case by (simp add: uri_text_def uri_piece_def)
qed (simp add: uri_text_def)

lemma uri_text_chars: "\<forall>p \<in> set ps. uri_ok p \<Longrightarrow> c \<in> set (uri_text ps) \<Longrightarrow> c \<notin> set '' ?'' \<and> c \<noteq> NUL"
proof -
  have "digit_char n \<notin> set '' ?'' \<and> digit_char n \<noteq> NUL" if "n < 16" for n
    using less_16_cases [OF that] by (auto simp: digit_char_def NUL_def)
  then have "c \<notin> set '' ?'' \<and> c \<noteq> NUL" if "c \<in> set (fmt_02x b)" for b
    using that unat_u8_less [of b] by (auto simp: fmt_02x_def)
  then show "\<forall>p \<in> set ps. uri_ok p \<Longrightarrow> c \<in> set (uri_text ps) \<Longrightarrow> ?thesis"
    by (fastforce simp: uri_text_def uri_piece_def uri_ok_def NUL_def split: if_splits)
qed

section \<open>Tokens\<close>

lemma strtok_token:
  assumes "tok \<noteq> []" "\<forall>c \<in> set tok. c \<notin> set delims \<and> c \<noteq> NUL" "d \<in> set delims" "d \<noteq> NUL"
  shows "strtok delims (pre @ tok @ d # post) (length pre) = Some (Some (length pre), pre @ tok @ NUL # post, length pre + length tok + 1)"
proof -
  obtain t ts where tok: "tok = t # ts" using assms(1) by (cases tok) auto
  then have t: "t \<notin> set delims" "t \<noteq> NUL" using assms(2) by auto
  have "takeWhile (\<lambda>c. c \<notin> set delims \<and> c \<noteq> NUL) (tok @ d # post) = tok"
    using assms(2,3) by (simp add: takeWhile_append)
  then show ?thesis
    using t assms(4) by (simp add: strtok_def tok Let_def nth_append list_update_append)
qed

lemma strtok_end:
  assumes "tok \<noteq> []" "\<forall>c \<in> set tok. c \<notin> set delims \<and> c \<noteq> NUL"
  shows "strtok delims (pre @ tok @ NUL # post) (length pre) = Some (Some (length pre), pre @ tok @ NUL # post, length pre + length tok)"
proof -
  obtain t ts where tok: "tok = t # ts" using assms(1) by (cases tok) auto
  then have t: "t \<notin> set delims" "t \<noteq> NUL" using assms(2) by auto
  have "takeWhile (\<lambda>c. c \<notin> set delims \<and> c \<noteq> NUL) (tok @ NUL # post) = tok"
    using assms(2) by (simp add: takeWhile_append)
  then show ?thesis
    using t by (simp add: strtok_def tok Let_def nth_append)
qed

lemma strtok_last:
  assumes "tok \<noteq> []" "\<forall>c \<in> set tok. c \<notin> set delims \<and> c \<noteq> NUL" "d \<in> set delims \<or> d = NUL"
  shows "\<exists>x p. strtok delims (pre @ tok @ d # post) (length pre) = Some (Some (length pre), pre @ tok @ x # post, p)"
  using strtok_end [OF assms(1,2), of pre post] strtok_token [OF assms(1,2), of d pre post] assms(3) by (cases "d = NUL") auto

section \<open>Requests\<close>

definition http_path :: "string \<Rightarrow> string" where
  "http_path p = (if p = [] \<or> last p = CHR ''/'' then p @ INDEX else p)"

lemma path_of_uri:
  assumes "NUL \<notin> set p" "length p < 512"
  defines "uri \<equiv> CHR ''/'' # p @ replicate (523 - length p) NUL"
  shows "\<exists>uri'. (if uri ! length p = CHR ''/'' then wr_chars uri (Suc (length p)) (INDEX @ [NUL]) else Some uri) = Some uri' \<and>
    c_string (drop 1 uri') = http_path p"
proof -
  have last: "uri ! length p = (if p = [] then CHR ''/'' else last p)"
    by (cases p rule: rev_cases) (auto simp: uri_def nth_append)
  have c: "c_string (xs @ NUL # ys) = xs" if "NUL \<notin> set xs" for xs ys
    using that by (auto simp: c_string_def takeWhile_append)
  have "NUL \<notin> set INDEX" by (simp add: NUL_def INDEX_def)
  then have "NUL \<notin> set (p @ INDEX)" using assms(1) by simp
  show ?thesis
  proof (cases "p = [] \<or> last p = CHR ''/''")
    case True
    have "wr_chars uri (Suc (length p)) (INDEX @ [NUL]) = Some (CHR ''/'' # (p @ INDEX) @ NUL # replicate (512 - length p) NUL)"
      using assms(2) by (simp add: wr_chars_def uri_def INDEX_def)
    then show ?thesis using True last c [OF \<open>NUL \<notin> set (p @ INDEX)\<close>] by (auto simp: http_path_def)
  next
    case False
    have "replicate (523 - length p) NUL = NUL # replicate (522 - length p) NUL"
      using assms(2) by (simp flip: replicate_Suc add: Suc_diff_le)
    then show ?thesis using False last c [OF assms(1)] by (simp add: http_path_def uri_def)
  qed
qed

lemma response_header_text:
  assumes "n < 10 ^ 20"
  shows "response_header n = Some (''HTTP/1.1 200 OK'' @ crlf @ ''Content-Length: '' @ fmt_d n @ crlf @ crlf)"
proof -
  have "digit_char k \<noteq> NUL" if "k < 10" for k
    using less_16_cases [of k] that by (auto simp: digit_char_def NUL_def)
  then have "NUL \<notin> set (fmt_d n)" using decimal_fmt_d [of n] by (force simp: decimal_def)
  moreover have "length (fmt_d n) \<le> 20" using length_fmt_d [of n 20] assms by simp
  ultimately show ?thesis
    by (simp add: response_header_def wr_chars_def c_string_def crlf_def NUL_def takeWhile_append)
qed

definition http_response :: "web_file option \<Rightarrow> string list option" where
  "http_response f =
     (case f of
        None \<Rightarrow> Some [response_404]
      | Some f \<Rightarrow> if \<not> fstat_ok f then Some [response_404]
                 else do { header \<leftarrow> response_header (st_size f); Some (header # send_body (reads f)) })"

lemma http_handler_request:
  assumes ps: "\<forall>p \<in> set ps. uri_ok p" "length (uri_text ps) < 512"
    and tok: "tok \<noteq> []" "\<forall>c \<in> set tok. c \<notin> set '' ?'' \<and> c \<noteq> NUL" "d \<in> set '' ?'' \<or> d = NUL"
  shows "map_option fst (http_handler base fs (''GET /'' @ uri_text ps @ '' '' @ tok @ d # post)) = http_response (fs (http_path (map snd ps)))"
proof -
  define u where "u = uri_text ((False, CHR ''/'') # ps)"
  then have uri: "u = CHR ''/'' # uri_text ps" by (simp add: uri_text_def uri_piece_def)
  have ok: "\<forall>p \<in> set ((False, CHR ''/'') # ps). uri_ok p" using ps(1) by (simp add: uri_ok_def NUL_def)
  have uri0: "u \<noteq> []" "\<forall>c \<in> set u. c \<notin> set '' ?'' \<and> c \<noteq> NUL" using uri uri_text_chars [OF ok] by (auto simp: u_def)
  define g where "g = ''GET'' @ [NUL]"
  then have g: "length g = 4" by simp
  have get: "strtok '' ?'' (''GET'' @ CHR '' '' # ys) 0 = Some (Some 0, g @ ys, 4)" for ys
    using strtok_token [of "''GET''" "'' ?''" "CHR '' ''" "[]" ys] by (simp add: NUL_def g_def)
  have path: "strtok '' ?'' (g @ u @ CHR '' '' # tok @ d # post) 4 = Some (Some 4, g @ u @ NUL # tok @ d # post, 4 + length u + 1)"
    using strtok_token [OF uri0, of "CHR '' ''" g "tok @ d # post"] g by (simp add: NUL_def)
  obtain x p where third: "strtok '' ?'' (g @ u @ NUL # tok @ d # post) (4 + length u + 1) =
      Some (Some (5 + length u), g @ u @ NUL # tok @ x # post, p)"
    using strtok_last [OF tok, of "g @ u @ [NUL]" post] g by auto
  have dec: "uri_decode (u @ NUL # tok @ x # post) (length u) (replicate 524 NUL) =
      Some (Suc (length ps), CHR ''/'' # map snd ps @ replicate (523 - length ps) NUL)"
    using uri_decode_text [OF ok, of "replicate 524 NUL"] length_uri_text [of ps] ps(2) by (simp flip: u_def)
  have "NUL \<notin> set (map snd ps)" "length (map snd ps) < 512"
    using ps length_uri_text [of ps] by (auto simp: uri_ok_def)
  from path_of_uri [OF this, unfolded length_map] obtain uri' where uri':
    "(if (CHR ''/'' # map snd ps @ replicate (523 - length ps) NUL) ! length ps = CHR ''/''
      then wr_chars (CHR ''/'' # map snd ps @ replicate (523 - length ps) NUL) (Suc (length ps)) (INDEX @ [NUL])
      else Some (CHR ''/'' # map snd ps @ replicate (523 - length ps) NUL)) = Some uri'"
    "c_string (drop 1 uri') = http_path (map snd ps)" by blast
  have "''GET /'' @ uri_text ps @ '' '' @ tok @ d # post = ''GET'' @ CHR '' '' # u @ CHR '' '' # tok @ d # post" using uri by simp
  moreover have "size_of_int (1 + int (length (uri_text ps))) = Suc (length (uri_text ps))" using ps(2) by (simp add: size_of_int_def)
  ultimately show ?thesis
    using get path third dec uri' g ps(2) uri
    by (simp add: http_handler_def http_response_def rd_char_def map_option_bind o_def del: One_nat_def split: option.split)
qed

text \<open>What a file system promises of a file: its size, and reads that deliver the contents in pieces, to their end.\<close>

definition file_of :: "string \<Rightarrow> web_file \<Rightarrow> bool" where
  "file_of contents f \<longleftrightarrow> fstat_ok f \<and> st_size f = length contents \<and>
     (\<exists>cs. reads f = map Some cs @ [Some []] \<and> [] \<notin> set cs \<and> concat cs = contents)"

lemma send_body_chunks: "[] \<notin> set cs \<Longrightarrow> send_body (map Some cs @ [Some []]) = cs"
  by (induction cs) auto

lemma http_handler_file:
  assumes "\<forall>p \<in> set ps. uri_ok p" "length (uri_text ps) < 512"
    and "tok \<noteq> []" "\<forall>c \<in> set tok. c \<notin> set '' ?'' \<and> c \<noteq> NUL" "d \<in> set '' ?'' \<or> d = NUL"
    and "request = ''GET /'' @ uri_text ps @ '' '' @ tok @ d # post"
    and "fs (http_path (map snd ps)) = Some f" "file_of contents f" "length contents < 10 ^ 20"
  shows "\<exists>sent buf. http_handler base fs request = Some (sent, buf) \<and>
    concat sent = ''HTTP/1.1 200 OK'' @ crlf @ ''Content-Length: '' @ fmt_d (length contents) @ crlf @ crlf @ contents"
proof -
  obtain cs where "reads f = map Some cs @ [Some []]" "[] \<notin> set cs" "concat cs = contents" using assms(8) by (auto simp: file_of_def)
  then show ?thesis
    using http_handler_request [OF assms(1-5), of base fs post] assms(6-9) response_header_text [of "length contents"]
    by (auto simp: http_response_def file_of_def send_body_chunks)
qed

text \<open>
  The web server serves the file that was asked for. For a request for a path in which special characters, and any
  others, are written by their codes, and which fits into the limit, the handler stays inside its buffers; it asks the system for
  exactly the decoded path, with the name of the index after a directory; without such a file it answers 404; and of a file it
  sends the header with its size followed by its contents, all of them and nothing else.
\<close>

lemma http_serves_file:
  assumes "\<forall>p \<in> set ps. uri_ok p" "length (uri_text ps) < MAX_URI_LEN"
    and "tok \<noteq> []" "\<forall>c \<in> set tok. c \<notin> set '' ?'' \<and> c \<noteq> NUL" "d \<in> set '' ?'' \<or> d = NUL"
    and "request = ''GET /'' @ uri_text ps @ '' '' @ tok @ d # post" "path = http_path (map snd ps)"
  shows "(fs path = None \<longrightarrow> map_option fst (http_handler base fs request) = Some [response_404]) \<and>
    (\<forall>f contents. fs path = Some f \<and> file_of contents f \<and> length contents < 10 ^ 20 \<longrightarrow>
      (\<exists>sent buf. http_handler base fs request = Some (sent, buf) \<and>
         concat sent = ''HTTP/1.1 200 OK'' @ crlf @ ''Content-Length: '' @ fmt_d (length contents) @ crlf @ crlf @ contents))"
  using http_handler_request [OF assms(1) _ assms(3-5), of base fs post] http_handler_file [OF assms(1) _ assms(3-6), of fs _ _ base] assms(2,6,7)
  by (auto simp: http_response_def)

section \<open>A request without a version\<close>

lemma uri_decode_within:
  "uri_decode_loop src srclen i dst j = Some r \<Longrightarrow> i < srclen \<Longrightarrow> srclen \<le> length src"
proof (induction src srclen i dst j rule: uri_decode_loop.induct)
  case (1 src srclen i dst j)
  then show ?case
    using uri_decode_loop.simps [of src srclen i dst j]
    by (cases "srclen \<le> length src") (auto simp: rd_char_def bind_eq_Some_conv split: if_splits, blast+)
qed

text \<open>
  C40. A request line that ends after the path makes the server leave its buffers, wherever the request buffer lies: the length of
  the path is computed from a null pointer, and the decoder reads and writes until it is outside the arrays. Any peer
  can cause this.
\<close>

theorem http_request_overruns:
  assumes "path \<noteq> []" "\<forall>c \<in> set path. c \<notin> set '' ?'' \<and> c \<noteq> NUL" "base + length path + length stale + 5 < 2 ^ 63"
  shows "http_handler base fs (''GET '' @ path @ NUL # stale) = None"
proof -
  define g where "g = ''GET'' @ [NUL]"
  then have g: "length g = 4" by simp
  have get: "strtok '' ?'' (''GET'' @ CHR '' '' # ys) 0 = Some (Some 0, g @ ys, 4)" for ys
    using strtok_token [of "''GET''" "'' ?''" "CHR '' ''" "[]" ys] by (simp add: NUL_def g_def)
  have path: "strtok '' ?'' (g @ path @ NUL # stale) 4 = Some (Some 4, g @ path @ NUL # stale, 4 + length path)"
    using strtok_end [OF assms(1,2), of g stale] g by simp
  have third: "strtok '' ?'' (g @ path @ NUL # stale) (4 + length path) = Some (None, g @ path @ NUL # stale, 4 + length path)"
    using g by (simp add: strtok_def nth_append NUL_def)
  have "(-1 - int (base + 4) + 2 ^ 64) mod 2 ^ 64 = -1 - int (base + 4) + 2 ^ 64" using assms(3) by (intro mod_pos_pos_trivial) auto
  then have "size_of_int (-1 - int (base + 4)) = nat (-1 - int (base + 4) + 2 ^ 64)"
    unfolding size_of_int_def by (simp only: mod_add_self2)
  then have "length (path @ NUL # stale) < size_of_int (-1 - int (base + 4))" using assms(3) by simp
  then have "uri_decode (path @ NUL # stale) (size_of_int (-1 - int (base + 4))) dst = None" for dst
    using uri_decode_within [of "path @ NUL # stale" "size_of_int (-1 - int (base + 4))" 0 dst 0]
    by (cases "uri_decode (path @ NUL # stale) (size_of_int (-1 - int (base + 4))) dst") (auto simp: uri_decode_def)
  then show ?thesis
    using get path third g by (simp add: http_handler_def)
qed

theorem http_request_overruns_witness:
  "http_handler 140737488350000 (\<lambda>_. None) (''GET '' @ ''/x'' @ NUL # replicate 2041 NUL) = None"
  using http_request_overruns [of "''/x''" 140737488350000 "replicate 2041 NUL"] by (simp add: NUL_def)

end
