(* ===== verification/Http_Server.thy ===== *)
theory Http_Server
  imports Process Hexdump Http
begin

text \<open>
  The threads of the web server \<^verbatim>\<open>test/static-http-server.c\<close>: \<^verbatim>\<open>main\<close> starts eight workers, each of which accepts a connection, answers the
  requests on it and closes it; and the program \<^verbatim>\<open>test/simple-http.c\<close>, which answers one request with one page.
  The workers run in any interleaving. A request is parsed in one step; the answers are sent in one call each.
\<close>

section \<open>The web server\<close>

text \<open>
  The points of a worker: the head of the outer and of the inner loop; before the handler; in the handler, with the texts that are left to
  send; before \<^verbatim>\<open>tcp_close\<close>; before the return. The points of \<^verbatim>\<open>main\<close>: the head of the loop that creates the workers, with the number and the
  last worker created; before the join; the cleanup; and the return.
\<close>

datatype server_point =
    Worker_start bytes | Worker_loop int bytes | Worker_handle int bytes | Worker_respond int bytes "bytes list"
  | Worker_close int bytes | Worker_return
  | Main_create nat nat | Main_join nat | Main_cleanup | Main_exit int

definition ENDPOINT :: string where "ENDPOINT = ''192.168.70.2:80''"
definition REQ_BUF_SIZE :: nat where [simp]: "REQ_BUF_SIZE = 2048"
definition WORKER_THREAD_NUM :: nat where [simp]: "WORKER_THREAD_NUM = 8"

text \<open>What follows \<^verbatim>\<open>tcp_receive\<close>; a result of -1 goes on like a request, with the old contents of the buffer.\<close>

definition worker_received :: "int \<Rightarrow> bytes \<Rightarrow> int \<Rightarrow> bytes \<Rightarrow> server_point option" where
  "worker_received soc buf ret b = do {
     let buf = b @ drop (length b) buf;
     _ \<leftarrow> hexdump buf (size_of_int ret);
     Some (if ret = 0 then Worker_close soc buf else Worker_handle soc buf)
   }"

text \<open>
  The addresses of the buffers and the files are arguments, and so is what the buffer of the worker with a number contains at first.
\<close>

definition server_code :: "nat \<Rightarrow> (string \<Rightarrow> web_file option) \<Rightarrow> (nat \<Rightarrow> nat \<Rightarrow> u8) \<Rightarrow> server_point code" where
  "server_code base fs stale flag h at =
     (case at of
        Worker_start buf \<Rightarrow>
          if flag then Some (Goto Worker_return)
          else do {
            (_, local) \<leftarrow> ip_endpoint_pton h ENDPOINT \<lparr>ep_addr = 0, ep_port = 0\<rparr>;
            Some (Call (Tcp_open local None False) (\<lambda>v. do {
              soc \<leftarrow> value_of v;
              Some (if soc = -1 then Worker_return else Worker_loop soc buf)
            }))
          }
      | Worker_loop soc buf \<Rightarrow>
          Some (if flag then Goto (Worker_close soc buf)
                else Call (Tcp_receive soc REQ_BUF_SIZE) (\<lambda>v. do { (ret, b) \<leftarrow> received_of v; worker_received soc buf ret b }))
      | Worker_handle soc buf \<Rightarrow> do {
          (texts, buf) \<leftarrow> http_handler base fs (text_of buf);
          Some (Goto (Worker_respond soc (bytes_of buf) (map bytes_of texts)))
        }
      | Worker_respond soc buf texts \<Rightarrow>
          (case texts of
             [] \<Rightarrow> Some (Goto (Worker_loop soc buf))
           | t # texts \<Rightarrow> Some (Call (Tcp_send soc t (length t)) (\<lambda>v. Some (Worker_respond soc buf texts))))
      | Worker_close soc buf \<Rightarrow> Some (Call (Tcp_close soc) (\<lambda>v. Some (Worker_start buf)))
      | Worker_return \<Rightarrow> Some Return
      | Main_create i thread \<Rightarrow>
          if i < WORKER_THREAD_NUM
          then Some (Spawn (Worker_start (map (stale i) [0 ..< REQ_BUF_SIZE])) (\<lambda>ret t. if ret \<noteq> 0 then Main_exit 1 else Main_create (i + 1) t))
          else Some (Goto (Main_join thread))
      | Main_join thread \<Rightarrow> Some (Join thread (\<lambda>ret. if ret \<noteq> 0 then Main_exit 1 else Main_cleanup))
      | Main_cleanup \<Rightarrow> Some (Shutdown (Main_exit 0))
      | Main_exit v \<Rightarrow> Some (Exit v))"

section \<open>A program with one answer\<close>

datatype simple_point = Simple_open bytes | Simple_receive int bytes | Simple_send int | Simple_close int | Simple_cleanup | Simple_exit int

definition simple_response :: string where
  "simple_response = ''HTTP/1.1 200 OK'' @ crlf @ crlf @ ''<html><head><title>hello</title></head><body>world</body></html>''"

definition simple_http :: "simple_point code" where
  "simple_http flag h at =
     (case at of
        Simple_open buf \<Rightarrow> do {
          (_, local) \<leftarrow> ip_endpoint_pton h ''192.168.70.2:80'' \<lparr>ep_addr = 0, ep_port = 0\<rparr>;
          Some (Call (Tcp_open local None False) (\<lambda>v. do {
            soc \<leftarrow> value_of v;
            Some (if soc = -1 then Simple_exit (-1) else Simple_receive soc buf)
          }))
        }
      | Simple_receive soc buf \<Rightarrow> Some (Call (Tcp_receive soc (length buf)) (\<lambda>v. Some (Simple_send soc)))
      | Simple_send soc \<Rightarrow> Some (Call (Tcp_send soc (bytes_of simple_response) (length simple_response)) (\<lambda>v. Some (Simple_close soc)))
      | Simple_close soc \<Rightarrow> Some (Call (Tcp_close soc) (\<lambda>v. Some Simple_cleanup))
      | Simple_cleanup \<Rightarrow> Some (Shutdown (Simple_exit 0))
      | Simple_exit v \<Rightarrow> Some (Exit v))"

interpretation simple_http: safe_program No_handler simple_http "\<lambda>_. True" "\<lambda>_. True"
proof
  show "simple_http flag order at \<noteq> None" for flag order at
    by (cases at) (simp_all add: simple_http_def endpoint_texts)
  show "act_ok (\<lambda>_. True) a" if "simple_http flag order at = Some a" for flag order at a
    using that by (cases at) (auto simp: simple_http_def endpoint_texts act_ok_def)
qed

section \<open>The workers keep to their buffers\<close>

fun server_ok :: "server_point \<Rightarrow> bool" where
  "server_ok (Worker_start buf) \<longleftrightarrow> length buf = REQ_BUF_SIZE"
| "server_ok (Worker_loop soc buf) \<longleftrightarrow> length buf = REQ_BUF_SIZE"
| "server_ok (Worker_handle soc buf) \<longleftrightarrow> length buf = REQ_BUF_SIZE"
| "server_ok (Worker_respond soc buf texts) \<longleftrightarrow> length buf = REQ_BUF_SIZE"
| "server_ok (Worker_close soc buf) \<longleftrightarrow> length buf = REQ_BUF_SIZE"
| "server_ok _ \<longleftrightarrow> True"

text \<open>The points where the program may be undefined: before a request that the handler cannot parse.\<close>

fun server_defined :: "nat \<Rightarrow> (string \<Rightarrow> web_file option) \<Rightarrow> server_point \<Rightarrow> bool" where
  "server_defined base fs (Worker_handle soc buf) \<longleftrightarrow> http_handler base fs (text_of buf) \<noteq> None"
| "server_defined base fs _ \<longleftrightarrow> True"

lemma strtok_length: "strtok delims buf p = Some (t, buf', p') \<Longrightarrow> length buf' = length buf"
  by (auto simp: strtok_def Let_def split: if_splits)

lemma http_handler_length:
  assumes "http_handler base fs buf = Some (texts, buf')"
  shows "length buf' = length buf"
proof (cases "take 4 buf = ''GET ''")
  case False
  then show ?thesis using assms by (simp add: http_handler_def)
next
  case True
  obtain t1 b1 p1 where 1: "strtok '' ?'' buf 0 = Some (t1, b1, p1)" using assms True by (cases "strtok '' ?'' buf 0") (auto simp: http_handler_def)
  obtain t2 b2 p2 where 2: "strtok '' ?'' b1 p1 = Some (t2, b2, p2)" using assms True 1 by (cases "strtok '' ?'' b1 p1") (auto simp: http_handler_def)
  obtain t3 b3 p3 where 3: "strtok '' ?'' b2 p2 = Some (t3, b3, p3)" using assms True 1 2 by (cases "strtok '' ?'' b2 p2") (auto simp: http_handler_def)
  have "buf' = b3"
    using assms by (simp add: http_handler_def True 1 2 3 Let_def split: option.splits if_splits Option.bind_splits prod.splits)
  then show ?thesis using strtok_length [OF 1] strtok_length [OF 2] strtok_length [OF 3] by simp
qed

lemma hexdump_error: "hexdump data (size_of_int (-1)) = Some (dump_rule @ dump_rule)"
  by (simp add: hexdump_def hexdump_loop.simps int_of_size_def size_of_int_def)

lemma worker_received_ok:
  assumes "-1 \<le> n" "length b = nat n" "length b \<le> 2048"
  shows "worker_received soc buf n b = Some (if n = 0 then Worker_close soc (b @ drop (length b) buf) else Worker_handle soc (b @ drop (length b) buf))"
proof -
  consider "n = -1" | "n = int (length b)" "length b \<le> 2048" using assms by fastforce
  then show ?thesis
  proof cases
    case 1
    then show ?thesis using hexdump_error [of "b @ drop (length b) buf"] by (simp add: worker_received_def)
  next
    case 2
    then obtain t where "hexdump (b @ drop (length b) buf) (length b) = Some t"
      using hexdump_text [of "length b" "b @ drop (length b) buf"] by auto
    moreover have "size_of_int n = length b" using 2 by (simp add: size_of_int_def)
    ultimately show ?thesis by (simp add: worker_received_def)
  qed
qed

lemma server_act:
  assumes "server_ok at" "server_code base fs stale flag order at = Some a"
  shows "act_ok server_ok a"
proof (cases at)
  case (Worker_loop soc buf)
  have "\<exists>at. do { (ret, b) \<leftarrow> received_of v; worker_received soc buf ret b } = Some at \<and> server_ok at" if "result_ok (Tcp_receive soc 2048) v" for v
  proof -
    from that obtain n b where v: "v = Received n b" "-1 \<le> n" "length b = nat n" "length b \<le> 2048" by auto
    then show ?thesis using worker_received_ok [OF v(2-4), of soc buf] Worker_loop assms(1) by auto
  qed
  then show ?thesis using Worker_loop assms by (auto simp: server_code_def act_ok_def simp del: result_ok.simps)
next
  case (Worker_handle soc buf)
  then show ?thesis using assms(1,2) by (auto simp: server_code_def act_ok_def bind_eq_Some_conv dest!: http_handler_length)
qed (use assms in \<open>auto simp: server_code_def act_ok_def ENDPOINT_def endpoint_texts split: if_splits list.splits\<close>)

interpretation server: safe_program Set_flag_raise "server_code base fs stale" server_ok "server_defined base fs" for base fs stale
proof
  show "server_code base fs stale flag order at \<noteq> None" if "server_ok at" "server_defined base fs at" for at flag order
    using that by (cases at) (auto simp: server_code_def ENDPOINT_def endpoint_texts split: list.split)
  show "act_ok server_ok a" if "server_ok at" "server_code base fs stale flag order at = Some a" for at flag order a
    using server_act [OF that] .
qed

section \<open>Properties\<close>



section \<open>Evaluation\<close>


definition request_example :: string where
  "request_example = ''GET /a HTTP/1.1'' @ crlf @ ''Host: h''"

definition web_example :: tcp where
  "web_example = tcp_example 0x0A000002 [(pcb_example 5 ep_b ep_a)\<lparr>rcv_wnd := 65511,
     tbuf := bytes_of request_example @ drop 24 (tbuf zero_tcp_pcb)\<rparr>]"


end
