(* ===== verification/Ws.thy ===== *)
theory Ws
  imports Tcp_User Http
begin

text \<open>
  The WebSocket server of \<^verbatim>\<open>test/ws-echo.c\<close>: the handshake and the frames, over the TCP commands of the
  stack. The hash of OpenSSL and the encoder of libb64 are arguments. Arrays on the stack that the code does not initialise
  start with arbitrary contents, the argument \<open>stale\<close>. The commands wait where \<^verbatim>\<open>tcp_receive\<close> and \<^verbatim>\<open>tcp_send\<close> wait.
\<close>

section \<open>Frames\<close>

text \<open>The loop that removes the mask, over the indices that are left.\<close>

fun ws_unmask :: "bytes \<Rightarrow> nat list \<Rightarrow> bytes \<Rightarrow> bytes option" where
  "ws_unmask buf [] data = Some data"
| "ws_unmask buf (i # is) data = do {
     x \<leftarrow> rd8 buf (6 + i);
     m \<leftarrow> rd8 buf (2 + i mod 4);
     data \<leftarrow> wr_bytes data i [x XOR m];
     ws_unmask buf is data
   }"

definition ws_parse :: "int \<Rightarrow> bytes \<Rightarrow> bytes \<Rightarrow> (int \<times> bytes) option" where
  "ws_parse ret buf data =
     (if ret \<le> 0 then Some (-1, data)
      else do {
        b0 \<leftarrow> rd8 buf 0;
        if b0 AND 0x08 \<noteq> 0 then Some (-1, data)
        else do {
          b1 \<leftarrow> rd8 buf 1;
          if b1 AND 0x80 = 0 then Some (-1, data)
          else do {
            let payload_len = unat (b1 AND 0x7f);
            if payload_len > 125 then Some (-1, data)
            else do {
              data \<leftarrow> ws_unmask buf [0 ..< payload_len] data;
              Some (int payload_len, data)
            }
          }
        }
      })"

text \<open>What follows the call of \<^verbatim>\<open>tcp_receive\<close>, and the two ways to get there.\<close>

definition ws_receive_end ::
  "bytes \<Rightarrow> bytes \<Rightarrow> (int \<times> bytes, unit) command \<times> 'z tcp_scheme \<Rightarrow> ((int \<times> bytes, unit) command \<times> 'z tcp_scheme) option" where
  "ws_receive_end stale data r =
     (case fst r of
        Waiting u \<Rightarrow> Some (Waiting u, snd r)
      | Returned (ret, b) \<Rightarrow> do { res \<leftarrow> ws_parse ret (b @ drop (length b) stale) data; Some (Returned res, snd r) })"

definition ws_receive ::
  "int \<Rightarrow> bytes \<Rightarrow> bytes \<Rightarrow> 'z tcp_scheme \<Rightarrow> ((int \<times> bytes, unit) command \<times> 'z tcp_scheme) option" where
  "ws_receive soc stale data s = do { r \<leftarrow> tcp_receive soc 256 s; ws_receive_end stale data r }"

definition ws_receive_resume ::
  "nat \<Rightarrow> int \<Rightarrow> bytes \<Rightarrow> bytes \<Rightarrow> 'z tcp_scheme \<Rightarrow> ((int \<times> bytes, unit) command \<times> 'z tcp_scheme) option" where
  "ws_receive_resume k ret stale data s = do { r \<leftarrow> tcp_receive_resume k ret 256 s; ws_receive_end stale data r }"

text \<open>The frame that is sent; there is none for a long text.\<close>

definition ws_frame :: "bytes \<Rightarrow> bytes \<Rightarrow> nat \<Rightarrow> bytes option option" where
  "ws_frame stale data data_len = do {
     buf \<leftarrow> wr_bytes stale 0 [0x80 OR 0x01];
     if data_len > 125 then Some None
     else do {
       buf \<leftarrow> wr_bytes buf 1 [mk8 data_len AND 0x7f];
       b \<leftarrow> rd_bytes data 0 data_len;
       buf \<leftarrow> wr_bytes buf 2 b;
       Some (Some buf)
     }
   }"

text \<open>The value does not depend on what \<^verbatim>\<open>tcp_send\<close> returns.\<close>

definition ws_send :: "int \<Rightarrow> bytes \<Rightarrow> bytes \<Rightarrow> nat \<Rightarrow> 'z tcp_scheme \<Rightarrow> ((int, nat) command \<times> 'z tcp_scheme) option" where
  "ws_send soc stale data data_len s = do {
     frame \<leftarrow> ws_frame stale data data_len;
     case frame of
       None \<Rightarrow> Some (Returned (-1), s)
     | Some buf \<Rightarrow> do {
         (c, s) \<leftarrow> tcp_send soc buf (data_len + 2) s;
         Some (case c of Returned _ \<Rightarrow> Returned (int data_len) | Waiting sent \<Rightarrow> Waiting sent, s)
       }
   }"

section \<open>The handshake\<close>

definition SEC_WEBSOCKET_KEY :: string where
  "SEC_WEBSOCKET_KEY = ''Sec-WebSocket-Key: ''"

definition SEC_WEBSOCKET_MAGIC :: string where
  "SEC_WEBSOCKET_MAGIC = ''258EAFA5-E914-47DA-95CA-C5AB0DC85B11''"

text \<open>\<^verbatim>\<open>strstr\<close>: the text from the first occurrence on.\<close>

fun strstr :: "string \<Rightarrow> string \<Rightarrow> string option" where
  "strstr s pat =
     (if take (length pat) s = pat then Some s
      else case s of [] \<Rightarrow> None | _ # cs \<Rightarrow> strstr cs pat)"

declare strstr.simps [simp del]

text \<open>
  The two calls of the encoder give the text of the whole input and then what is pending, with a newline; the last
  character is removed.
\<close>

definition base64_encode :: "(string \<Rightarrow> string \<times> 'e) \<Rightarrow> ('e \<Rightarrow> string) \<Rightarrow> string \<Rightarrow> string \<Rightarrow> string option" where
  "base64_encode encode_block encode_blockend input output = do {
     let (a, e) = encode_block input;
     let cnt = length a;
     output \<leftarrow> wr_chars output 0 a;
     let b = encode_blockend e;
     output \<leftarrow> wr_chars output cnt b;
     let c = cnt + length b;
     output \<leftarrow> wr_chars output c [NUL];
     if c = 0 then None else wr_chars output (c - 1) [NUL]
   }"

text \<open>From the request to the value of the accept header, or the message with which the program ends.\<close>

definition ws_accept ::
  "(string \<Rightarrow> string) \<Rightarrow> (string \<Rightarrow> string \<times> 'e) \<Rightarrow> ('e \<Rightarrow> string) \<Rightarrow> string \<Rightarrow> (string + string) option" where
  "ws_accept sha1 encode_block encode_blockend reqbuf =
     (if NUL \<notin> set reqbuf then None
      else case strstr (c_string reqbuf) SEC_WEBSOCKET_KEY of
        None \<Rightarrow> Some (Inl ''Sec-WebSocket-Key header not found'')
      | Some sec_header \<Rightarrow>
          (case strstr sec_header crlf of
             None \<Rightarrow> Some (Inl ''end of Sec-WebSocket-Key header not found'')
           | Some sec_header_end \<Rightarrow> do {
               let value_len = size_of_int (int (length sec_header) - int (length sec_header_end) - int (length SEC_WEBSOCKET_KEY));
               buf \<leftarrow> wr_chars (replicate 128 NUL) 0 (take value_len (drop (length SEC_WEBSOCKET_KEY) sec_header));
               buf \<leftarrow> wr_chars buf value_len SEC_WEBSOCKET_MAGIC;
               if NUL \<notin> set buf then None
               else do {
                 out \<leftarrow> base64_encode encode_block encode_blockend (sha1 (c_string buf)) (replicate 128 NUL);
                 Some (Inr (c_string out))
               }
             }))"

section \<open>Frames that go round\<close>

text \<open>The reference: the frame of a client, as RFC 6455 has it for short texts.\<close>

definition ws_mask :: "bytes \<Rightarrow> bytes \<Rightarrow> bytes" where
  "ws_mask key payload = map (\<lambda>i. payload ! i XOR key ! (i mod 4)) [0 ..< length payload]"

definition ws_client_frame :: "bytes \<Rightarrow> bytes \<Rightarrow> bytes" where
  "ws_client_frame key payload = [0x81, 0x80 OR mk8 (length payload)] @ key @ ws_mask key payload"

lemma length_ws_mask [simp]: "length (ws_mask key payload) = length payload"
  by (simp add: ws_mask_def)

lemma length_ws_client_frame: "length key = 4 \<Longrightarrow> length (ws_client_frame key payload) = length payload + 6"
  by (simp add: ws_client_frame_def)

lemma rd8_client_frame:
  assumes "length key = 4" "i < length payload"
  shows "rd8 (ws_client_frame key payload @ rest) (6 + i) = Some (payload ! i XOR key ! (i mod 4))"
    and "rd8 (ws_client_frame key payload @ rest) (2 + i mod 4) = Some (key ! (i mod 4))"
proof -
  have "i mod 4 < 4" by simp
  then show "rd8 (ws_client_frame key payload @ rest) (2 + i mod 4) = Some (key ! (i mod 4))"
    using assms by (simp add: rd8_def ws_client_frame_def nth_append)
  show "rd8 (ws_client_frame key payload @ rest) (6 + i) = Some (payload ! i XOR key ! (i mod 4))"
    using assms by (simp add: rd8_def ws_client_frame_def nth_append ws_mask_def)
qed

lemma ws_unmask_step:
  assumes "j < length payload" "length payload \<le> length data"
  shows "wr_bytes (take j payload @ drop j data) j [payload ! j] = Some (take (Suc j) payload @ drop (Suc j) data)"
  using assms by (simp add: wr_bytes_def take_Suc_conv_app_nth min_def)

lemma ws_unmask_ok:
  assumes "length key = 4" "j \<le> length payload" "length payload \<le> length data"
  shows "ws_unmask (ws_client_frame key payload @ rest) [j ..< length payload] (take j payload @ drop j data) =
    Some (payload @ drop (length payload) data)"
  using assms(2)
proof (induction rule: inc_induct)
  case base
  then show ?case by simp
next
  case (step j)
  then show ?case
    using rd8_client_frame [OF assms(1) step(2), of rest] ws_unmask_step [OF step(2) assms(3)]
    by (simp add: upt_conv_Cons xor.assoc)
qed

lemma frame_length_bits:
  assumes "n \<le> 125"
  shows "(0x80 OR mk8 n) AND 0x80 \<noteq> 0" "unat ((0x80 OR mk8 n) AND 0x7f) = n" "mk8 n AND 0x7f = mk8 n"
proof -
  have b: "bit (0x80 :: u8) 7" "take_bit 7 (0x80 :: u8) = 0" "(0x7f :: u8) = mask 7" by code_simp+
  then have "bit ((0x80 OR mk8 n) AND 0x80) 7" by (simp add: bit_and_iff bit_or_iff)
  then show "(0x80 OR mk8 n) AND 0x80 \<noteq> 0" by auto
  have u: "unat (mk8 n) = n" using assms by (simp add: mk8_def unat_of_nat)
  then have t: "take_bit 7 (mk8 n) = mk8 n"
    using assms by (intro word_unat_eq_iff [THEN iffD2]) (simp add: unsigned_take_bit_eq take_bit_nat_eq_self)
  show "mk8 n AND 0x7f = mk8 n" using t by (simp only: b(3) take_bit_eq_mask)
  have "(0x80 OR mk8 n) AND 0x7f = take_bit 7 (0x80 OR mk8 n)" by (simp only: b(3) take_bit_eq_mask)
  also have "\<dots> = mk8 n" using b(2) t by simp
  finally show "unat ((0x80 OR mk8 n) AND 0x7f) = n" using u by simp
qed

lemma ws_parse_frame:
  assumes "length key = 4" "length payload \<le> 125" "length payload \<le> length data" "0 < ret"
  shows "ws_parse ret (ws_client_frame key payload @ rest) data = Some (int (length payload), payload @ drop (length payload) data)"
proof -
  have "rd8 (ws_client_frame key payload @ rest) 0 = Some 0x81"
    "rd8 (ws_client_frame key payload @ rest) 1 = Some (0x80 OR mk8 (length payload))"
    by (simp_all add: rd8_def ws_client_frame_def)
  moreover have "(0x81 AND 0x08 :: u8) = 0" by code_simp
  moreover have "ws_unmask (ws_client_frame key payload @ rest) [0 ..< length payload] data = Some (payload @ drop (length payload) data)"
    using ws_unmask_ok [OF assms(1) _ assms(3), of 0 rest] by simp
  ultimately show ?thesis using assms(2,4) frame_length_bits [OF assms(2)] by (simp add: ws_parse_def Let_def)
qed

lemma ws_frame_text:
  assumes "length payload \<le> 125" "length stale = 256"
  shows "ws_frame stale (payload @ rest) (length payload) = Some (Some ([0x81, mk8 (length payload)] @ payload @ drop (length payload + 2) stale))"
proof -
  obtain a b st where st: "stale = a # b # st" using assms(2) by (cases stale; cases "tl stale") auto
  have one: "(0x80 OR 0x01 :: u8) = 0x81" by code_simp
  have "wr_bytes stale 0 [0x81] = Some (0x81 # b # st)" "wr_bytes (0x81 # b # st) 1 [mk8 (length payload)] = Some (0x81 # mk8 (length payload) # st)"
    by (simp_all add: wr_bytes_def st)
  moreover have "wr_bytes (0x81 # mk8 (length payload) # st) 2 payload = Some (0x81 # mk8 (length payload) # payload @ drop (length payload) st)"
    using assms by (simp add: wr_bytes_def st)
  moreover have "rd_bytes (payload @ rest) 0 (length payload) = Some payload" by (simp add: rd_bytes_def)
  ultimately show ?thesis
    using assms(1) frame_length_bits(3) [OF assms(1)] by (simp add: ws_frame_def one st)
qed

lemma ws_send_frame:
  assumes "length payload \<le> 125" "length stale = 256"
  shows "ws_send soc stale (payload @ rest) (length payload) s =
    map_option (\<lambda>(c, s). (case c of Returned _ \<Rightarrow> Returned (int (length payload)) | Waiting sent \<Rightarrow> Waiting sent, s))
      (tcp_send soc ([0x81, mk8 (length payload)] @ payload @ drop (length payload + 2) stale) (length payload + 2) s)"
  using ws_frame_text [OF assms, of rest] by (simp add: ws_send_def map_option_case bind_split split: option.split)

text \<open>
  C39. The WebSocket server returns what it was sent. When a masked text frame of at most 125 bytes is what a connection has to
  read, \<open>ws_receive\<close> returns its length and its text without the mask, for every key; sending this text back gives
  TCP a frame with exactly the same text and no mask. Bytes that arrived behind the frame are read with it and lost.
\<close>

theorem ws_echo:
  assumes "tcp_ok s" "tcp_pcb_get soc s = Some k" "tstate (tcp_pcbs s ! k) \<in> {TCP_PCB_STATE_ESTABLISHED, TCP_PCB_STATE_CLOSE_WAIT}"
    and "tcp_unread (tcp_pcbs s ! k) = ws_client_frame key payload @ behind" "length payload + 6 + length behind \<le> 256"
    and "length key = 4" "length payload \<le> 125" "length payload \<le> length data" "length stale = 256" "length stale' = 256"
  shows "\<exists>s'. ws_receive soc stale data s = Some (Returned (int (length payload), payload @ drop (length payload) data), s') \<and>
    tcp_ok s' \<and> tcp_unread (tcp_pcbs s' ! k) = [] \<and>
    ws_send soc stale' (payload @ drop (length payload) data) (length payload) s' =
      map_option (\<lambda>(c, s). (case c of Returned _ \<Rightarrow> Returned (int (length payload)) | Waiting sent \<Rightarrow> Waiting sent, s))
        (tcp_send soc ([0x81, mk8 (length payload)] @ payload @ drop (length payload + 2) stale') (length payload + 2) s')"
proof -
  let ?u = "ws_client_frame key payload @ behind"
  have l: "length ?u \<le> 256" "?u \<noteq> []" using assms(5,6) by (simp_all add: length_ws_client_frame ws_client_frame_def)
  obtain s' where s': "tcp_receive soc 256 s = Some (Returned (int (length ?u), ?u), s')" "tcp_step k s s'" "tcp_unread (tcp_pcbs s' ! k) = []"
    using tcp_receive_ok [OF assms(1-3), of 256] l by (auto simp: assms(4) min_def)
  have "ws_receive soc stale data s = Some (Returned (int (length payload), payload @ drop (length payload) data), s')"
    using s'(1) ws_parse_frame [OF assms(6-8), of "int (length ?u)" "behind @ drop (length ?u) stale"] length_ws_client_frame [OF assms(6), of payload]
    by (simp add: ws_receive_def ws_receive_end_def)
  then show ?thesis using s'(2,3) tcp_step_ok [OF s'(2)] ws_send_frame [OF assms(7,10)] by blast
qed

definition ws_example :: tcp where
  "ws_example = tcp_example 0x0A000002 [(pcb_example 5 ep_b ep_a)\<lparr>rcv_wnd := 65526,
     tbuf := ws_client_frame [1, 2, 3, 4] [0x68, 0x69, 0x21] @ drop 9 (tbuf zero_tcp_pcb)\<rparr>]"

theorem ws_echo_witness:
  "\<exists>s'. ws_receive 0 (replicate 256 0) (replicate 1024 0) ws_example =
     Some (Returned (3, [0x68, 0x69, 0x21] @ drop 3 (replicate 1024 0)), s') \<and> tcp_unread (tcp_pcbs s' ! 0) = []"
proof -
  let ?f = "ws_client_frame [1, 2, 3, 4] [0x68, 0x69, 0x21]"
  let ?pcb = "(pcb_example 5 ep_b ep_a)\<lparr>rcv_wnd := 65526, tbuf := ?f @ drop 9 (tbuf zero_tcp_pcb)\<rparr>"
  have f: "length ?f = 9" by (simp add: length_ws_client_frame)
  have "tpcb_ok ?pcb" using tpcb_ok_pcb_example [of 5 ep_b ep_a] zero_tcp_pcb_ok f by (simp add: tpcb_ok_def TCP_BUF_SIZE_def)
  then have ok: "tcp_ok ws_example" unfolding ws_example_def by (intro tcp_ok_example) simp_all
  have p: "tcp_pcbs ws_example ! 0 = ?pcb" unfolding ws_example_def by (rule tcp_example_nth)
  have get: "tcp_pcb_get 0 ws_example = Some 0" using p tcp_okD(3) [OF ok] by (auto simp: tcp_pcb_get_def pcb_example_def)
  have "TCP_BUF_SIZE - unat (rcv_wnd ?pcb) = 9" by (simp add: TCP_BUF_SIZE_def)
  then have un: "tcp_unread (tcp_pcbs ws_example ! 0) = ?f @ []" using f by (simp add: p tcp_unread_def)
  show ?thesis
    using ws_echo [OF ok get _ un, of "replicate 1024 0" "replicate 256 0" "replicate 256 0"] p
    by (auto simp: pcb_example_def)
qed

section \<open>The accepted key\<close>

lemma strstr_here: "strstr (pat @ rest) pat = Some (pat @ rest)"
  by (subst strstr.simps) simp

lemma strstr_skip: "pat \<noteq> [] \<Longrightarrow> hd pat \<notin> set xs \<Longrightarrow> strstr (xs @ pat @ rest) pat = Some (pat @ rest)"
proof (induction xs)
  case (Cons x xs)
  then have "take (length pat) (x # xs @ pat @ rest) \<noteq> pat" by (cases pat) auto
  then show ?case using Cons by (subst strstr.simps) simp
qed (simp add: strstr_here)

lemma strstr_suffix: "strstr s pat = Some t \<Longrightarrow> \<exists>pre. s = pre @ t"
proof (induction s pat rule: strstr.induct)
  case (1 s pat)
  show ?case
  proof (cases "take (length pat) s = pat")
    case True
    then show ?thesis using 1(2) by (subst (asm) strstr.simps) auto
  next
    case False
    then obtain c cs where s: "s = c # cs" "strstr cs pat = Some t" using 1(2) by (subst (asm) strstr.simps) (auto split: list.splits)
    then obtain pre where "cs = pre @ t" using 1(1) [OF False s(1)] by blast
    then show ?thesis using s(1) by (intro exI [of _ "c # pre"]) simp
  qed
qed

lemma c_string_append: "NUL \<notin> set xs \<Longrightarrow> c_string (xs @ NUL # ys) = xs"
  by (auto simp: c_string_def takeWhile_append)

lemma key_chars: "NUL \<notin> set SEC_WEBSOCKET_MAGIC" "hd crlf \<notin> set SEC_WEBSOCKET_KEY" "length SEC_WEBSOCKET_KEY = 19"
  "length SEC_WEBSOCKET_MAGIC = 36" "crlf \<noteq> []"
  by (simp_all add: SEC_WEBSOCKET_MAGIC_def SEC_WEBSOCKET_KEY_def crlf_def NUL_def)

lemma key_buffer:
  assumes "NUL \<notin> set key"
  shows "(do { buf \<leftarrow> wr_chars (replicate 128 NUL) 0 key; buf \<leftarrow> wr_chars buf (length key) SEC_WEBSOCKET_MAGIC;
      if NUL \<notin> set buf then None else Some (c_string buf) }) =
    (if length key \<le> 91 then Some (key @ SEC_WEBSOCKET_MAGIC) else None)"
proof (cases "length key \<le> 92")
  case True
  have "wr_chars (replicate 128 NUL) 0 key = Some (key @ replicate (128 - length key) NUL)" using True by (simp add: wr_chars_def)
  moreover have "wr_chars (key @ replicate (128 - length key) NUL) (length key) SEC_WEBSOCKET_MAGIC =
      Some (key @ SEC_WEBSOCKET_MAGIC @ replicate (92 - length key) NUL)"
    using True key_chars(4) by (simp add: wr_chars_def)
  moreover have "replicate (92 - length key) NUL = (if length key \<le> 91 then NUL # replicate (91 - length key) NUL else [])"
    using True by (auto simp: Suc_diff_le simp flip: replicate_Suc)
  ultimately show ?thesis
    using c_string_append [of "key @ SEC_WEBSOCKET_MAGIC" "replicate (91 - length key) NUL"] assms key_chars(1) by simp
next
  case False
  then show ?thesis using key_chars(4) by (cases "length key \<le> 128") (auto simp: wr_chars_def)
qed

lemma base64_encode_text:
  assumes "encode_block x = (a, e)" "a @ encode_blockend e = t @ [c]" "NUL \<notin> set t" "length t \<le> 126"
  shows "\<exists>out. base64_encode encode_block encode_blockend x (replicate 128 NUL) = Some out \<and> c_string out = t"
proof -
  let ?b = "encode_blockend e" and ?n = "length (encode_blockend e)"
  have len: "length a + ?n = Suc (length t)" using arg_cong [OF assms(2), of length] by simp
  have "wr_chars (replicate 128 NUL) 0 a = Some (a @ replicate (128 - length a) NUL)" using len assms(4) by (simp add: wr_chars_def)
  moreover have "wr_chars (a @ replicate (128 - length a) NUL) (length a) ?b = Some ((t @ [c]) @ replicate (127 - length t) NUL)"
    using len assms(4) by (simp add: wr_chars_def flip: assms(2))
  moreover have "wr_chars ((t @ [c]) @ replicate (127 - length t) NUL) (Suc (length t)) [NUL] = Some (t @ c # NUL # replicate (126 - length t) NUL)"
    using assms(4) by (simp add: wr_chars_def)
  moreover have "wr_chars (t @ c # NUL # replicate (126 - length t) NUL) (length t) [NUL] = Some (t @ NUL # NUL # replicate (126 - length t) NUL)"
    by (simp add: wr_chars_def)
  ultimately show ?thesis
    using assms(1) len c_string_append [OF assms(3)] by (auto simp: base64_encode_def Let_def)
qed

lemma ws_accept_request:
  assumes "NUL \<notin> set request" "strstr request SEC_WEBSOCKET_KEY = Some (SEC_WEBSOCKET_KEY @ key @ crlf @ rest)" "hd crlf \<notin> set key"
    and "length request < 2 ^ 64"
  shows "ws_accept sha1 block blockend (request @ NUL # stale) =
    (if length key \<le> 91
     then do { out \<leftarrow> base64_encode block blockend (sha1 (key @ SEC_WEBSOCKET_MAGIC)) (replicate 128 NUL); Some (Inr (c_string out)) }
     else None)"
proof -
  let ?hdr = "SEC_WEBSOCKET_KEY @ key @ crlf @ rest"
  obtain pre where pre: "request = pre @ ?hdr" using strstr_suffix [OF assms(2)] by blast
  then have key: "NUL \<notin> set key" using assms(1) by simp
  have "strstr ?hdr crlf = Some (crlf @ rest)"
    using strstr_skip [of crlf "SEC_WEBSOCKET_KEY @ key" rest] key_chars(2,5) assms(3) by simp
  moreover have "length key < 2 ^ 64" using assms(4) pre by simp
  then have "size_of_int (int (length ?hdr) - int (length (crlf @ rest)) - int (length SEC_WEBSOCKET_KEY)) = length key"
    by (simp add: size_of_int_def)
  ultimately have "ws_accept sha1 block blockend (request @ NUL # stale) =
    do { t \<leftarrow> (do { buf \<leftarrow> wr_chars (replicate 128 NUL) 0 key; buf \<leftarrow> wr_chars buf (length key) SEC_WEBSOCKET_MAGIC;
        if NUL \<notin> set buf then None else Some (c_string buf) });
      out \<leftarrow> base64_encode block blockend (sha1 t) (replicate 128 NUL); Some (Inr (c_string out)) }"
    using c_string_append [OF assms(1)] assms(2)
    by (simp add: ws_accept_def Let_def bind_split split: option.split)
  then show ?thesis unfolding key_buffer [OF key] by simp
qed

text \<open>
  The value that the handshake computes for a key: the encoded hash of the key and the magic text. A key of more than 91 characters leaves the buffer.
\<close>

lemma ws_accept_key:
  assumes hash: "\<forall>x. length (sha1 x) = 20"
    and encoder: "\<forall>x. length x = 20 \<longrightarrow> fst (block x) @ blockend (snd (block x)) = enc x @ [CHR 0x0A] \<and> NUL \<notin> set (enc x) \<and> length (enc x) = 28"
    and request: "NUL \<notin> set request" "length request < 1024"
      "strstr request SEC_WEBSOCKET_KEY = Some (SEC_WEBSOCKET_KEY @ key @ crlf @ rest)" "hd crlf \<notin> set key"
  shows "ws_accept sha1 block blockend (request @ NUL # stale) =
    (if length key \<le> 91 then Some (Inr (enc (sha1 (key @ SEC_WEBSOCKET_MAGIC)))) else None)"
proof -
  let ?x = "sha1 (key @ SEC_WEBSOCKET_MAGIC)"
  have x: "fst (block ?x) @ blockend (snd (block ?x)) = enc ?x @ [CHR 0x0A]" "NUL \<notin> set (enc ?x)" "length (enc ?x) = 28"
    using hash encoder by blast+
  obtain out where "base64_encode block blockend ?x (replicate 128 NUL) = Some out" "c_string out = enc ?x"
    using base64_encode_text [of block ?x "fst (block ?x)" "snd (block ?x)" blockend "enc ?x"] x by auto
  then show ?thesis using ws_accept_request [OF request(1,3,4), of sha1 block blockend stale] request(2) by simp
qed

end
