(* ===== verification/Ws_Server.thy ===== *)
theory Ws_Server
  imports Process Ws Hexdump
begin

text \<open>
  The program \<^verbatim>\<open>test/ws-echo.c\<close> as a whole: a task that accepts one connection after the other, answers the handshake and then returns every message.
\<close>

section \<open>The program\<close>

text \<open>
  The points of the task: the head of the outer loop; before the receive of the request; before the handshake; the sends of the answer; the
  head of the inner loop; before the reply; before \<^verbatim>\<open>tcp_close\<close>; the cleanup; and the return of \<^verbatim>\<open>main\<close>. The number counts the arrays of
  \<^verbatim>\<open>ws_receive\<close> and \<^verbatim>\<open>ws_send\<close>, which are not initialised.
\<close>

datatype ws_point =
    Ws_start bytes nat | Ws_request int bytes nat | Ws_handshake int bytes nat | Ws_switch int bytes "(bytes \<times> nat) list" nat
  | Ws_loop int bytes nat | Ws_reply int bytes nat nat | Ws_close int bytes nat | Ws_cleanup | Ws_exit int

definition WS_REQ_SIZE :: nat where [simp]: "WS_REQ_SIZE = 1024"

definition switching_protocols :: string where
  "switching_protocols = ''HTTP/1.1 101 Switching Protocols'' @ crlf @ ''Upgrade: websocket'' @ crlf @ ''Connection: Upgrade'' @ crlf @ ''Sec-WebSocket-Accept: ''"

definition welcome_message :: string where
  "welcome_message = ''Welcome to Simple WebSocket Echo Server'' @ [CHR 0x0A] @ ''Only short payload (<= 125) is supported'' @ [CHR 0x0A]"

definition ws_array :: "(nat \<Rightarrow> nat \<Rightarrow> u8) \<Rightarrow> nat \<Rightarrow> bytes" where
  "ws_array stale c = map (stale c) [0 ..< 256]"

definition ws_requested :: "int \<Rightarrow> bytes \<Rightarrow> nat \<Rightarrow> int \<Rightarrow> bytes \<Rightarrow> ws_point option" where
  "ws_requested soc reqbuf c ret b =
     (if ret \<le> 0 then Some Ws_cleanup
      else do {
        let reqbuf = b @ drop (length b) reqbuf;
        _ \<leftarrow> hexdump reqbuf (nat ret);
        Some (Ws_handshake soc reqbuf c)
      })"

text \<open>The loop is left without a close when no request is received, and the program ends on a request that is no handshake.\<close>

definition ws_code ::
  "(string \<Rightarrow> string) \<Rightarrow> (string \<Rightarrow> string \<times> 'e) \<Rightarrow> ('e \<Rightarrow> string) \<Rightarrow> (nat \<Rightarrow> nat \<Rightarrow> u8) \<Rightarrow> ws_point code" where
  "ws_code sha1 encode_block encode_blockend stale flag h at =
     (case at of
        Ws_start reqbuf c \<Rightarrow>
          if flag then Some (Goto Ws_cleanup)
          else do {
            (_, local) \<leftarrow> ip_endpoint_pton h ''192.168.70.2:80'' \<lparr>ep_addr = 0, ep_port = 0\<rparr>;
            Some (Call (Tcp_open local None False) (\<lambda>v. do {
              soc \<leftarrow> value_of v;
              Some (if soc = -1 then Ws_exit (-1) else Ws_request soc reqbuf c)
            }))
          }
      | Ws_request soc reqbuf c \<Rightarrow>
          Some (Call (Tcp_receive soc WS_REQ_SIZE) (\<lambda>v. do { (ret, b) \<leftarrow> received_of v; ws_requested soc reqbuf c ret b }))
      | Ws_handshake soc reqbuf c \<Rightarrow> do {
          r \<leftarrow> ws_accept sha1 encode_block encode_blockend (text_of reqbuf);
          case r of
            Inl _ \<Rightarrow> Some (Goto (Ws_exit (-1)))
          | Inr accept \<Rightarrow> do {
              welcome \<leftarrow> ws_frame (ws_array stale c) (bytes_of welcome_message) (length welcome_message);
              Some (Goto (Ws_switch soc reqbuf
                ([(bytes_of switching_protocols, length switching_protocols), (bytes_of accept, length accept), (bytes_of (crlf @ crlf), 4)] @
                 (case welcome of None \<Rightarrow> [] | Some buf \<Rightarrow> [(buf, length welcome_message + 2)])) (c + 1)))
            }
        }
      | Ws_switch soc reqbuf sends c \<Rightarrow>
          (case sends of
             [] \<Rightarrow> Some (Goto (Ws_loop soc reqbuf c))
           | (buf, len) # sends \<Rightarrow> Some (Call (Tcp_send soc buf len) (\<lambda>v. Some (Ws_switch soc reqbuf sends c))))
      | Ws_loop soc reqbuf c \<Rightarrow>
          Some (if flag then Goto (Ws_close soc reqbuf c)
                else Call (Tcp_receive soc 256) (\<lambda>v. do {
                  (ret, b) \<leftarrow> received_of v;
                  (ret, reqbuf) \<leftarrow> ws_parse ret (b @ drop (length b) (ws_array stale c)) reqbuf;
                  Some (if ret < 0 then Ws_close soc reqbuf (c + 1) else Ws_reply soc reqbuf (nat ret) (c + 1))
                }))
      | Ws_reply soc reqbuf n c \<Rightarrow> do {
          frame \<leftarrow> ws_frame (ws_array stale c) reqbuf n;
          case frame of
            None \<Rightarrow> Some (Goto (Ws_close soc reqbuf (c + 1)))
          | Some buf \<Rightarrow> Some (Call (Tcp_send soc buf (n + 2)) (\<lambda>v. Some (Ws_loop soc reqbuf (c + 1))))
        }
      | Ws_close soc reqbuf c \<Rightarrow> Some (Call (Tcp_close soc) (\<lambda>v. Some (Ws_start reqbuf c)))
      | Ws_cleanup \<Rightarrow> Some (Shutdown (Ws_exit 0))
      | Ws_exit v \<Rightarrow> Some (Exit v))"

section \<open>The task keeps to its buffers\<close>

lemma ws_unmask_defined:
  assumes "length buf = 256" "\<forall>i \<in> set is. i < 128 \<and> i < length data"
  shows "\<exists>d. ws_unmask buf is data = Some d \<and> length d = length data"
  using assms(2)
proof (induction "is" arbitrary: data)
  case (Cons i "is")
  have "i mod 4 < 4" by simp
  then obtain x m where rd: "rd8 buf (6 + i) = Some x" "rd8 buf (2 + i mod 4) = Some m" using Cons.prems assms(1) by (auto simp: rd8_def)
  have wr: "wr_bytes data i [x XOR m] = Some (take i data @ [x XOR m] @ drop (i + 1) data)" using Cons.prems by (simp add: wr_bytes_def)
  have len: "length (take i data @ [x XOR m] @ drop (i + 1) data) = length data" using Cons.prems by (auto simp: min_def)
  from Cons.IH [of "take i data @ [x XOR m] @ drop (i + 1) data"] Cons.prems len rd wr show ?case by auto
qed simp

lemma ws_parse_defined:
  assumes "length buf = 256" "125 \<le> length data"
  shows "\<exists>n d. ws_parse ret buf data = Some (n, d) \<and> length d = length data \<and> n \<le> 125"
proof -
  obtain b0 b1 where rd: "rd8 buf 0 = Some b0" "rd8 buf 1 = Some b1" using assms(1) by (auto simp: rd8_def)
  have "\<exists>d. ws_unmask buf [0 ..< unat (b1 AND 0x7f)] data = Some d \<and> length d = length data" if "unat (b1 AND 0x7f) \<le> 125"
    using ws_unmask_defined [OF assms(1), of "[0 ..< unat (b1 AND 0x7f)]" data] that assms(2) by auto
  moreover have "int (unat (b1 AND 0x7f)) \<le> 125" if "unat (b1 AND 0x7f) \<le> 125" using that by linarith
  ultimately show ?thesis using rd by (fastforce simp: ws_parse_def Let_def)
qed

lemma ws_frame_defined:
  assumes "length stale = 256" "n \<le> length data"
  shows "\<exists>f. ws_frame stale data n = Some f \<and> (\<forall>buf. f = Some buf \<longrightarrow> length buf = 256 \<and> n \<le> 125)"
  using assms by (auto simp: ws_frame_def wr_bytes_def rd_bytes_def)

fun ws_ok :: "ws_point \<Rightarrow> bool" where
  "ws_ok (Ws_start buf c) \<longleftrightarrow> length buf = WS_REQ_SIZE"
| "ws_ok (Ws_request soc buf c) \<longleftrightarrow> length buf = WS_REQ_SIZE"
| "ws_ok (Ws_handshake soc buf c) \<longleftrightarrow> length buf = WS_REQ_SIZE"
| "ws_ok (Ws_switch soc buf sends c) \<longleftrightarrow> length buf = WS_REQ_SIZE \<and> (\<forall>(b, n) \<in> set sends. n \<le> length b)"
| "ws_ok (Ws_loop soc buf c) \<longleftrightarrow> length buf = WS_REQ_SIZE"
| "ws_ok (Ws_reply soc buf n c) \<longleftrightarrow> length buf = WS_REQ_SIZE \<and> n \<le> 125"
| "ws_ok (Ws_close soc buf c) \<longleftrightarrow> length buf = WS_REQ_SIZE"
| "ws_ok _ \<longleftrightarrow> True"

text \<open>The program may be undefined at the handshake, where it does not check the length of the key, nor that the request ends inside the buffer.\<close>

fun ws_defined :: "(string \<Rightarrow> string) \<Rightarrow> (string \<Rightarrow> string \<times> 'e) \<Rightarrow> ('e \<Rightarrow> string) \<Rightarrow> ws_point \<Rightarrow> bool" where
  "ws_defined sha1 block blockend (Ws_handshake soc buf c) \<longleftrightarrow> ws_accept sha1 block blockend (text_of buf) \<noteq> None"
| "ws_defined sha1 block blockend _ \<longleftrightarrow> True"

lemma length_ws_array [simp]: "length (ws_array stale c) = 256"
  by (simp add: ws_array_def)

lemma length_welcome_message: "length welcome_message = 81"
  by (simp add: welcome_message_def)

lemma welcome_frame:
  "ws_frame (ws_array stale c) (bytes_of welcome_message) (length welcome_message) =
     Some (Some ([0x81, 81] @ bytes_of welcome_message @ drop 83 (ws_array stale c)))"
  using ws_frame_text [of "bytes_of welcome_message" "ws_array stale c" "[]"] by (simp add: length_welcome_message)

lemma ws_requested_ok:
  assumes "-1 \<le> n" "length b = nat n" "length b \<le> 1024"
  shows "ws_requested soc buf c n b = Some (if n \<le> 0 then Ws_cleanup else Ws_handshake soc (b @ drop (length b) buf) c)"
  using hexdump_text [of "length b" "b @ drop (length b) buf"] assms by (auto simp: ws_requested_def)

lemma ws_act:
  assumes "ws_ok at" "ws_code sha1 block blockend stale flag order at = Some a"
  shows "act_ok ws_ok a"
proof (cases at)
  case (Ws_request soc buf c)
  have "\<exists>at. do { (ret, b) \<leftarrow> received_of v; ws_requested soc buf c ret b } = Some at \<and> ws_ok at" if "result_ok (Tcp_receive soc 1024) v" for v
  proof -
    from that obtain n b where v: "v = Received n b" "-1 \<le> n" "length b = nat n" "length b \<le> 1024" by auto
    then show ?thesis using ws_requested_ok [OF v(2-4), of soc buf c] Ws_request assms(1) by auto
  qed
  then show ?thesis using Ws_request assms by (auto simp: ws_code_def act_ok_def simp del: result_ok.simps)
next
  case (Ws_handshake soc buf c)
  then obtain r where "ws_accept sha1 block blockend (text_of buf) = Some r" using assms(2) by (auto simp: ws_code_def bind_eq_Some_conv)
  then show ?thesis using Ws_handshake assms welcome_frame [of stale c] by (cases r) (auto simp: ws_code_def act_ok_def crlf_def)
next
  case (Ws_loop soc buf c)
  have "\<exists>at. do { (ret, b) \<leftarrow> received_of v; (ret, reqbuf) \<leftarrow> ws_parse ret (b @ drop (length b) (ws_array stale c)) buf;
      Some (if ret < 0 then Ws_close soc reqbuf (c + 1) else Ws_reply soc reqbuf (nat ret) (c + 1)) } = Some at \<and> ws_ok at"
    if "result_ok (Tcp_receive soc 256) v" for v
  proof -
    from that obtain n b where v: "v = Received n b" "length b \<le> 256" by auto
    then show ?thesis using ws_parse_defined [of "b @ drop (length b) (ws_array stale c)" buf n] Ws_loop assms(1) by auto
  qed
  then show ?thesis using Ws_loop assms by (auto simp: ws_code_def act_ok_def simp del: result_ok.simps)
next
  case (Ws_reply soc buf n c)
  then show ?thesis
    using assms ws_frame_defined [of "ws_array stale c" n buf] by (auto simp: ws_code_def act_ok_def split: option.splits)
qed (use assms in \<open>auto simp: ws_code_def act_ok_def endpoint_texts split: if_splits list.splits\<close>)

interpretation ws: safe_program Set_flag_raise "ws_code sha1 block blockend stale" ws_ok "ws_defined sha1 block blockend" for sha1 block blockend stale
proof
  show "ws_code sha1 block blockend stale flag order at \<noteq> None" if at: "ws_ok at" "ws_defined sha1 block blockend at" for at flag order
  proof (cases at)
    case (Ws_handshake soc buf c)
    then obtain r where "ws_accept sha1 block blockend (text_of buf) = Some r" using at(2) by auto
    then show ?thesis using Ws_handshake welcome_frame [of stale c] by (cases r) (simp_all add: ws_code_def)
  next
    case (Ws_reply soc buf n c)
    then obtain f where "ws_frame (ws_array stale c) buf n = Some f" using ws_frame_defined [of "ws_array stale c" n buf] at(1) by auto
    then show ?thesis using Ws_reply by (cases f) (simp_all add: ws_code_def)
  qed (simp_all add: ws_code_def endpoint_texts split: list.split)
  show "act_ok ws_ok a" if "ws_ok at" "ws_code sha1 block blockend stale flag order at = Some a" for at flag order a
    using ws_act [OF that] .
qed

section \<open>Properties\<close>

text \<open>
  C11. The WebSocket server is safe on the requests that it can parse. Once its start has succeeded, let it take any number of steps, let its waits end at
  any time and with any result, and let \<open>SIGINT\<close>, frames of any content and signals happen in between, whatever the arrays that it does not
  initialise contain: as long as the handshake is defined on the requests that arrive and the packets satisfy what the code does not check, every state reached
  satisfies the invariant of the task and of the stack, and whatever happens next is defined. No frame of a client, well-formed or not, makes it leave its buffers.
\<close>

theorem ws_server_safe:
  assumes "process_start s0" "setup_tap s0 = Some (0, s)" "length reqbuf = WS_REQ_SIZE"
    and "runs (process_exec Set_flag_raise (ws_code sha1 block blockend stale)) (process_allowed (ws_defined sha1 block blockend)) (process_of (Ws_start reqbuf 0) s) xs p"
    and "process_allowed (ws_defined sha1 block blockend) x p"
  shows "process_ok (ws_code sha1 block blockend stale) ws_ok p \<and>
    (\<exists>p'. process_exec Set_flag_raise (ws_code sha1 block blockend stale) x p = Some p' \<and> process_ok (ws_code sha1 block blockend stale) ws_ok p')"
proof -
  obtain r t where "setup_tap s0 = Some (r, t)" "r = 0 \<longrightarrow> tap_up t" using setup_tap_success [OF assms(1)] by blast
  then have "process_ok (ws_code sha1 block blockend stale) ws_ok (process_of (Ws_start reqbuf 0) s)"
    using assms(2,3) by (intro process_of_ok) (simp_all add: tap_up_def)
  then show ?thesis using ws.runs_inv [OF assms(4)] ws.runs_not_stuck [OF assms(4) _ assms(5)] by blast
qed

text \<open>
  C12. The WebSocket server accepts a client. When a request with a key has arrived on the connection and the byte of the buffer behind it is zero, two steps lead to
  the sends of the answer of RFC 6455: the header, the encoded hash of the key and the magic text, the end of the header, and the welcome message in
  one frame; the request has been taken from the connection.
\<close>

theorem ws_server_accepts:
  assumes hash: "\<forall>x. length (sha1 x) = 20"
    and encoder: "\<forall>x. length x = 20 \<longrightarrow> fst (block x) @ blockend (snd (block x)) = enc x @ [CHR 0x0A] \<and> NUL \<notin> set (enc x) \<and> length (enc x) = 28"
    and process: "tcp_ok (stack p)" "threads p = [Running (Ws_request soc buf c)]" "status p = None" "length buf = WS_REQ_SIZE"
    and connection: "tcp_pcb_get soc (stack p) = Some k" "tstate (tcp_pcbs (stack p) ! k) \<in> {TCP_PCB_STATE_ESTABLISHED, TCP_PCB_STATE_CLOSE_WAIT}"
      "tcp_unread (tcp_pcbs (stack p) ! k) = bytes_of request"
    and request: "NUL \<notin> set request" "length request < 1024" "buf ! length request = 0"
      "strstr request SEC_WEBSOCKET_KEY = Some (SEC_WEBSOCKET_KEY @ key @ crlf @ rest)" "hd crlf \<notin> set key" "length key \<le> 91"
  shows "\<exists>p1 p2 buf' sends. process_exec Set_flag_raise (ws_code sha1 block blockend stale) (Step 0 ret1) p = Some p1 \<and>
    process_exec Set_flag_raise (ws_code sha1 block blockend stale) (Step 0 ret2) p1 = Some p2 \<and>
    threads p2 = [Running (Ws_switch soc buf' sends (c + 1))] \<and>
    concat (map (\<lambda>(b, n). take n b) sends) =
      bytes_of (switching_protocols @ enc (sha1 (key @ SEC_WEBSOCKET_MAGIC)) @ crlf @ crlf) @ [0x81, 81] @ bytes_of welcome_message \<and>
    tcp_unread (tcp_pcbs (stack p2) ! k) = []"
proof -
  have "request \<noteq> []" using request(4) by (subst (asm) strstr.simps) (auto simp: SEC_WEBSOCKET_KEY_def)
  then have ne: "request \<noteq> []" "bytes_of request \<noteq> []" by (simp_all add: bytes_of_def)
  obtain s' where s': "tcp_receive soc 1024 (stack p) = Some (Returned (int (length request), bytes_of request), s')" "tcp_unread (tcp_pcbs s' ! k) = []"
    using tcp_receive_ok [OF process(1) connection(1,2), of 1024] ne request(2) by (auto simp: connection(3) min_def)
  define buf1 where "buf1 = bytes_of request @ drop (length request) buf"
  have "ws_requested soc buf c (int (length request)) (bytes_of request) = Some (Ws_handshake soc buf1 c)"
    using ws_requested_ok [of "int (length request)" "bytes_of request" soc buf c] request(2) ne by (simp add: buf1_def)
  then have p1: "process_exec Set_flag_raise (ws_code sha1 block blockend stale) (Step 0 ret1) p =
      Some (p\<lparr>stack := s', threads := [Running (Ws_handshake soc buf1 c)]\<rparr>)"
    using s'(1) process(2,3) by (simp add: process_exec_def thread_step_def act_step_def call_step_def ws_code_def put_thread_def)
  have "drop (length request) buf = 0 # drop (Suc (length request)) buf" using request(2,3) process(4) by (simp add: Cons_nth_drop_Suc [symmetric])
  then have "text_of buf1 = request @ NUL # text_of (drop (Suc (length request)) buf)" by (simp add: buf1_def)
  then have "ws_accept sha1 block blockend (text_of buf1) = Some (Inr (enc (sha1 (key @ SEC_WEBSOCKET_MAGIC))))"
    using ws_accept_key [OF hash encoder request(1,2,4,5)] request(6) by simp
  then have "process_exec Set_flag_raise (ws_code sha1 block blockend stale) (Step 0 ret2) (p\<lparr>stack := s', threads := [Running (Ws_handshake soc buf1 c)]\<rparr>) =
      Some (p\<lparr>stack := s', threads := [Running (Ws_switch soc buf1
        [(bytes_of switching_protocols, length switching_protocols),
         (bytes_of (enc (sha1 (key @ SEC_WEBSOCKET_MAGIC))), length (enc (sha1 (key @ SEC_WEBSOCKET_MAGIC)))), (bytes_of (crlf @ crlf), 4),
         ([0x81, 81] @ bytes_of welcome_message @ drop 83 (ws_array stale c), length welcome_message + 2)] (c + 1))]\<rparr>)"
    using process(3) welcome_frame [of stale c] by (simp add: process_exec_def thread_step_def act_step_def ws_code_def put_thread_def)
  with p1 s'(2) show ?thesis by (auto simp: length_welcome_message crlf_def)
qed

section \<open>Evaluation\<close>

theorem ws_server_safe_witness:
  "\<exists>s p'. process_start start_example \<and> setup_tap start_example = Some (0, s) \<and>
     process_exec Set_flag_raise (ws_code (\<lambda>_. []) (\<lambda>_. ([], ())) (\<lambda>_. []) (\<lambda>_ _. 0)) (Step 0 0)
       ((process_of (Ws_start (replicate 1024 0) 0) s)\<lparr>terminate := True, stack := net_raise_event s\<rparr>) = Some p' \<and>
     process_ok (ws_code (\<lambda>_. []) (\<lambda>_. ([], ())) (\<lambda>_. []) (\<lambda>_ _. 0)) ws_ok p'"
proof -
  let ?code = "ws_code (\<lambda>_. []) (\<lambda>_. ([], ())) (\<lambda>_. []) (\<lambda>_ _. 0)" and ?allow = "process_allowed (ws_defined (\<lambda>_. []) (\<lambda>_. ([], ())) (\<lambda>_. []))"
  obtain s where s: "setup_tap start_example = Some (0, s)" by (rule setup_tap_example)
  let ?p = "(process_of (Ws_start (replicate 1024 0) 0) s)\<lparr>terminate := True, stack := net_raise_event s\<rparr>"
  have run: "runs (process_exec Set_flag_raise ?code) ?allow (process_of (Ws_start (replicate 1024 0) 0) s) [Sigint] ?p"
    by (simp add: runs_Nil runs_Cons process_exec_def on_signal_def process_of_def)
  have "length (replicate 1024 (0 :: u8)) = WS_REQ_SIZE" "?allow (Step 0 0) ?p" by (simp_all add: process_of_def)
  from ws_server_safe [OF start_example_ok s this(1) run this(2)] start_example_ok s show ?thesis by auto
qed

definition ws_request_example :: string where
  "ws_request_example = SEC_WEBSOCKET_KEY @ ''dGhl'' @ crlf"

definition ws_accept_example :: tcp where
  "ws_accept_example = tcp_example 0x0A000002 [(pcb_example 5 ep_b ep_a)\<lparr>rcv_wnd := 65510,
     tbuf := bytes_of ws_request_example @ drop 25 (tbuf zero_tcp_pcb)\<rparr>]"

theorem ws_server_accepts_witness:
  "\<exists>p1 p2 buf' sends.
     process_exec Set_flag_raise (ws_code (\<lambda>_. replicate 20 CHR ''x'') (\<lambda>_. (replicate 20 CHR ''A'', ())) (\<lambda>_. ''12345678'' @ [CHR 0x0A]) (\<lambda>_ _. 7)) (Step 0 0)
       (process_of (Ws_request 0 (replicate 1024 0) 0) ws_accept_example) = Some p1 \<and>
     process_exec Set_flag_raise (ws_code (\<lambda>_. replicate 20 CHR ''x'') (\<lambda>_. (replicate 20 CHR ''A'', ())) (\<lambda>_. ''12345678'' @ [CHR 0x0A]) (\<lambda>_ _. 7)) (Step 0 0)
       p1 = Some p2 \<and>
     threads p2 = [Running (Ws_switch 0 buf' sends 1)] \<and>
     concat (map (\<lambda>(b, n). take n b) sends) =
       bytes_of (switching_protocols @ (replicate 20 CHR ''A'' @ ''12345678'') @ crlf @ crlf) @ [0x81, 81] @ bytes_of welcome_message"
proof -
  let ?pcb = "(pcb_example 5 ep_b ep_a)\<lparr>rcv_wnd := 65510, tbuf := bytes_of ws_request_example @ drop 25 (tbuf zero_tcp_pcb)\<rparr>"
  let ?p = "process_of (Ws_request 0 (replicate 1024 0) 0) ws_accept_example"
  have len: "length ws_request_example = 25" by (simp add: ws_request_example_def SEC_WEBSOCKET_KEY_def crlf_def)
  have "tpcb_ok ?pcb" using tpcb_ok_pcb_example [of 5 ep_b ep_a] zero_tcp_pcb_ok len by (simp add: tpcb_ok_def TCP_BUF_SIZE_def)
  then have ok: "tcp_ok ws_accept_example" unfolding ws_accept_example_def by (intro tcp_ok_example) simp_all
  have p: "tcp_pcbs ws_accept_example ! 0 = ?pcb" unfolding ws_accept_example_def by (rule tcp_example_nth)
  have get: "tcp_pcb_get 0 ws_accept_example = Some 0" using p tcp_okD(3) [OF ok] by (auto simp: tcp_pcb_get_def pcb_example_def)
  have "TCP_BUF_SIZE - unat (rcv_wnd ?pcb) = 25" by (simp add: TCP_BUF_SIZE_def)
  then have un: "tcp_unread (tcp_pcbs (stack ?p) ! 0) = bytes_of ws_request_example" using len by (simp add: p tcp_unread_def process_of_def)
  have conn: "tcp_ok (stack ?p)" "tcp_pcb_get 0 (stack ?p) = Some 0" "tstate (tcp_pcbs (stack ?p) ! 0) \<in> {TCP_PCB_STATE_ESTABLISHED, TCP_PCB_STATE_CLOSE_WAIT}"
    using ok get p by (simp_all add: process_of_def pcb_example_def)
  have key: "strstr ws_request_example SEC_WEBSOCKET_KEY = Some (SEC_WEBSOCKET_KEY @ ''dGhl'' @ crlf @ [])"
    unfolding ws_request_example_def by (simp add: strstr_here)
  have chars: "NUL \<notin> set ws_request_example" "hd crlf \<notin> set ''dGhl''" "length ''dGhl'' \<le> 91" "length ws_request_example < 1024"
    "replicate 1024 (0 :: u8) ! length ws_request_example = 0"
    by (auto simp: len) (auto simp: ws_request_example_def NUL_def crlf_def SEC_WEBSOCKET_KEY_def)
  have "threads ?p = [Running (Ws_request 0 (replicate 1024 0) 0)]" "status ?p = None" "length (replicate 1024 (0 :: u8)) = WS_REQ_SIZE"
    by (simp_all add: process_of_def)
  from ws_server_accepts [where p = ?p and soc = 0 and k = 0 and c = 0 and request = ws_request_example and key = "''dGhl''" and rest = "[]" and buf = "replicate 1024 0"
      and ?sha1.0 = "\<lambda>_. replicate 20 CHR ''x''" and block = "\<lambda>_. (replicate 20 CHR ''A'', ())" and blockend = "\<lambda>_. ''12345678'' @ [CHR 0x0A]"
      and enc = "\<lambda>_. replicate 20 CHR ''A'' @ ''12345678''" and stale = "\<lambda>_ _. 7" and ?ret1.0 = 0 and ?ret2.0 = 0,
      OF _ _ conn(1) this conn(2,3) un chars(1,4,5) key chars(2,3)]
  show ?thesis by (auto simp: NUL_def simp del: replicate.simps)
qed

end
