(* ===== verification/Steps.thy ===== *)
theory Steps
  imports Process
begin

text \<open>
  The demonstration programs \<^verbatim>\<open>test/step8.c\<close> to \<^verbatim>\<open>test/step24.c\<close> that are no echo servers: those that send a packet every second, those that wait, and those
  that open a socket. They differ in how much of the stack they bring up.
\<close>

section \<open>The starts\<close>

text \<open>The loopback device alone (\<^verbatim>\<open>step8.c\<close> to \<^verbatim>\<open>step11.c\<close>).\<close>

definition setup_loopback :: "'z tcp_scheme \<Rightarrow> (int \<times> 'z tcp_scheme) option" where
  "setup_loopback s =
     (let (r, s) = net_init s in
      if r = -1 then Some (-1, s)
      else case loopback_init s of
        (None, s) \<Rightarrow> Some (-1, s)
      | (Some dev, s) \<Rightarrow> do {
          (iface, s) \<leftarrow> setup_iface dev LOOPBACK_IP_ADDR LOOPBACK_NETMASK s;
          if iface = None then Some (-1, s)
          else do {
            (r, s) \<leftarrow> net_run s;
            if r = -1 then Some (-1, s) else Some (0, s)
          }
        })"

text \<open>A loopback device without interface, and the tap device (\<^verbatim>\<open>step12.c\<close> to \<^verbatim>\<open>step16.c\<close>).\<close>

definition setup_bare_loopback :: "'z tcp_scheme \<Rightarrow> (int \<times> 'z tcp_scheme) option" where
  "setup_bare_loopback s =
     (let (r, s) = net_init s in
      if r = -1 then Some (-1, s)
      else case loopback_init s of
        (None, s) \<Rightarrow> Some (-1, s)
      | (Some _, s) \<Rightarrow>
          (case ether_tap_init ETHER_TAP_NAME (Some ETHER_TAP_HW_ADDR) s of
             (None, s) \<Rightarrow> Some (-1, s)
           | (Some dev, s) \<Rightarrow> do {
               (iface, s) \<leftarrow> setup_iface dev ETHER_TAP_IP_ADDR ETHER_TAP_NETMASK s;
               if iface = None then Some (-1, s)
               else do {
                 (r, s) \<leftarrow> net_run s;
                 if r = -1 then Some (-1, s) else Some (0, s)
               }
             }))"

text \<open>The tap device with a default route (\<^verbatim>\<open>step17.c\<close>).\<close>

definition setup_gateway :: "'z tcp_scheme \<Rightarrow> (int \<times> 'z tcp_scheme) option" where
  "setup_gateway s =
     (let (r, s) = net_init s in
      if r = -1 then Some (-1, s)
      else case ether_tap_init ETHER_TAP_NAME (Some ETHER_TAP_HW_ADDR) s of
        (None, s) \<Rightarrow> Some (-1, s)
      | (Some dev, s) \<Rightarrow> do {
          (iface, s) \<leftarrow> setup_iface dev ETHER_TAP_IP_ADDR ETHER_TAP_NETMASK s;
          case iface of
            None \<Rightarrow> Some (-1, s)
          | Some iface \<Rightarrow> do {
              let (r, s) = ip_route_set_default_gateway iface DEFAULT_GATEWAY s;
              if r = -1 then Some (-1, s)
              else do {
                (r, s) \<leftarrow> net_run s;
                if r = -1 then Some (-1, s) else Some (0, s)
              }
            }
        })"

section \<open>The programs\<close>

definition test_data :: bytes where
  "test_data = [
     0x45, 0x00, 0x00, 0x30, 0x00, 0x80, 0x00, 0x00, 0xff, 0x01, 0xbd, 0x4a,
     0x7f, 0x00, 0x00, 0x01, 0x7f, 0x00, 0x00, 0x01, 0x08, 0x00, 0x35, 0x64,
     0x00, 0x80, 0x00, 0x01, 0x31, 0x32, 0x33, 0x34, 0x35, 0x36, 0x37, 0x38,
     0x39, 0x30, 0x21, 0x40, 0x23, 0x24, 0x25, 0x5e, 0x26, 0x2a, 0x28, 0x29]"

text \<open>
  The program that pings, with the offset of its payload in \<^verbatim>\<open>test_data\<close> and its addresses. The value of the echo message is an \<^verbatim>\<open>int\<close>: its
  shift overflows when the identifier is larger than \<^verbatim>\<open>0x7fff\<close>.
\<close>

datatype ping = Step11 | Step15 | Step17

definition ping_args :: "host \<Rightarrow> ping \<Rightarrow> nat \<times> u32 \<times> u32" where
  "ping_args h p =
     (let pton = \<lambda>t. snd (ip_addr_pton h t 0) in
      case p of
        Step11 \<Rightarrow> (IP_HDR_SIZE_MIN, pton LOOPBACK_IP_ADDR, pton LOOPBACK_IP_ADDR)
      | Step15 \<Rightarrow> (IP_HDR_SIZE_MIN + ICMP_HDR_SIZE, pton ''192.168.70.2'', pton ''192.168.70.1'')
      | Step17 \<Rightarrow> (IP_HDR_SIZE_MIN + ICMP_HDR_SIZE, IP_ADDR_ANY, pton ''8.8.8.8''))"

definition ping_value :: "u16 \<Rightarrow> u16 \<Rightarrow> u32 option" where
  "ping_value ident seq = (if ident > 0x7fff then None else Some (mk32 (unat ident * 2 ^ 16 + unat seq)))"

text \<open>
  The points: the loop of \<^verbatim>\<open>step8.c\<close> to \<^verbatim>\<open>step10.c\<close>; of the programs that ping, with the identifier and the sequence number; of \<^verbatim>\<open>step18.c\<close>; \<^verbatim>\<open>step19.c\<close>, which binds a socket;
  \<^verbatim>\<open>step20-2.c\<close>, which sends what \<^verbatim>\<open>fgets\<close> returns from one call to the next; the idle loop of \<^verbatim>\<open>step12.c\<close> to \<^verbatim>\<open>step14.c\<close>, \<^verbatim>\<open>step16.c\<close>, \<^verbatim>\<open>step22.c\<close> and \<^verbatim>\<open>step23.c\<close>;
  \<^verbatim>\<open>step24.c\<close>, which listens; the cleanup; and the return of \<^verbatim>\<open>main\<close>.
\<close>

datatype step_point =
    Raw_loop | Ping_loop ping u16 u16 | Datagram_loop
  | Bind_open | Bind_bind int | Bind_failed int | Bind_loop int
  | Line_open "bytes list" | Line_loop int "bytes list" | Line_send int bytes "bytes list" | Socket_close int
  | Idle_loop | Listen_open | Listen_loop int | Listen_close int
  | Steps_cleanup | Steps_exit int

text \<open>The loops that send a packet every second.\<close>

definition step10_act :: "bool \<Rightarrow> host \<Rightarrow> step_point act option" where
  "step10_act flag h =
     (let src = snd (ip_addr_pton h LOOPBACK_IP_ADDR 0); offset = IP_HDR_SIZE_MIN in
      Some (if flag then Goto Steps_cleanup
            else Call (Ip_output IP_PROTOCOL_ICMP (drop offset test_data) (length test_data - offset) src src) (\<lambda>v. do {
              r \<leftarrow> value_of v;
              Some (if r = -1 then Steps_cleanup else Raw_loop)
            })))"

definition ping_act :: "bool \<Rightarrow> host \<Rightarrow> ping \<Rightarrow> u16 \<Rightarrow> u16 \<Rightarrow> step_point act option" where
  "ping_act flag h p ident seq =
     (if flag then Some (Goto Steps_cleanup)
      else do {
        let (offset, src, dst) = ping_args h p;
        let seq = seq + 1;
        vals \<leftarrow> ping_value ident seq;
        Some (Call (Icmp_output ICMP_TYPE_ECHO 0 (hton32 h vals) (drop offset test_data) (length test_data - offset) src dst) (\<lambda>v. do {
          r \<leftarrow> value_of v;
          Some (if r = -1 then Steps_cleanup else Ping_loop p ident seq)
        }))
      })"

definition step18_act :: "bool \<Rightarrow> host \<Rightarrow> step_point act option" where
  "step18_act flag h =
     (if flag then Some (Goto Steps_cleanup)
      else do {
        (_, src) \<leftarrow> ip_endpoint_pton h ''127.0.0.1:10000'' \<lparr>ep_addr = 0, ep_port = 0\<rparr>;
        (_, dst) \<leftarrow> ip_endpoint_pton h ''127.0.0.1:7'' \<lparr>ep_addr = 0, ep_port = 0\<rparr>;
        let offset = IP_HDR_SIZE_MIN + ICMP_HDR_SIZE;
        Some (Call (Udp_output src dst (drop offset test_data) (length test_data - offset)) (\<lambda>v. do {
          r \<leftarrow> value_of v;
          Some (if r = -1 then Steps_cleanup else Datagram_loop)
        }))
      })"

text \<open>The program that sends what it reads: \<^verbatim>\<open>fgets\<close> ends the text with a zero, and \<^verbatim>\<open>strlen\<close> finds the first one.\<close>

definition step20_2_act :: "host \<Rightarrow> int \<Rightarrow> bytes \<Rightarrow> bytes list \<Rightarrow> step_point act option" where
  "step20_2_act h soc buf lines = do {
     (_, foreign) \<leftarrow> ip_endpoint_pton h ''192.168.70.1:10007'' \<lparr>ep_addr = 0, ep_port = 0\<rparr>;
     Some (Call (Udp_sendto soc buf (length (takeWhile (\<lambda>c. c \<noteq> 0) buf)) foreign) (\<lambda>v. do {
       r \<leftarrow> value_of v;
       Some (if r = -1 then Socket_close soc else Line_loop soc lines)
     }))
   }"

text \<open>The program that binds a socket, and the one that listens.\<close>

definition step19_act :: "host \<Rightarrow> int \<Rightarrow> step_point act option" where
  "step19_act h soc = do {
     (_, local) \<leftarrow> ip_endpoint_pton h ''0.0.0.0:7'' \<lparr>ep_addr = 0, ep_port = 0\<rparr>;
     Some (Call (Udp_bind soc local) (\<lambda>v. do {
       r \<leftarrow> value_of v;
       Some (if r = -1 then Bind_failed soc else Bind_loop soc)
     }))
   }"

definition step24_act :: "host \<Rightarrow> step_point act option" where
  "step24_act h = do {
     (_, local) \<leftarrow> ip_endpoint_pton h ''0.0.0.0:7'' \<lparr>ep_addr = 0, ep_port = 0\<rparr>;
     Some (Call (Tcp_open local None False) (\<lambda>v. do {
       soc \<leftarrow> value_of v;
       Some (if soc = -1 then Steps_exit (-1) else Listen_loop soc)
     }))
   }"

definition step_code :: "step_point code" where
  "step_code flag h at =
     (case at of
        Raw_loop \<Rightarrow> step10_act flag h
      | Ping_loop p ident seq \<Rightarrow> ping_act flag h p ident seq
      | Datagram_loop \<Rightarrow> step18_act flag h
      | Bind_open \<Rightarrow> Some (Call Udp_open (\<lambda>v. do { soc \<leftarrow> value_of v; Some (if soc = -1 then Steps_exit (-1) else Bind_bind soc) }))
      | Bind_bind soc \<Rightarrow> step19_act h soc
      | Bind_failed soc \<Rightarrow> Some (Call (Udp_close soc) (\<lambda>v. Some (Steps_exit (-1))))
      | Bind_loop soc \<Rightarrow> Some (Goto (if flag then Socket_close soc else Bind_loop soc))
      | Line_open lines \<Rightarrow> Some (Call Udp_open (\<lambda>v. do { soc \<leftarrow> value_of v; Some (if soc = -1 then Steps_exit (-1) else Line_loop soc lines) }))
      | Line_loop soc lines \<Rightarrow>
          Some (Goto (if flag then Socket_close soc else case lines of [] \<Rightarrow> Socket_close soc | l # ls \<Rightarrow> Line_send soc (l @ [0]) ls))
      | Line_send soc buf lines \<Rightarrow> step20_2_act h soc buf lines
      | Socket_close soc \<Rightarrow> Some (Call (Udp_close soc) (\<lambda>v. Some Steps_cleanup))
      | Idle_loop \<Rightarrow> Some (Goto (if flag then Steps_cleanup else Idle_loop))
      | Listen_open \<Rightarrow> step24_act h
      | Listen_loop soc \<Rightarrow> Some (Goto (if flag then Listen_close soc else Listen_loop soc))
      | Listen_close soc \<Rightarrow> Some (Call (Tcp_close soc) (\<lambda>v. Some Steps_cleanup))
      | Steps_cleanup \<Rightarrow> Some (Shutdown (Steps_exit 0))
      | Steps_exit v \<Rightarrow> Some (Exit v))"

lemmas step_acts = step10_act_def ping_act_def step18_act_def step20_2_act_def step19_act_def step24_act_def step_code_def

section \<open>The programs are safe\<close>

text \<open>The starts keep the invariant, whatever fails in them.\<close>

lemma net_run_end:
  "do { (r, s) \<leftarrow> net_run s; if r = -1 then Some (-1, s) else Some (0, s) } = Some (r, s') \<Longrightarrow> sys_ok s \<Longrightarrow> sys_ok s'" for r :: int
  using net_run_ok [of s] by (auto split: if_splits)

lemma net_init_first:
  assumes "process_start s"
  shows "\<exists>r s'. net_init s = (r, s') \<and> sys_ok s' \<and> next_index s' = 0 \<and> devices s' = [] \<and> routes s' = []"
  using net_init_ok [of s] assms process_start_ok [OF assms]
  by (intro exI [of _ "fst (net_init s)"] exI [of _ "snd (net_init s)"]) (simp add: registered_def process_start_def)

lemma loopback_added_ok:
  assumes "sys_ok s" "loopback_init s = (Some dev, s')"
  shows "sys_ok s'"
proof -
  obtain d where "device_added dev d Loopback_isr s s'" "dev_ok dev d" "drv_ok d" "ops d = Loopback_ops" "mtu d = LOOPBACK_MTU" "dev_alen d = 0"
    using loopback_init_added [OF assms(2)] by blast
  then show ?thesis using sys_ok_device_added [OF assms(1)] by (simp add: LOOPBACK_MTU_def)
qed

lemma tap_iface_ok:
  assumes "sys_ok s" "ether_tap_init nm a s = (Some dev, s1)"
  shows "\<exists>g s2. setup_iface dev ETHER_TAP_IP_ADDR ETHER_TAP_NETMASK s1 = Some (g, s2) \<and> sys_ok s2 \<and> (\<forall>f. g = Some f \<longrightarrow> dev_tab s2 (iface_dev f) \<noteq> None)"
  using setup_tap_device [OF assms(1) refl assms(2)] by (auto simp: iface_of_def Let_def)

lemma setup_loopback_ok:
  assumes "process_start s" "setup_loopback s = Some (0, s')"
  shows "sys_ok s'"
proof -
  obtain r s0 where s0: "net_init s = (r, s0)" "sys_ok s0" "next_index s0 = 0" "devices s0 = []" "routes s0 = []" using net_init_first [OF assms(1)] by blast
  then obtain dev s1 where lo: "loopback_init s0 = (Some dev, s1)" using assms(2) by (auto simp: setup_loopback_def split: if_splits option.splits prod.splits)
  obtain g s2 where "setup_iface dev LOOPBACK_IP_ADDR LOOPBACK_NETMASK s1 = Some (g, s2)" "sys_ok s2" using setup_first_device [OF s0(2-5) lo] by blast
  then show ?thesis using assms(2) s0(1) lo net_run_end [of s2 0 s'] by (auto simp: setup_loopback_def split: if_splits)
qed

lemma setup_bare_loopback_ok:
  assumes "process_start s" "setup_bare_loopback s = Some (0, s')"
  shows "sys_ok s'"
proof -
  obtain r s0 where s0: "net_init s = (r, s0)" "sys_ok s0" using net_init_first [OF assms(1)] by blast
  then obtain dev s1 where lo: "loopback_init s0 = (Some dev, s1)" using assms(2) by (auto simp: setup_bare_loopback_def split: if_splits option.splits prod.splits)
  then obtain dev' s2 where tap: "ether_tap_init ETHER_TAP_NAME (Some ETHER_TAP_HW_ADDR) s1 = (Some dev', s2)"
    using assms(2) s0(1) by (auto simp: setup_bare_loopback_def split: if_splits option.splits prod.splits)
  obtain g s3 where "setup_iface dev' ETHER_TAP_IP_ADDR ETHER_TAP_NETMASK s2 = Some (g, s3)" "sys_ok s3"
    using tap_iface_ok [OF loopback_added_ok [OF s0(2) lo] tap] by blast
  then show ?thesis using assms(2) s0(1) lo tap net_run_end [of s3 0 s'] by (auto simp: setup_bare_loopback_def split: if_splits)
qed

lemma setup_gateway_ok:
  assumes "process_start s" "setup_gateway s = Some (0, s')"
  shows "sys_ok s'"
proof -
  obtain r s0 where s0: "net_init s = (r, s0)" "sys_ok s0" using net_init_first [OF assms(1)] by blast
  then obtain dev s1 where tap: "ether_tap_init ETHER_TAP_NAME (Some ETHER_TAP_HW_ADDR) s0 = (Some dev, s1)"
    using assms(2) by (auto simp: setup_gateway_def split: if_splits option.splits prod.splits)
  obtain g s2 where g: "setup_iface dev ETHER_TAP_IP_ADDR ETHER_TAP_NETMASK s1 = Some (g, s2)" "sys_ok s2" "\<And>f. g = Some f \<Longrightarrow> dev_tab s2 (iface_dev f) \<noteq> None"
    using tap_iface_ok [OF s0(2) tap] by blast
  obtain f where f: "g = Some f" using assms(2) s0(1) tap g(1) by (auto simp: setup_gateway_def split: if_splits option.splits)
  obtain r' s3 where "ip_route_set_default_gateway f DEFAULT_GATEWAY s2 = (r', s3)" "sys_ok s3" using default_gateway_ok [OF g(2) g(3) [OF f]] by blast
  then show ?thesis using assms(2) s0(1) tap g(1) f net_run_end [of s3 0 s'] by (auto simp: setup_gateway_def split: if_splits)
qed

lemma setup_stack_ok:
  assumes "process_start s" "setup_stack s = Some (0, s')"
  shows "sys_ok s'"
  using setup_success [OF assms(1)] assms(2) by (auto simp: stack_up_def)

text \<open>The starts that a program is run after; none, when the point is not the beginning of a program.\<close>

fun step_setups :: "step_point \<Rightarrow> ('z tcp_scheme \<Rightarrow> (int \<times> 'z tcp_scheme) option) list" where
  "step_setups Raw_loop = [setup_loopback]"
| "step_setups (Ping_loop Step11 ident seq) = [setup_loopback]"
| "step_setups (Ping_loop Step15 ident seq) = [setup_bare_loopback]"
| "step_setups (Ping_loop Step17 ident seq) = [setup_gateway]"
| "step_setups Idle_loop = [setup_bare_loopback, setup_stack]"
| "step_setups Datagram_loop = [setup_stack]"
| "step_setups Bind_open = [setup_stack]"
| "step_setups (Line_open lines) = [setup_stack]"
| "step_setups Listen_open = [setup_stack]"
| "step_setups _ = []"

lemma step_setups_ok:
  assumes "setup \<in> set (step_setups at)" "process_start s0" "setup s0 = Some (0, s)"
  shows "sys_ok s"
  using assms setup_loopback_ok setup_bare_loopback_ok setup_gateway_ok setup_stack_ok by (cases at rule: step_setups.cases) auto

fun step_ok :: "step_point \<Rightarrow> bool" where
  "step_ok (Ping_loop p ident seq) \<longleftrightarrow> ident \<le> 0x7fff"
| "step_ok _ \<longleftrightarrow> True"

lemma step_act_safe:
  assumes "step_ok at"
  shows "\<exists>a. step_code flag order at = Some a \<and> act_ok step_ok a"
proof (cases at)
  case (Line_send soc buf lines)
  then show ?thesis using assms length_takeWhile_le [of _ buf] by (auto simp: step_acts act_ok_def endpoint_texts)
qed (use assms in \<open>auto simp: step_acts act_ok_def endpoint_texts ping_value_def ping_args_def test_data_def Let_def split: ping.split list.split\<close>)

interpretation steps: safe_program handler step_code step_ok "\<lambda>_. True" for handler
  by unfold_locales (metis step_act_safe option.distinct(1) option.inject)+

section \<open>Properties\<close>

text \<open>
  C22. The other demonstration programs are safe. Once the start that a program has has succeeded, the program, in any interleaving of its task with \<open>SIGINT\<close>, whose handler raises
  the event or not, frames of any content and the interrupt thread, and with any results of its waits and any lines on its input, reaches only states that satisfy
  the invariant, and whatever happens next is defined. The programs that ping need an identifier that can be shifted.
\<close>

theorem step_programs_safe:
  assumes "process_start s0" "setup \<in> set (step_setups at)" "setup s0 = Some (0, s)" "\<forall>p ident seq. at = Ping_loop p ident seq \<longrightarrow> ident \<le> 0x7fff"
    and "runs (process_exec handler step_code) (process_allowed (\<lambda>_. True)) (process_of at s) xs p" "process_allowed (\<lambda>_. True) x p"
  shows "process_ok step_code step_ok p \<and> (\<exists>p'. process_exec handler step_code x p = Some p' \<and> process_ok step_code step_ok p')"
proof -
  have "step_ok at" using assms(4) by (cases at) simp_all
  then have "process_ok step_code step_ok (process_of at s)" using step_setups_ok [OF assms(2,1,3)] by (intro process_of_ok)
  then show ?thesis using steps.runs_inv [OF assms(5)] steps.runs_not_stuck [OF assms(5) _ assms(6)] by blast
qed

section \<open>Evaluation\<close>

theorem step_programs_safe_witness:
  "\<exists>s p'. process_start start_example \<and> setup_stack start_example = Some (0, s) \<and>
     process_exec Set_flag step_code (Step 0 0) ((process_of Datagram_loop s)\<lparr>terminate := True\<rparr>) = Some p' \<and>
     process_ok step_code step_ok p'"
proof -
  obtain s where s: "setup_stack start_example = Some (0, s)" by (rule setup_example)
  have run: "runs (process_exec Set_flag step_code) (process_allowed (\<lambda>_. True)) (process_of Datagram_loop s) [Sigint]
      ((process_of Datagram_loop s)\<lparr>terminate := True\<rparr>)"
    by (simp add: runs_Nil runs_Cons process_exec_def on_signal_def process_of_def)
  have "setup_stack \<in> set (step_setups Datagram_loop)" by simp
  from step_programs_safe [OF start_example_ok this s _ run, of "Step 0 0"] start_example_ok s show ?thesis by (auto simp: process_of_def)
qed

end
