(* ===== verification/Dump.thy ===== *)
theory Dump
  imports Hexdump Icmp Tcp
begin

text \<open>
  The functions that print packets: \<^verbatim>\<open>ether_dump\<close>, \<^verbatim>\<open>arp_dump\<close>, \<^verbatim>\<open>ip_dump\<close>, \<^verbatim>\<open>icmp_dump\<close>, \<^verbatim>\<open>udp_dump\<close> and \<^verbatim>\<open>tcp_dump\<close>.
  Each is a function of the data and its length to the text that it writes to the standard error, undefined where it reads
  outside the data; it changes nothing. The argument \<open>hexd\<close> tells whether the program was compiled with \<^verbatim>\<open>HEXDUMP\<close>.
\<close>

section \<open>Definitions\<close>

definition dump_field :: "string \<Rightarrow> string \<Rightarrow> string" where
  "dump_field name v = name @ v @ newline"

definition dump_bytes :: "bool \<Rightarrow> bytes \<Rightarrow> nat \<Rightarrow> string option" where
  "dump_bytes hexd data len = (if hexd then hexdump data len else Some [])"

definition ether_dump :: "host \<Rightarrow> bool \<Rightarrow> bytes \<Rightarrow> nat \<Rightarrow> string option" where
  "ether_dump h hexd frame flen = do {
     src \<leftarrow> ether_addr_ntop (drop 6 frame) ETHER_ADDR_STR_LEN;
     dst \<leftarrow> ether_addr_ntop frame ETHER_ADDR_STR_LEN;
     type \<leftarrow> rd16 h frame 12;
     x \<leftarrow> dump_bytes hexd frame flen;
     Some (dump_field ''        src: '' src @ dump_field ''        dst: '' dst @
       dump_field ''       type: 0x'' (pad0 4 (fmt_x (unat (ntoh16 h type)))) @ x)
   }"

definition arp_opcode_ntoa :: "host \<Rightarrow> u16 \<Rightarrow> string" where
  "arp_opcode_ntoa h opcode =
     (if ntoh16 h opcode = ARP_OP_REQUEST then ''Request''
      else if ntoh16 h opcode = ARP_OP_REPLY then ''Reply''
      else ''Unknown'')"

definition arp_dump :: "host \<Rightarrow> bool \<Rightarrow> bytes \<Rightarrow> nat \<Rightarrow> string option" where
  "arp_dump h hexd data len = do {
     hrd \<leftarrow> rd16 h data 0;
     pro \<leftarrow> rd16 h data 2;
     hln \<leftarrow> rd8 data 4;
     pln \<leftarrow> rd8 data 5;
     op \<leftarrow> rd16 h data 6;
     sha \<leftarrow> ether_addr_ntop (drop 8 data) 128;
     spa \<leftarrow> rd32 h data 14;
     tha \<leftarrow> ether_addr_ntop (drop 18 data) 128;
     tpa \<leftarrow> rd32 h data 24;
     x \<leftarrow> dump_bytes hexd data len;
     Some (dump_field ''        hrd: 0x'' (pad0 4 (fmt_x (unat (ntoh16 h hrd)))) @
       dump_field ''        pro: 0x'' (pad0 4 (fmt_x (unat (ntoh16 h pro)))) @
       dump_field ''        hln: '' (fmt_d (unat hln)) @
       dump_field ''        pln: '' (fmt_d (unat pln)) @
       dump_field ''         op: '' (fmt_d (unat (ntoh16 h op)) @ '' ('' @ arp_opcode_ntoa h op @ '')'') @
       dump_field ''        sha: '' sha @ dump_field ''        spa: '' (ip_addr_ntop h spa 128) @
       dump_field ''        tha: '' tha @ dump_field ''        tpa: '' (ip_addr_ntop h tpa 128) @ x)
   }"

text \<open>The payload length is a difference of type \<^verbatim>\<open>int\<close> that \<^verbatim>\<open>%u\<close> prints as an unsigned number.\<close>

definition ip_dump :: "host \<Rightarrow> bool \<Rightarrow> bytes \<Rightarrow> nat \<Rightarrow> string option" where
  "ip_dump h hexd data len = do {
     vhl \<leftarrow> rd8 data 0;
     tos \<leftarrow> rd8 data 1;
     total \<leftarrow> rd16 h data 2;
     id \<leftarrow> rd16 h data 4;
     offset \<leftarrow> rd16 h data 6;
     ttl \<leftarrow> rd8 data 8;
     protocol \<leftarrow> rd8 data 9;
     sm \<leftarrow> rd16 h data 10;
     src \<leftarrow> rd32 h data 12;
     dst \<leftarrow> rd32 h data 16;
     x \<leftarrow> dump_bytes hexd data len;
     let v = drop_bit 4 (vhl AND 0xf0);
     let hl = vhl AND 0x0f;
     let hlen = push_bit 2 hl;
     let total = ntoh16 h total;
     let offset = ntoh16 h offset;
     Some (dump_field ''        vhl: 0x'' (fmt_02x vhl @ '' [v: '' @ fmt_d (unat v) @ '', hl: '' @ fmt_d (unat hl) @ '' ('' @ fmt_d (unat hlen) @ '')]'') @
       dump_field ''        tos: 0x'' (fmt_02x tos) @
       dump_field ''      total: '' (fmt_d (unat total) @ '' (payload: '' @ fmt_d (nat ((int (unat total) - int (unat hlen)) mod 4294967296)) @ '')'') @
       dump_field ''         id: '' (fmt_d (unat (ntoh16 h id))) @
       dump_field ''     offset: 0x'' (pad0 4 (fmt_x (unat offset)) @ '' [flags='' @ fmt_x (unat (drop_bit 13 (offset AND 0xe000))) @
         '', offset='' @ fmt_d (unat (offset AND 0x1fff)) @ '']'') @
       dump_field ''        ttl: '' (fmt_d (unat ttl)) @
       dump_field ''   protocol: '' (fmt_d (unat protocol)) @
       dump_field ''        sum: 0x'' (pad0 4 (fmt_x (unat (ntoh16 h sm)))) @
       dump_field ''        src: '' (ip_addr_ntop h src IP_ADDR_STR_LEN) @
       dump_field ''        dst: '' (ip_addr_ntop h dst IP_ADDR_STR_LEN) @ x)
   }"

definition ICMP_TYPE_DEST_UNREACH :: u8 where "ICMP_TYPE_DEST_UNREACH = 3"
definition ICMP_TYPE_SOURCE_QUENCH :: u8 where "ICMP_TYPE_SOURCE_QUENCH = 4"
definition ICMP_TYPE_REDIRECT :: u8 where "ICMP_TYPE_REDIRECT = 5"
definition ICMP_TYPE_TIME_EXCEEDED :: u8 where "ICMP_TYPE_TIME_EXCEEDED = 11"
definition ICMP_TYPE_PARAM_PROBLEM :: u8 where "ICMP_TYPE_PARAM_PROBLEM = 12"
definition ICMP_TYPE_TIMESTAMP :: u8 where "ICMP_TYPE_TIMESTAMP = 13"
definition ICMP_TYPE_TIMESTAMPREPLY :: u8 where "ICMP_TYPE_TIMESTAMPREPLY = 14"
definition ICMP_TYPE_INFO_REQUEST :: u8 where "ICMP_TYPE_INFO_REQUEST = 15"
definition ICMP_TYPE_INFO_REPLY :: u8 where "ICMP_TYPE_INFO_REPLY = 16"

definition icmp_type_ntoa :: "u8 \<Rightarrow> string" where
  "icmp_type_ntoa type =
     (if type = ICMP_TYPE_ECHOREPLY then ''EchoReply''
      else if type = ICMP_TYPE_DEST_UNREACH then ''DestinationUnreachable''
      else if type = ICMP_TYPE_SOURCE_QUENCH then ''SourceQuench''
      else if type = ICMP_TYPE_REDIRECT then ''Redirect''
      else if type = ICMP_TYPE_ECHO then ''Echo''
      else if type = ICMP_TYPE_TIME_EXCEEDED then ''TimeExceeded''
      else if type = ICMP_TYPE_PARAM_PROBLEM then ''ParameterProblem''
      else if type = ICMP_TYPE_TIMESTAMP then ''Timestamp''
      else if type = ICMP_TYPE_TIMESTAMPREPLY then ''TimestampReply''
      else if type = ICMP_TYPE_INFO_REQUEST then ''InformationRequest''
      else if type = ICMP_TYPE_INFO_REPLY then ''InformationReply''
      else ''Unknown'')"

text \<open>The identifier and the sequence number of \<^verbatim>\<open>struct icmp_echo\<close> are the two halves of the values.\<close>

definition icmp_dump :: "host \<Rightarrow> bool \<Rightarrow> bytes \<Rightarrow> nat \<Rightarrow> string option" where
  "icmp_dump h hexd data len = do {
     type \<leftarrow> rd8 data 0;
     code \<leftarrow> rd8 data 1;
     sm \<leftarrow> rd16 h data 2;
     rest \<leftarrow> (if type = ICMP_TYPE_ECHOREPLY \<or> type = ICMP_TYPE_ECHO
       then do {
         id \<leftarrow> rd16 h data 4;
         seq \<leftarrow> rd16 h data 6;
         Some (dump_field ''         id: '' (fmt_d (unat (ntoh16 h id))) @ dump_field ''        seq: '' (fmt_d (unat (ntoh16 h seq))))
       }
       else do {
         vals \<leftarrow> rd32 h data 4;
         Some (dump_field ''     values: 0x'' (pad0 8 (fmt_x (unat (ntoh32 h vals)))))
       });
     x \<leftarrow> dump_bytes hexd data len;
     Some (dump_field ''       type: '' (fmt_d (unat type) @ '' ('' @ icmp_type_ntoa type @ '')'') @
       dump_field ''       code: '' (fmt_d (unat code)) @
       dump_field ''        sum: 0x'' (pad0 4 (fmt_x (unat (ntoh16 h sm)))) @ rest @ x)
   }"

definition udp_dump :: "host \<Rightarrow> bool \<Rightarrow> bytes \<Rightarrow> nat \<Rightarrow> string option" where
  "udp_dump h hexd data len = do {
     src \<leftarrow> rd16 h data 0;
     dst \<leftarrow> rd16 h data 2;
     ulen \<leftarrow> rd16 h data 4;
     sm \<leftarrow> rd16 h data 6;
     x \<leftarrow> dump_bytes hexd data len;
     Some (dump_field ''        src: '' (fmt_d (unat (ntoh16 h src))) @
       dump_field ''        dst: '' (fmt_d (unat (ntoh16 h dst))) @
       dump_field ''        len: '' (fmt_d (unat (ntoh16 h ulen))) @
       dump_field ''        sum: 0x'' (pad0 4 (fmt_x (unat (ntoh16 h sm)))) @ x)
   }"

definition TCP_FLG_URG :: u8 where "TCP_FLG_URG = 0x20"

definition tcp_flg_ntoa :: "u8 \<Rightarrow> string" where
  "tcp_flg_ntoa flg = take 8
     [CHR ''-'', CHR ''-'',
      if TCP_FLG_ISSET flg TCP_FLG_URG then CHR ''U'' else CHR ''-'',
      if TCP_FLG_ISSET flg TCP_FLG_ACK then CHR ''A'' else CHR ''-'',
      if TCP_FLG_ISSET flg TCP_FLG_PSH then CHR ''P'' else CHR ''-'',
      if TCP_FLG_ISSET flg TCP_FLG_RST then CHR ''R'' else CHR ''-'',
      if TCP_FLG_ISSET flg TCP_FLG_SYN then CHR ''S'' else CHR ''-'',
      if TCP_FLG_ISSET flg TCP_FLG_FIN then CHR ''F'' else CHR ''-'']"

definition tcp_dump :: "host \<Rightarrow> bool \<Rightarrow> bytes \<Rightarrow> nat \<Rightarrow> string option" where
  "tcp_dump h hexd data len = do {
     src \<leftarrow> rd16 h data 0;
     dst \<leftarrow> rd16 h data 2;
     sq \<leftarrow> rd32 h data 4;
     ak \<leftarrow> rd32 h data 8;
     off \<leftarrow> rd8 data 12;
     flg \<leftarrow> rd8 data 13;
     wnd \<leftarrow> rd16 h data 14;
     sm \<leftarrow> rd16 h data 16;
     up \<leftarrow> rd16 h data 18;
     x \<leftarrow> dump_bytes hexd data len;
     Some (dump_field ''        src: '' (fmt_d (unat (ntoh16 h src))) @
       dump_field ''        dst: '' (fmt_d (unat (ntoh16 h dst))) @
       dump_field ''        seq: '' (fmt_d (unat (ntoh32 h sq))) @
       dump_field ''        ack: '' (fmt_d (unat (ntoh32 h ak))) @
       dump_field ''        off: 0x'' (fmt_02x off @ '' ('' @ fmt_d (unat off div 16 * 4) @ '')'') @
       dump_field ''        flg: 0x'' (fmt_02x flg @ '' ('' @ tcp_flg_ntoa flg @ '')'') @
       dump_field ''        wnd: '' (fmt_d (unat (ntoh16 h wnd))) @
       dump_field ''        sum: 0x'' (pad0 4 (fmt_x (unat (ntoh16 h sm)))) @
       dump_field ''         up: '' (fmt_d (unat (ntoh16 h up))) @ x)
   }"

section \<open>Printable texts\<close>

lemma plain_Cons: "plain (c # t) \<longleftrightarrow> (c = CHR 0x0A \<or> 32 \<le> (of_char c :: nat) \<and> (of_char c :: nat) < 127) \<and> plain t"
  by (auto simp: plain_def)

lemma plain_Nil: "plain []"
  by (simp add: plain_def)

lemma plain_fmt: "plain (fmt_d n)" "plain (fmt_x n)" "plain (fmt_02x b)" "plain (pad0 w (fmt_x n))"
proof -
  show "plain (fmt_d n)" using decimal_fmt_d [of n] by (intro plain_digits) (auto simp: decimal_def)
  show "plain (fmt_x n)" "plain (fmt_02x b)" by (simp_all add: plain_digits fmt_x_digits fmt_02x_digits)
  moreover have "plain (replicate k CHR ''0'')" for k by (auto simp: plain_def)
  ultimately show "plain (pad0 w (fmt_x n))" by (simp add: pad0_def)
qed

lemma plain_take: "plain t \<Longrightarrow> plain (take n t)"
  by (auto simp: plain_def dest: in_set_takeD)

lemma plain_names: "plain (icmp_type_ntoa type)" "plain (arp_opcode_ntoa h op)" "plain (tcp_flg_ntoa flg)"
  by (simp_all add: icmp_type_ntoa_def arp_opcode_ntoa_def tcp_flg_ntoa_def plain_Cons plain_Nil)

lemma plain_ip_addr_ntop: "plain (ip_addr_ntop h a n)"
  by (simp add: ip_addr_ntop_def Let_def plain_take plain_fmt plain_Cons plain_Nil)

lemma ether_addr_ntop_plain: "6 \<le> length n \<Longrightarrow> \<exists>t. ether_addr_ntop n sz = Some t \<and> plain t"
  by (simp add: ether_addr_ntop_def rd_bytes_def plain_take plain_fmt plain_Cons plain_Nil)

lemma plain_dump_field: "plain (dump_field name v) \<longleftrightarrow> plain name \<and> plain v"
  by (auto simp: dump_field_def newline_def plain_Cons plain_Nil)

lemmas plain_simps = plain_Cons plain_Nil plain_fmt plain_names plain_ip_addr_ntop plain_dump_field

lemma dump_bytes_plain: "len \<le> length data \<Longrightarrow> len \<le> 65536 \<Longrightarrow> \<exists>t. dump_bytes hexd data len = Some t \<and> plain t"
  using hexdump_text [of len data] by (auto simp: dump_bytes_def plain_Nil)

section \<open>Properties\<close>

definition dumps :: "(bytes \<Rightarrow> nat \<Rightarrow> string option) \<Rightarrow> nat \<Rightarrow> bytes \<Rightarrow> nat \<Rightarrow> bool" where
  "dumps f n data len \<longleftrightarrow> (n \<le> len \<longrightarrow> (\<exists>t. f data len = Some t \<and> plain t))"



end
