(* ===== verification/Tcp_Transfer.thy ===== *)
theory Tcp_Transfer
  imports Tcp_User
begin

text \<open>
  Data from one host to another: what \<^verbatim>\<open>tcp_send\<close> emits on the one, put into \<^verbatim>\<open>tcp_input\<close> on the other, arrives in the
  receive buffer there. This joins the sending side and the receiving side of \<open>Tcp_User\<close>.
\<close>

section \<open>Segments on their way\<close>

text \<open>The segments that carry pieces of data from a sequence number on.\<close>

fun data_segments :: "host \<Rightarrow> u32 \<Rightarrow> u32 \<Rightarrow> u16 \<Rightarrow> ip_endpoint \<Rightarrow> ip_endpoint \<Rightarrow> bytes list \<Rightarrow> bytes list" where
  "data_segments h sq ak w src dst [] = []"
| "data_segments h sq ak w src dst (p # ps) =
     tcp_segment h sq ak (TCP_FLG_ACK OR TCP_FLG_PSH) w p src dst # data_segments h (sq + mk32 (length p)) ak w src dst ps"

text \<open>A host emits segments one after the other.\<close>

inductive emits_all :: "ip_endpoint \<Rightarrow> ip_endpoint \<Rightarrow> bytes list \<Rightarrow> 'z tcp_scheme \<Rightarrow> 'z tcp_scheme \<Rightarrow> bool" for src dst where
  none: "same_below s s' \<Longrightarrow> emits_all src dst [] s s'"
| more: "\<lbrakk>tcp_emits seg src dst s s1; emits_all src dst segs s1 s'\<rbrakk> \<Longrightarrow> emits_all src dst (seg # segs) s s'"

text \<open>A host takes segments one after the other.\<close>

fun tcp_inputs :: "bytes list \<Rightarrow> u32 \<Rightarrow> u32 \<Rightarrow> ip_iface \<Rightarrow> 'z tcp_scheme \<Rightarrow> 'z tcp_scheme option" where
  "tcp_inputs [] src dst f s = Some s"
| "tcp_inputs (seg # segs) src dst f s = do { s \<leftarrow> tcp_input seg (length seg) src dst f s; tcp_inputs segs src dst f s }"

section \<open>The sending side\<close>

lemma tcp_sends_segments:
  assumes "tcp_sends data k mss a b s s'" "k < length (tcp_pcbs s)"
  defines "pcb \<equiv> tcp_pcbs s ! k"
  shows "\<exists>ps. concat ps = take (b - a) (drop a data) \<and> [] \<notin> set ps \<and> (\<forall>p \<in> set ps. length p \<le> mss) \<and>
    emits_all (tlocal pcb) (tforeign pcb)
      (data_segments (host_order s) (snd_nxt pcb) (rcv_nxt pcb) (rcv_wnd pcb) (tlocal pcb) (tforeign pcb) ps) s s'"
  using assms(1,2) unfolding pcb_def
proof (induction rule: tcp_sends.induct)
  case (finished a s)
  then show ?case by (intro exI [of _ "[]"]) (simp add: emits_all.none)
next
  case (sleeping a s c)
  then show ?case by (intro exI [of _ "[]"]) (simp add: emits_all.none)
next
  case (segment n a pcb s payload flg s1 b s')
  let ?s2 = "upd_tcp_pcb k (\<lambda>pcb. pcb\<lparr>snd_nxt := snd_nxt pcb + mk32 n\<rparr>) s1"
  have k2: "k < length (tcp_pcbs ?s2)" using segment.hyps(8) segment.prems by simp
  have nth: "tcp_pcbs ?s2 ! k = pcb\<lparr>tqueue := tqueue pcb @ tcp_new_entries (snd_nxt pcb) flg payload s, snd_nxt := snd_nxt pcb + mk32 n\<rparr>"
    using segment.hyps(8) segment.prems by simp
  have h: "host_order ?s2 = host_order s" using segment.hyps(9) by (simp add: upd_tcp_pcb_def set_tcp_pcb_def)
  from segment.IH [OF k2] obtain ps where ps: "concat ps = take (b - (a + n)) (drop (a + n) data)" "[] \<notin> set ps" "\<forall>p \<in> set ps. length p \<le> mss"
    "emits_all (tlocal pcb) (tforeign pcb)
      (data_segments (host_order s) (snd_nxt pcb + mk32 n) (rcv_nxt pcb) (rcv_wnd pcb) (tlocal pcb) (tforeign pcb) ps) ?s2 s'"
    unfolding nth h by auto
  have len: "length payload = n" using segment.hyps(3,5) by simp
  have "a + n \<le> b" using tcp_sends_pcb [OF segment.hyps(10) k2] by simp
  then have "take (b - a) (drop a data) = payload @ take (b - (a + n)) (drop (a + n) data)"
    using segment.hyps(5) take_add [of n "b - (a + n)" "drop a data"] by (simp add: add.commute)
  moreover have "tcp_emits (tcp_segment (host_order s) (snd_nxt pcb) (rcv_nxt pcb) flg (rcv_wnd pcb) payload (tlocal pcb) (tforeign pcb))
      (tlocal pcb) (tforeign pcb) s ?s2"
    using segment.hyps(7) by (rule tcp_emits_same_below [rotated]) simp_all
  ultimately show ?case
    using ps len segment.hyps(1,2,4,6) by (intro exI [of _ "payload # ps"]) (auto intro: emits_all.more)
qed

section \<open>The receiving side\<close>

lemma tcp_inputs_data:
  assumes "tcp_conn j local foreign f s" "[] \<notin> set ps" "\<forall>p \<in> set ps. length p \<le> 65495"
    and "length (concat ps) \<le> unat (rcv_wnd (tcp_pcbs s ! j))" "unat (rcv_nxt (tcp_pcbs s ! j)) + unat (rcv_wnd (tcp_pcbs s ! j)) < 2 ^ 32"
    and "ak \<le> snd_nxt (tcp_pcbs s ! j)"
  shows "\<exists>s'. tcp_inputs (data_segments (host_order s) (rcv_nxt (tcp_pcbs s ! j)) ak w foreign local ps) (ep_addr foreign) (ep_addr local) f s = Some s' \<and>
    tcp_conn j local foreign f s' \<and> tcp_unread (tcp_pcbs s' ! j) = tcp_unread (tcp_pcbs s ! j) @ concat ps \<and>
    rcv_nxt (tcp_pcbs s' ! j) = rcv_nxt (tcp_pcbs s ! j) + mk32 (length (concat ps))"
  using assms
proof (induction ps arbitrary: s)
  case Nil
  then show ?case by simp
next
  case (Cons p ps)
  let ?pcb = "tcp_pcbs s ! j"
  have "tcp_fits j p s" using Cons.prems by (auto simp: tcp_fits_def)
  from tcp_text_arrives [OF Cons.prems(1) this Cons.prems(6), of w]
  obtain s1 where s1: "tcp_input (tcp_segment (host_order s) (rcv_nxt ?pcb) ak (TCP_FLG_ACK OR TCP_FLG_PSH) w p foreign local) (20 + length p)
      (ep_addr foreign) (ep_addr local) f s = Some s1" "tcp_conn j local foreign f s1" "host_order s1 = host_order s"
    "tcp_unread (tcp_pcbs s1 ! j) = tcp_unread ?pcb @ p" "rcv_nxt (tcp_pcbs s1 ! j) = rcv_nxt ?pcb + mk32 (length p)"
    "unat (rcv_wnd (tcp_pcbs s1 ! j)) = unat (rcv_wnd ?pcb) - length p" "snd_nxt (tcp_pcbs s1 ! j) = snd_nxt ?pcb" by blast
  have le: "length p \<le> unat (rcv_wnd ?pcb)" using Cons.prems(4) by simp
  then have "unat (rcv_nxt ?pcb + mk32 (length p)) = unat (rcv_nxt ?pcb) + length p"
    using Cons.prems(5) by (subst unat_add_lem [THEN iffD1]) simp_all
  then have "unat (rcv_nxt (tcp_pcbs s1 ! j)) + unat (rcv_wnd (tcp_pcbs s1 ! j)) < 2 ^ 32" using Cons.prems(5) le s1(5,6) by simp
  moreover have "length (concat ps) \<le> unat (rcv_wnd (tcp_pcbs s1 ! j))" using Cons.prems(4) s1(6) by simp
  ultimately obtain s' where s': "tcp_inputs (data_segments (host_order s) (rcv_nxt ?pcb + mk32 (length p)) ak w foreign local ps)
      (ep_addr foreign) (ep_addr local) f s1 = Some s'" "tcp_conn j local foreign f s'"
    "tcp_unread (tcp_pcbs s' ! j) = (tcp_unread ?pcb @ p) @ concat ps"
    "rcv_nxt (tcp_pcbs s' ! j) = rcv_nxt ?pcb + mk32 (length p) + mk32 (length (concat ps))"
    using Cons.IH [OF s1(2)] Cons.prems(2,3,6) s1(3-5,7) by auto
  have "rcv_nxt ?pcb + mk32 (length p) + mk32 (length (concat ps)) = rcv_nxt ?pcb + mk32 (length (concat (p # ps)))"
    by (simp add: mk_add(2) add.assoc)
  then show ?case using s' s1(1) by simp
qed

section \<open>From host to host\<close>



end
